(* ===== verification/Prelude.thy ===== *)
theory Prelude
  imports Main "HOL-Library.Word" "HOL-Library.AList"
begin

unbundle bit_operations_syntax

text \<open>
  What the components share: the exceptions of the source as values and the result
  type that carries them, byte strings with their big-endian integers (the
  \<^verbatim>\<open>struct.pack(">H")\<close> and \<^verbatim>\<open>int.to_bytes\<close> of the source), Python slices, and the
  interfaces (locales) that several components provide: a codec, a state machine driven
  by a list of operations, and an allocator of identifiers that are never used twice.
\<close>

named_theorems bytes_simps \<open>lengths, slices and big-endian integers of byte strings\<close>

section \<open>Exceptions and results\<close>

text \<open>
  Every \<^verbatim>\<open>raise\<close> is a value. The strings are the source's messages without the
  interpolated values. \<open>StructError\<close> is \<^verbatim>\<open>struct.error\<close>, which is not a
  \<^verbatim>\<open>ValueError\<close> in Python.
\<close>

datatype pyerr =
    ValueError string
  | TypeError string
  | RuntimeError string
  | OverflowError string
  | OSError string
  | AssertionError string
  | KeyError
  | IndexError
  | StructError
  | ZeroDivisionError

type_synonym 'a res = "pyerr + 'a"

definition rbind :: "'a res \<Rightarrow> ('a \<Rightarrow> 'b res) \<Rightarrow> 'b res" where
  "rbind r k = (case r of Inl e \<Rightarrow> Inl e | Inr x \<Rightarrow> k x)"

lemma rbind_simps [simp]:
  "rbind (Inl e) k = Inl e"
  "rbind (Inr x) k = k x"
  by (simp_all add: rbind_def)

lemma rbind_Inr_iff: "rbind r k = Inr y \<longleftrightarrow> (\<exists>x. r = Inr x \<and> k x = Inr y)"
  by (cases r) simp_all

lemma rbind_Inl_iff:
  "rbind r k = Inl e \<longleftrightarrow> r = Inl e \<or> (\<exists>x. r = Inr x \<and> k x = Inl e)"
  by (cases r) auto

lemma rbind_cong [fundef_cong]:
  "r = r' \<Longrightarrow> (\<And>x. r' = Inr x \<Longrightarrow> k x = k' x) \<Longrightarrow> rbind r k = rbind r' k'"
  by (cases r') simp_all

lemma if_Inl_eq_Inr [simp]:
  "(if b then Inl e else r) = Inr y \<longleftrightarrow> \<not> b \<and> r = Inr y"
  "(if b then r else Inl e) = Inr y \<longleftrightarrow> b \<and> r = Inr y"
  by simp_all

definition is_ok :: "'a res \<Rightarrow> bool" where
  "is_ok r \<longleftrightarrow> (case r of Inl _ \<Rightarrow> False | Inr _ \<Rightarrow> True)"

lemma is_ok_simps [simp]: "is_ok (Inr x)" "\<not> is_ok (Inl e)"
  by (simp_all add: is_ok_def)

lemma length_2E: "length xs = 2 \<Longrightarrow> (\<And>x y. xs = [x, y] \<Longrightarrow> P) \<Longrightarrow> P"
  by (auto simp: length_Suc_conv numeral_2_eq_2)

section \<open>Byte strings\<close>

type_synonym byte = "8 word"
type_synonym bytes = "byte list"

text \<open>Python's \<^verbatim>\<open>xs[a:b]\<close> for \<open>0 \<le> a\<close>: both ends are clipped, nothing is raised.\<close>

definition slice :: "nat \<Rightarrow> nat \<Rightarrow> 'a list \<Rightarrow> 'a list" where
  "slice a b xs = take (b - a) (drop a xs)"

text \<open>\<^verbatim>\<open>xs[:-n]\<close> and \<^verbatim>\<open>xs[-n:]\<close> for positive \<open>n\<close>.\<close>

definition but_last_n :: "nat \<Rightarrow> 'a list \<Rightarrow> 'a list" where
  "but_last_n n xs = take (length xs - n) xs"

definition last_n :: "nat \<Rightarrow> 'a list \<Rightarrow> 'a list" where
  "last_n n xs = drop (length xs - n) xs"

lemma slice_simps [bytes_simps]:
  "length (slice a b xs) = min (b - a) (length xs - a)"
  "slice 0 b xs = take b xs"
  by (auto simp: slice_def)

lemma slice_append_middle: "length xs = a \<Longrightarrow> b = a + length ys \<Longrightarrow> slice a b (xs @ ys @ zs) = ys"
  by (simp add: slice_def)

lemma last_n_append [simp]: "length ys = n \<Longrightarrow> last_n n (xs @ ys) = ys"
  by (simp add: last_n_def)

lemma but_last_n_append [simp]: "length ys = n \<Longrightarrow> but_last_n n (xs @ ys) = xs"
  by (simp add: but_last_n_def)

lemma but_last_n_last_n: "but_last_n n xs @ last_n n xs = xs"
  by (simp add: but_last_n_def last_n_def)

lemma length_but_last_n [simp]: "length (but_last_n n xs) = length xs - n"
  by (simp add: but_last_n_def)

lemma length_last_n [simp]: "length (last_n n xs) = min n (length xs)"
  by (auto simp: last_n_def)

text \<open>Big-endian integers of a fixed width, most significant byte first.\<close>

fun be_bytes :: "nat \<Rightarrow> nat \<Rightarrow> bytes" where
  "be_bytes 0 v = []"
| "be_bytes (Suc n) v = be_bytes n (v div 256) @ [word_of_nat (v mod 256)]"

definition be_val :: "bytes \<Rightarrow> nat" where
  "be_val bs = foldl (\<lambda>a b. a * 256 + unat b) 0 bs"

lemma be_val_simps [simp]:
  "be_val [] = 0"
  "be_val (bs @ [b]) = be_val bs * 256 + unat b"
  by (simp_all add: be_val_def)

lemma unat_byte_less [simp]: "unat (b :: byte) < 256"
  using unsigned_less[of b] by simp

lemma length_be_bytes [simp, bytes_simps]: "length (be_bytes n v) = n"
  by (induction n arbitrary: v) simp_all

lemma unat_of_nat_byte: "v < 256 \<Longrightarrow> unat (word_of_nat v :: byte) = v"
  by (simp add: unat_of_nat)

lemma be_val_be_bytes: "v < 256 ^ n \<Longrightarrow> be_val (be_bytes n v) = v"
proof (induction n arbitrary: v)
  case 0
  then show ?case by simp
next
  case (Suc n)
  then have "v div 256 < 256 ^ n"
    by (simp add: less_mult_imp_div_less mult.commute)
  with Suc.IH have "be_val (be_bytes n (v div 256)) = v div 256" by blast
  then show ?case by (simp add: unat_of_nat_byte)
qed

lemma be_val_less: "be_val bs < 256 ^ length bs"
proof (induction bs rule: rev_induct)
  case Nil
  then show ?case by simp
next
  case (snoc b bs)
  then have "be_val bs + 1 \<le> 256 ^ length bs" by simp
  then have "be_val bs * 256 + 256 \<le> 256 ^ length bs * 256" by simp
  moreover have "unat b < 256" by simp
  ultimately have "be_val bs * 256 + unat b < 256 ^ length bs * 256" by linarith
  then show ?case by (simp add: mult.commute)
qed

lemma be_bytes_be_val: "be_bytes (length bs) (be_val bs) = bs"
proof (induction bs rule: rev_induct)
  case Nil
  then show ?case by simp
next
  case (snoc b bs)
  have "(be_val bs * 256 + unat b) div 256 = be_val bs"
    and "(be_val bs * 256 + unat b) mod 256 = unat b"
    using unat_byte_less[of b] by simp_all
  with snoc.IH show ?case by simp
qed

lemma be_bytes_be_val': "length bs = n \<Longrightarrow> be_bytes n (be_val bs) = bs"
  using be_bytes_be_val by blast

lemma be_bytes_inj: "v < 256 ^ n \<Longrightarrow> w < 256 ^ n \<Longrightarrow> be_bytes n v = be_bytes n w \<Longrightarrow> v = w"
  by (metis be_val_be_bytes)

text \<open>
  A \<^verbatim>\<open>struct.pack\<close> field: \<^verbatim>\<open>struct.error\<close> when the integer does not fit.
\<close>

definition pack_uint :: "nat \<Rightarrow> int \<Rightarrow> bytes res" where
  "pack_uint n v = (if 0 \<le> v \<and> v < 256 ^ n then Inr (be_bytes n (nat v)) else Inl StructError)"

lemma pack_uint_ok: "0 \<le> v \<Longrightarrow> v < 256 ^ n \<Longrightarrow> pack_uint n v = Inr (be_bytes n (nat v))"
  by (simp add: pack_uint_def)

lemma nat_less_pow256: "0 \<le> v \<Longrightarrow> v < 256 ^ n \<Longrightarrow> nat v < 256 ^ n"
  by (simp add: nat_less_iff)

lemma int_be_val_be_bytes: "0 \<le> v \<Longrightarrow> v < 256 ^ n \<Longrightarrow> int (be_val (be_bytes n (nat v))) = v"
  by (simp add: be_val_be_bytes nat_less_pow256)

section \<open>Bit fields of Python integers\<close>

text \<open>
  The code builds header words with shifts and \<^verbatim>\<open>|\<close> and takes them apart with shifts
  and masks. These lemmas turn both into arithmetic.
\<close>

named_theorems bitfield \<open>shifts, masks and disjoint unions of bit fields as arithmetic\<close>

lemma or_shift_add:
  fixes a b :: int
  assumes "0 \<le> a" "a < 2 ^ k"
  shows "push_bit k b OR a = b * 2 ^ k + a"
proof -
  have "a = take_bit k a"
    using assms by (simp add: take_bit_int_eq_self)
  moreover have "push_bit k b AND take_bit k a = 0"
    by (rule bit_eqI) (auto simp: bit_simps)
  ultimately have "push_bit k b OR a = push_bit k b + a"
    using disjunctive_add_eq_or by metis
  then show ?thesis by (simp add: push_bit_eq_mult)
qed

lemma int_and_mask: "(x :: int) AND mask n = x mod 2 ^ n"
  by (simp flip: take_bit_eq_mask add: take_bit_eq_mod)

lemma int_and_mask': "m = 2 ^ n - 1 \<Longrightarrow> (x :: int) AND m = x mod 2 ^ n"
  by (simp only: int_and_mask flip: mask_eq_exp_minus_1)

lemma and_mask_mod [bitfield]:
  fixes x :: int
  shows "x AND 2047 = x mod 2048"
    "x AND 16383 = x mod 16384"
    "x AND 1023 = x mod 1024"
    "x AND 255 = x mod 256"
    "x AND 63 = x mod 64"
    "x AND 31 = x mod 32"
    "x AND 7 = x mod 8"
    "x AND 3 = x mod 4"
    "x AND 1 = x mod 2"
proof -
  show "x AND 2047 = x mod 2048"
    using int_and_mask' [of 2047 11 x] by simp
  show "x AND 16383 = x mod 16384"
    using int_and_mask' [of 16383 14 x] by simp
  show "x AND 1023 = x mod 1024"
    using int_and_mask' [of 1023 10 x] by simp
  show "x AND 255 = x mod 256"
    using int_and_mask' [of 255 8 x] by simp
  show "x AND 63 = x mod 64"
    using int_and_mask' [of 63 6 x] by simp
  show "x AND 31 = x mod 32"
    using int_and_mask' [of 31 5 x] by simp
  show "x AND 7 = x mod 8"
    using int_and_mask' [of 7 3 x] by simp
  show "x AND 3 = x mod 4"
    using int_and_mask' [of 3 2 x] by simp
  show "x AND 1 = x mod 2"
    using int_and_mask' [of 1 1 x] by simp
qed

lemma shift_arith [bitfield]:
  fixes x :: int
  shows "push_bit n x = x * 2 ^ n" "drop_bit n x = x div 2 ^ n"
  by (simp_all add: push_bit_eq_mult drop_bit_eq_div)

lemma field_split:
  fixes a x m :: int
  assumes "0 \<le> a" "a < m"
  shows "(x * m + a) mod m = a" "(x * m + a) div m = x"
  using assms by (simp_all add: div_add1_eq)


section \<open>Dictionaries\<close>

text \<open>
  A Python dict is an association list with distinct keys, in insertion order:
  \<open>AList.update\<close> replaces a value in place or appends a new key, as assignment does,
  \<open>AList.delete\<close> is \<^verbatim>\<open>del\<close>, and \<open>map_of\<close> is \<^verbatim>\<open>get\<close>.
\<close>

type_synonym ('k, 'v) dict = "('k \<times> 'v) list"

abbreviation dput :: "'k \<Rightarrow> 'v \<Rightarrow> ('k, 'v) dict \<Rightarrow> ('k, 'v) dict" where
  "dput \<equiv> AList.update"

abbreviation ddel :: "'k \<Rightarrow> ('k, 'v) dict \<Rightarrow> ('k, 'v) dict" where
  "ddel \<equiv> AList.delete"

abbreviation dkeys :: "('k, 'v) dict \<Rightarrow> 'k list" where
  "dkeys d \<equiv> map fst d"

abbreviation dvalues :: "('k, 'v) dict \<Rightarrow> 'v list" where
  "dvalues d \<equiv> map snd d"

lemma map_of_dput [simp]: "map_of (dput k v d) = (map_of d)(k \<mapsto> v)"
  by (rule update_conv')

lemma map_of_ddel [simp]: "map_of (ddel k d) = (map_of d)(k := None)"
  by (rule delete_conv')

lemma dkeys_distinct [simp]:
  "distinct (dkeys d) \<Longrightarrow> distinct (dkeys (dput k v d))"
  "distinct (dkeys d) \<Longrightarrow> distinct (dkeys (ddel k d))"
  by (simp_all add: distinct_update distinct_delete)

lemma dvalues_iff: "distinct (dkeys d) \<Longrightarrow> v \<in> set (dvalues d) \<longleftrightarrow> (\<exists>k. map_of d k = Some v)"
  by (force simp: image_iff map_of_eq_Some_iff)

lemma dput_new: "map_of d k = None \<Longrightarrow> dput k v d = d @ [(k, v)]"
  by (induction d) (auto split: if_splits)

section \<open>Integers\<close>

text \<open>Python's floor division, as an upper bound of the dividend.\<close>

lemma floor_le_iff_less:
  fixes x r e :: int
  assumes "0 < r"
  shows "x div r \<le> e \<longleftrightarrow> x < (e + 1) * r"
proof
  have m: "x = x div r * r + x mod r" "0 \<le> x mod r" "x mod r < r" using assms by simp_all
  show "x < (e + 1) * r" if "x div r \<le> e"
  proof -
    have "x div r * r \<le> e * r" using that assms by (simp add: mult_right_mono)
    with m have "x < e * r + r" by linarith
    then show ?thesis by (simp add: algebra_simps)
  qed
  show "x div r \<le> e" if "x < (e + 1) * r"
  proof -
    have "x div r * r < (e + 1) * r" using m that by linarith
    then show ?thesis using assms by (simp add: mult_less_cancel_right)
  qed
qed

end
