(* ===== verification/Interfaces.thy ===== *)
theory Interfaces
  imports Prelude
begin

text \<open>
  The interfaces the components share, as locales: a codec and a strict codec (every
  accepted input is an encoding), a component driven by operations with an invariant,
  and a monotone component (an allocator is one). Each is interpreted in the theory of
  every component that provides it, on the model of the code itself.
\<close>

section \<open>Codecs\<close>

locale codec =
  fixes valid :: "'a \<Rightarrow> bool"
    and enc :: "'a \<Rightarrow> 'b res"
    and dec :: "'b \<Rightarrow> 'a res"
  assumes roundtrip: "valid x \<Longrightarrow> enc x = Inr b \<Longrightarrow> dec b = Inr x"
begin

lemma enc_inj: "valid x \<Longrightarrow> valid y \<Longrightarrow> enc x = Inr b \<Longrightarrow> enc y = Inr b \<Longrightarrow> x = y"
  using roundtrip [of x b] roundtrip [of y b] by simp

end

text \<open>A strict codec accepts nothing but encodings of valid values.\<close>

locale strict_codec = codec valid enc dec
  for valid :: "'a \<Rightarrow> bool" and enc :: "'a \<Rightarrow> 'b res" and dec :: "'b \<Rightarrow> 'a res" +
  assumes sound: "dec b = Inr x \<Longrightarrow> valid x \<and> enc x = Inr b"
begin

lemma dec_iff: "dec b = Inr x \<longleftrightarrow> valid x \<and> enc x = Inr b"
  using roundtrip sound by blast

lemma dec_inj: "dec b = Inr x \<Longrightarrow> dec c = Inr x \<Longrightarrow> b = c"
  using sound [of b x] sound [of c x] by simp

end

section \<open>Components driven by operations\<close>

text \<open>
  \<open>step s op\<close> is the state after one operation (an operation that raises is a step
  too: it leaves the state the exception leaves). A run is a fold over operations.
\<close>

definition run_ops :: "('s \<Rightarrow> 'o \<Rightarrow> 's) \<Rightarrow> 's \<Rightarrow> 'o list \<Rightarrow> 's" where
  "run_ops step s ops = foldl step s ops"

lemma run_ops_simps [simp]:
  "run_ops step s [] = s"
  "run_ops step s (op # ops) = run_ops step (step s op) ops"
  by (simp_all add: run_ops_def)

lemma run_ops_append: "run_ops step s (xs @ ys) = run_ops step (run_ops step s xs) ys"
  by (simp add: run_ops_def)

locale op_system =
  fixes step :: "'s \<Rightarrow> 'o \<Rightarrow> 's"
    and inv :: "'s \<Rightarrow> bool"
  assumes inv_step: "inv s \<Longrightarrow> inv (step s op)"
begin

lemma inv_run: "inv s \<Longrightarrow> inv (run_ops step s ops)"
  by (induction ops arbitrary: s) (auto intro: inv_step)

end

text \<open>A component with a quantity that no operation decreases.\<close>

locale monotone_system = op_system step inv
  for step :: "'s \<Rightarrow> 'o \<Rightarrow> 's" and inv :: "'s \<Rightarrow> bool" +
  fixes level :: "'s \<Rightarrow> 'm::preorder"
  assumes level_step: "inv s \<Longrightarrow> level s \<le> level (step s op)"
begin

lemma level_run: "inv s \<Longrightarrow> level s \<le> level (run_ops step s ops)"
proof (induction ops arbitrary: s)
  case Nil
  then show ?case by simp
next
  case (Cons op ops)
  from Cons.prems have "level s \<le> level (step s op)" by (rule level_step)
  also have "\<dots> \<le> level (run_ops step (step s op) ops)"
    using Cons.prems by (intro Cons.IH inv_step)
  finally show ?case by simp
qed

end

text \<open>A fact about the state that no operation takes back once it holds.\<close>

locale stable_fact = op_system step inv
  for step :: "'s \<Rightarrow> 'o \<Rightarrow> 's" and inv :: "'s \<Rightarrow> bool" +
  fixes fact :: "'s \<Rightarrow> bool"
  assumes fact_step: "inv s \<Longrightarrow> fact s \<Longrightarrow> fact (step s op)"
begin

lemma fact_run: "inv s \<Longrightarrow> fact s \<Longrightarrow> fact (run_ops step s ops)"
  by (induction ops arbitrary: s) (auto intro: inv_step fact_step)

end

end
