(* ===== verification/Canonical.thy ===== *)
theory Canonical
  imports Interfaces
begin

unbundle bit_operations_syntax

text \<open>
  The checked unsigned integers and the 64-bit codecs of \<^verbatim>\<open>protocol/canonical.py\<close>,
  and the SQLite and cursor codecs with keyset pagination of \<^verbatim>\<open>gds/u64.py\<close>.
  Python integers are \<open>int\<close>; the \<^verbatim>\<open>isinstance\<close> tests on them are the types of the
  model. A text value is a list of characters with codes below 256.
\<close>

section \<open>Checked unsigned integers\<close>

definition checked_uint :: "int \<Rightarrow> nat \<Rightarrow> int res" where
  "checked_uint value bits =
     (let maximum = push_bit bits 1 - 1 in
      if value < 0 \<or> value > maximum then Inl (ValueError ''must be in range'') else Inr value)"

definition checked_u16 :: "int \<Rightarrow> int res" where
  "checked_u16 value = checked_uint value 16"

definition checked_u32 :: "int \<Rightarrow> int res" where
  "checked_u32 value = checked_uint value 32"

definition checked_u64 :: "int \<Rightarrow> int res" where
  "checked_u64 value = checked_uint value 64"

lemma checked_uint_if:
  "checked_uint v bits =
     (if 0 \<le> v \<and> v < 2 ^ bits then Inr v else Inl (ValueError ''must be in range''))"
  by (auto simp: checked_uint_def Let_def push_bit_eq_mult)

lemma checked_Inr [simp]:
  "checked_uint v bits = Inr w \<longleftrightarrow> 0 \<le> v \<and> v < 2 ^ bits \<and> w = v"
  "checked_u16 v = Inr w \<longleftrightarrow> 0 \<le> v \<and> v < 65536 \<and> w = v"
  "checked_u32 v = Inr w \<longleftrightarrow> 0 \<le> v \<and> v < 4294967296 \<and> w = v"
  "checked_u64 v = Inr w \<longleftrightarrow> 0 \<le> v \<and> v < 18446744073709551616 \<and> w = v"
  by (auto simp: checked_u16_def checked_u32_def checked_u64_def checked_uint_if)

definition checked_add_u64 :: "int \<Rightarrow> int \<Rightarrow> int res" where
  "checked_add_u64 left right =
     rbind (checked_u64 left) (\<lambda>l. rbind (checked_u64 right) (\<lambda>r. checked_u64 (l + r)))"

definition checked_mul_u64 :: "int \<Rightarrow> int \<Rightarrow> int res" where
  "checked_mul_u64 left right =
     rbind (checked_u64 left) (\<lambda>l. rbind (checked_u64 right) (\<lambda>r. checked_u64 (l * r)))"

section \<open>64-bit values as eight bytes\<close>

definition u64_to_bytes :: "int \<Rightarrow> bytes res" where
  "u64_to_bytes value = rbind (checked_u64 value) (\<lambda>v. Inr (be_bytes 8 (nat v)))"

definition u64_from_bytes :: "bytes \<Rightarrow> int res" where
  "u64_from_bytes value =
     (if length value \<noteq> 8 then Inl (ValueError ''must contain exactly 8 bytes'')
      else Inr (int (be_val value)))"

definition is_u64 :: "int \<Rightarrow> bool" where
  "is_u64 v \<longleftrightarrow> 0 \<le> v \<and> v < 2 ^ 64"

lemma be_val8_less: "length bs = 8 \<Longrightarrow> be_val bs < 18446744073709551616"
  using be_val_less [of bs] by simp

interpretation u64_bytes: strict_codec is_u64 u64_to_bytes u64_from_bytes
proof unfold_locales
  fix x b
  assume "is_u64 x" "u64_to_bytes x = Inr b"
  then have b: "b = be_bytes 8 (nat x)" and x: "0 \<le> x" "x < 256 ^ 8"
    by (auto simp: is_u64_def u64_to_bytes_def rbind_Inr_iff)
  then show "u64_from_bytes b = Inr x"
    using int_be_val_be_bytes [OF x] by (simp add: u64_from_bytes_def)
next
  fix b x
  assume "u64_from_bytes b = Inr x"
  then have l: "length b = 8" and x: "x = int (be_val b)"
    by (auto simp: u64_from_bytes_def split: if_splits)
  have "u64_to_bytes x = Inr (be_bytes 8 (be_val b))"
    using be_val8_less [OF l] by (simp add: u64_to_bytes_def rbind_Inr_iff x)
  then show "is_u64 x \<and> u64_to_bytes x = Inr b"
    using be_val8_less [OF l] be_bytes_be_val' [OF l] by (simp add: is_u64_def x)
qed

section \<open>64-bit values as sixteen hexadecimal digits\<close>

definition hex_digit :: "nat \<Rightarrow> char" where
  "hex_digit d = ''0123456789abcdef'' ! d"

definition hex_value :: "char \<Rightarrow> nat" where
  "hex_value c = (let k = of_char c :: nat in if k < 58 then k - 48 else k - 87)"

definition is_hex :: "char \<Rightarrow> bool" where
  "is_hex c \<longleftrightarrow> c \<in> set ''0123456789abcdef''"

text \<open>Python's \<^verbatim>\<open>f"{value:0{n}x}"\<close> for a value of at most \<open>n\<close> digits.\<close>

fun hex_pad :: "nat \<Rightarrow> nat \<Rightarrow> string" where
  "hex_pad 0 v = []"
| "hex_pad (Suc n) v = hex_pad n (v div 16) @ [hex_digit (v mod 16)]"

definition hex_int :: "string \<Rightarrow> nat" where
  "hex_int s = foldl (\<lambda>a c. a * 16 + hex_value c) 0 s"

text \<open>\<^verbatim>\<open>str.lower\<close> changes these characters, \<^verbatim>\<open>str.strip\<close> removes those.\<close>

definition is_upper :: "char \<Rightarrow> bool" where
  "is_upper c \<longleftrightarrow> (let k = of_char c :: nat in
     (65 \<le> k \<and> k \<le> 90) \<or> (192 \<le> k \<and> k \<le> 222 \<and> k \<noteq> 215))"

definition is_space :: "char \<Rightarrow> bool" where
  "is_space c \<longleftrightarrow> (let k = of_char c :: nat in
     (9 \<le> k \<and> k \<le> 13) \<or> (28 \<le> k \<and> k \<le> 32) \<or> k = 133 \<or> k = 160)"

definition u64_to_json :: "int \<Rightarrow> string res" where
  "u64_to_json value = rbind (checked_u64 value) (\<lambda>v. Inr (hex_pad 16 (nat v)))"

definition u64_from_json :: "string \<Rightarrow> int res" where
  "u64_from_json value =
     (if length value \<noteq> 16 then Inl (ValueError ''must be a 16-character lowercase hex string'')
      else if list_ex is_upper value \<or> is_space (hd value) \<or> is_space (last value)
      then Inl (ValueError ''must use lowercase hex without whitespace'')
      else if \<not> list_all is_hex value then Inl (ValueError ''must be lowercase hexadecimal'')
      else checked_u64 (int (hex_int value)))"

lemma hex_digit_cases:
  "d < 16 \<Longrightarrow> d \<in> set [0..<16]"
  by simp

lemma hex_value_digit: "d < 16 \<Longrightarrow> hex_value (hex_digit d) = d"
proof -
  have "\<forall>d \<in> set [0..<16]. hex_value (hex_digit d) = d" by code_simp
  then show "d < 16 \<Longrightarrow> ?thesis" by simp
qed

lemma hex_digit_plain:
  "d < 16 \<Longrightarrow> is_hex (hex_digit d) \<and> \<not> is_upper (hex_digit d) \<and> \<not> is_space (hex_digit d)"
proof -
  have "\<forall>d \<in> set [0..<16]. is_hex (hex_digit d) \<and> \<not> is_upper (hex_digit d) \<and> \<not> is_space (hex_digit d)"
    by code_simp
  then show "d < 16 \<Longrightarrow> ?thesis" by simp
qed

lemma is_hex_value:
  "is_hex c \<Longrightarrow> hex_value c < 16 \<and> hex_digit (hex_value c) = c"
proof -
  have "list_all (\<lambda>c. hex_value c < 16 \<and> hex_digit (hex_value c) = c) ''0123456789abcdef''"
    by code_simp
  then show "is_hex c \<Longrightarrow> ?thesis" by (auto simp: is_hex_def list_all_iff)
qed

lemma hex_int_simps [simp]: "hex_int [] = 0" "hex_int (s @ [c]) = hex_int s * 16 + hex_value c"
  by (simp_all add: hex_int_def)

lemma length_hex_pad [simp]: "length (hex_pad n v) = n"
  by (induction n arbitrary: v) simp_all

lemma hex_int_pad: "v < 16 ^ n \<Longrightarrow> hex_int (hex_pad n v) = v"
proof (induction n arbitrary: v)
  case 0
  then show ?case by simp
next
  case (Suc n)
  then have "v div 16 < 16 ^ n" by (simp add: less_mult_imp_div_less mult.commute)
  with Suc.IH show ?case by (simp add: hex_value_digit)
qed

lemma hex_pad_plain:
  "list_all (\<lambda>c. is_hex c \<and> \<not> is_upper c \<and> \<not> is_space c) (hex_pad n v)"
  by (induction n arbitrary: v) (simp_all add: hex_digit_plain)

lemma hex_pad_int: "list_all is_hex s \<Longrightarrow> hex_pad (length s) (hex_int s) = s"
proof (induction s rule: rev_induct)
  case Nil
  then show ?case by simp
next
  case (snoc c s)
  then have "hex_value c < 16" "hex_digit (hex_value c) = c" by (simp_all add: is_hex_value)
  with snoc show ?case by simp
qed

lemma hex_int_less: "list_all is_hex s \<Longrightarrow> hex_int s < 16 ^ length s"
proof (induction s rule: rev_induct)
  case Nil
  then show ?case by simp
next
  case (snoc c s)
  then have "hex_value c < 16" "hex_int s < 16 ^ length s" by (simp_all add: is_hex_value)
  then have "hex_int s * 16 + hex_value c < 16 ^ length s * 16" by linarith
  then show ?case by (simp add: mult.commute)
qed

interpretation u64_json: strict_codec is_u64 u64_to_json u64_from_json
proof unfold_locales
  fix x b
  assume "is_u64 x" "u64_to_json x = Inr b"
  then have b: "b = hex_pad 16 (nat x)" and x: "0 \<le> x" "x < 18446744073709551616"
    by (auto simp: is_u64_def u64_to_json_def rbind_Inr_iff)
  have v: "hex_int b = nat x" using x by (simp add: b hex_int_pad nat_less_iff)
  have plain: "list_all (\<lambda>c. is_hex c \<and> \<not> is_upper c \<and> \<not> is_space c) b"
    unfolding b by (rule hex_pad_plain)
  have len: "length b = 16" unfolding b by (rule length_hex_pad)
  then have "hd b \<in> set b" "last b \<in> set b"
    by (metis hd_in_set list.size(3) zero_neq_numeral) (metis last_in_set len list.size(3) zero_neq_numeral)
  with plain len x show "u64_from_json b = Inr x"
    by (auto simp: u64_from_json_def list_all_iff list_ex_iff v)
next
  fix b x
  assume "u64_from_json b = Inr x"
  then have l: "length b = 16" and h: "list_all is_hex b" and x: "x = int (hex_int b)"
    by (auto simp: u64_from_json_def split: if_splits)
  have "hex_int b < 16 ^ 16" using hex_int_less [OF h] l by simp
  moreover have "hex_pad 16 (hex_int b) = b" using hex_pad_int [OF h] l by simp
  ultimately show "is_u64 x \<and> u64_to_json x = Inr b"
    by (simp add: is_u64_def u64_to_json_def x rbind_Inr_iff)
qed

section \<open>SQLite blobs and cursors\<close>

text \<open>The order SQLite compares BLOBs in (\<^verbatim>\<open>memcmp\<close>, then length).\<close>

fun blob_less :: "bytes \<Rightarrow> bytes \<Rightarrow> bool" where
  "blob_less [] [] = False"
| "blob_less [] (y # ys) = True"
| "blob_less (x # xs) [] = False"
| "blob_less (x # xs) (y # ys) = (x < y \<or> (x = y \<and> blob_less xs ys))"

lemma be_val_foldl: "foldl (\<lambda>a b. a * 256 + unat b) a bs = a * 256 ^ length bs + be_val bs"
proof (induction bs rule: rev_induct)
  case Nil
  then show ?case by simp
next
  case (snoc b bs)
  then show ?case by (simp add: algebra_simps)
qed

lemma be_val_Cons: "be_val (b # bs) = unat b * 256 ^ length bs + be_val bs"
  using be_val_foldl [of "unat b" bs] by (simp add: be_val_def)

lemma blob_less_be_val: "length xs = length ys \<Longrightarrow> blob_less xs ys \<longleftrightarrow> be_val xs < be_val ys"
proof (induction xs ys rule: list_induct2)
  case Nil
  then show ?case by simp
next
  case (Cons x xs y ys)
  let ?m = "256 ^ length xs :: nat"
  have bx: "be_val xs < ?m" and bY: "be_val ys < ?m"
    using be_val_less [of xs] be_val_less [of ys] Cons.hyps by simp_all
  have lt: "unat a * ?m + be_val as < unat b * ?m + be_val bs"
    if "a < b" "be_val as < ?m" for a b :: byte and as bs
  proof -
    have "unat a + 1 \<le> unat b" using that(1) by (simp add: word_less_nat_alt)
    then have "(unat a + 1) * ?m \<le> unat b * ?m" by (rule mult_le_mono1)
    with that(2) show ?thesis by (simp add: algebra_simps)
  qed
  consider "x < y" | "x = y" | "y < x" by fastforce
  then show ?case
  proof cases
    case 1
    then show ?thesis using lt [OF 1 bx, of ys] Cons.hyps by (simp add: be_val_Cons)
  next
    case 2
    then show ?thesis using Cons by (simp add: be_val_Cons)
  next
    case 3
    then show ?thesis using lt [OF 3 bY, of xs] Cons.hyps by (auto simp: be_val_Cons)
  qed
qed

section \<open>Properties\<close>

text \<open>
  C38: The JSON spelling of a U64 is unique. A string decodes to a value if and only if the
  value is a U64 and the string is its encoding (sixteen lower-case hexadecimal digits), so
  no two strings name the same identifier and none names one out of range.
\<close>

theorem u64_json_exact:
  "u64_from_json s = Inr v \<longleftrightarrow> 0 \<le> v \<and> v < 2 ^ 64 \<and> u64_to_json v = Inr s"
  using u64_json.dec_iff [of s v] by (simp add: is_u64_def)

text \<open>
  C39: The eight-byte BLOB of a U64 is exact too, and SQLite's byte order of the BLOBs is the
  numeric order of the values, on which the keyset cursors of the ground service rely.
\<close>

theorem u64_blob_order:
  assumes "u64_to_bytes v = Inr b" and "u64_to_bytes w = Inr c"
  shows "u64_from_bytes b = Inr v \<and> (blob_less b c \<longleftrightarrow> v < w)"
proof -
  have v: "0 \<le> v" "v < 2 ^ 64" "b = be_bytes 8 (nat v)" and w: "0 \<le> w" "w < 2 ^ 64" "c = be_bytes 8 (nat w)"
    using assms by (auto simp: u64_to_bytes_def rbind_Inr_iff)
  have "is_u64 v" using v by (simp add: is_u64_def)
  then have "u64_from_bytes b = Inr v" using assms(1) by (rule u64_bytes.roundtrip)
  moreover have "blob_less b c \<longleftrightarrow> v < w"
    using v w by (auto simp: blob_less_be_val be_val_be_bytes simp del: be_bytes.simps)
  ultimately show ?thesis ..
qed

lemma u64_blob_order_witness:
  "u64_from_bytes [0, 0, 0, 0, 0, 0, 1, 0] = Inr 256 \<and>
     (blob_less [0, 0, 0, 0, 0, 0, 1, 0] [0, 0, 0, 0, 0, 0, 0, 255] \<longleftrightarrow> (256 :: int) < 255)"
  by (rule u64_blob_order) (code_simp, code_simp)

end
