(* ===== verification/PyText.thy ===== *)
theory PyText
  imports Interfaces
begin

text \<open>
  Python's \<^verbatim>\<open>str\<close> as the list of its code points, and the codecs of the standard library the
  source uses on it: strict UTF-8 in both directions and big-endian UTF-16. A code point is
  a natural number below \<open>0x110000\<close>; the surrogates are code points that neither encodes.
\<close>

type_synonym ustr = "nat list"

definition ustr :: "string \<Rightarrow> ustr" where
  "ustr s = map of_char s"

lemma ustr_inj [simp]: "ustr s = ustr t \<longleftrightarrow> s = t"
  unfolding ustr_def by (rule inj_map_eq_map) (rule inj_of_char)

definition is_surrogate :: "nat \<Rightarrow> bool" where
  "is_surrogate n \<longleftrightarrow> 0xD800 \<le> n \<and> n \<le> 0xDFFF"

definition is_scalar :: "nat \<Rightarrow> bool" where
  "is_scalar n \<longleftrightarrow> n < 0x110000 \<and> \<not> is_surrogate n"

section \<open>UTF-8\<close>

text \<open>The bytes of a scalar value, as numbers.\<close>

definition utf8_char :: "nat \<Rightarrow> nat list" where
  "utf8_char n =
     (if n < 0x80 then [n]
      else if n < 0x800 then [0xC0 + n div 64, 0x80 + n mod 64]
      else if n < 0x10000 then [0xE0 + n div 4096, 0x80 + n div 64 mod 64, 0x80 + n mod 64]
      else [0xF0 + n div 262144, 0x80 + n div 4096 mod 64, 0x80 + n div 64 mod 64, 0x80 + n mod 64])"

definition utf8_encode :: "ustr \<Rightarrow> bytes res" where
  "utf8_encode s =
     (if list_all is_scalar s then Inr (map word_of_nat (concat (map utf8_char s)))
      else Inl (ValueError ''surrogates not allowed''))"

text \<open>The number of continuation bytes, the bits of the first byte and the least value.\<close>

definition utf8_lead :: "nat \<Rightarrow> (nat \<times> nat \<times> nat) option" where
  "utf8_lead b =
     (if b < 0x80 then Some (0, b, 0)
      else if b < 0xC0 then None
      else if b < 0xE0 then Some (1, b - 0xC0, 0x80)
      else if b < 0xF0 then Some (2, b - 0xE0, 0x800)
      else if b < 0xF8 then Some (3, b - 0xF0, 0x10000)
      else None)"

definition is_cont :: "nat \<Rightarrow> bool" where
  "is_cont b \<longleftrightarrow> 0x80 \<le> b \<and> b < 0xC0"

definition utf8_next :: "nat list \<Rightarrow> (nat \<times> nat list) option" where
  "utf8_next bs =
     (case bs of
        [] \<Rightarrow> None
      | b # rest \<Rightarrow>
          case utf8_lead b of
            None \<Rightarrow> None
          | Some (k, bits, least) \<Rightarrow>
              let conts = take k rest; n = foldl (\<lambda>a c. a * 64 + (c - 0x80)) bits conts
              in if length conts = k \<and> list_all is_cont conts \<and> least \<le> n \<and> is_scalar n
                 then Some (n, drop k rest) else None)"

lemma utf8_next_shorter: "utf8_next bs = Some (n, rest) \<Longrightarrow> length rest < length bs"
  by (auto simp: utf8_next_def Let_def split: list.splits option.splits if_splits)

function utf8_scan :: "nat list \<Rightarrow> ustr option" where
  "utf8_scan bs =
     (if bs = [] then Some []
      else case utf8_next bs of
        None \<Rightarrow> None
      | Some (n, rest) \<Rightarrow> map_option (Cons n) (utf8_scan rest))"
  by auto
termination
  by (relation "measure length") (auto dest: utf8_next_shorter)

declare utf8_scan.simps [simp del]

definition utf8_decode :: "bytes \<Rightarrow> ustr res" where
  "utf8_decode bs =
     (case utf8_scan (map unat bs) of
        None \<Rightarrow> Inl (ValueError ''invalid UTF-8'')
      | Some s \<Rightarrow> Inr s)"

text \<open>Six-bit digits.\<close>

lemma sixbit:
  fixes n :: nat
  shows "n div 64 * 64 + n mod 64 = n"
    "(n div 4096 * 64 + n div 64 mod 64) * 64 + n mod 64 = n"
    "((n div 262144 * 64 + n div 4096 mod 64) * 64 + n div 64 mod 64) * 64 + n mod 64 = n"
proof -
  show "n div 64 * 64 + n mod 64 = n" by simp
  have "n div 4096 = n div 64 div 64" "n div 262144 = n div 64 div 64 div 64" "n div 4096 = n div 64 div 64"
    by (simp_all flip: div_mult2_eq)
  then have d: "n div 4096 * 64 + n div 64 mod 64 = n div 64" "n div 262144 * 64 + n div 4096 mod 64 = n div 4096"
    by simp_all
  show "(n div 4096 * 64 + n div 64 mod 64) * 64 + n mod 64 = n"
    unfolding d by simp
  show "((n div 262144 * 64 + n div 4096 mod 64) * 64 + n div 64 mod 64) * 64 + n mod 64 = n"
    unfolding d by simp
qed

lemma utf8_next_lead:
  assumes "utf8_lead b = Some (k, bits, least)" "length cs = k" "list_all (\<lambda>c. c < 64) cs"
    "foldl (\<lambda>a c. a * 64 + c) bits cs = n" "least \<le> n" "is_scalar n"
  shows "utf8_next (b # map ((+) 0x80) cs @ rest) = Some (n, rest)"
proof -
  have "foldl (\<lambda>a c. a * 64 + (c - 0x80)) bits (map ((+) 0x80) cs) = n"
    unfolding assms(4) [symmetric] by (simp add: foldl_map)
  moreover have "list_all is_cont (map ((+) 0x80) cs)"
    using assms(3) by (auto simp: list_all_iff is_cont_def)
  ultimately show ?thesis using assms by (simp add: utf8_next_def Let_def)
qed

lemma utf8_next_char:
  assumes "is_scalar n"
  shows "utf8_next (utf8_char n @ rest) = Some (n, rest)"
proof -
  have n: "n < 0x110000" using assms by (simp add: is_scalar_def)
  consider "n < 0x80" | "\<not> n < 0x80" "n < 0x800" | "\<not> n < 0x800" "n < 0x10000" | "\<not> n < 0x10000" by fastforce
  then show ?thesis
  proof cases
    case 1
    then show ?thesis
      using utf8_next_lead [of n 0 n 0 "[]" n rest] assms by (simp add: utf8_lead_def utf8_char_def)
  next
    case 2
    then have lead: "utf8_lead (0xC0 + n div 64) = Some (1, n div 64, 0x80)" using n by (simp add: utf8_lead_def)
    have c: "utf8_char n = (0xC0 + n div 64) # map ((+) 0x80) [n mod 64]"
      using 2 by (simp add: utf8_char_def)
    show ?thesis unfolding c append_Cons
    proof (rule utf8_next_lead [OF lead])
      show "foldl (\<lambda>a c. a * 64 + c) (n div 64) [n mod 64] = n" using sixbit [of n] by (simp only: foldl.simps)
    qed (use 2 assms in simp_all)
  next
    case 3
    then have lead: "utf8_lead (0xE0 + n div 4096) = Some (2, n div 4096, 0x800)" using n by (simp add: utf8_lead_def)
    have c: "utf8_char n = (0xE0 + n div 4096) # map ((+) 0x80) [n div 64 mod 64, n mod 64]"
      using 3 by (simp add: utf8_char_def)
    show ?thesis unfolding c append_Cons
    proof (rule utf8_next_lead [OF lead])
      show "foldl (\<lambda>a c. a * 64 + c) (n div 4096) [n div 64 mod 64, n mod 64] = n" using sixbit [of n] by (simp only: foldl.simps)
    qed (use 3 assms in simp_all)
  next
    case 4
    then have lead: "utf8_lead (0xF0 + n div 262144) = Some (3, n div 262144, 0x10000)" using n by (simp add: utf8_lead_def)
    have c: "utf8_char n = (0xF0 + n div 262144) # map ((+) 0x80) [n div 4096 mod 64, n div 64 mod 64, n mod 64]"
      using 4 by (simp add: utf8_char_def)
    show ?thesis unfolding c append_Cons
    proof (rule utf8_next_lead [OF lead])
      show "foldl (\<lambda>a c. a * 64 + c) (n div 262144) [n div 4096 mod 64, n div 64 mod 64, n mod 64] = n" using sixbit [of n] by (simp only: foldl.simps)
    qed (use 4 assms in simp_all)
  qed
qed

lemma sixbit_digit: "c < 64 \<Longrightarrow> (a * 64 + c) div 64 = a" "c < 64 \<Longrightarrow> (a * 64 + c) mod 64 = (c :: nat)"
  by simp_all

lemma utf8_lead_cases:
  assumes "utf8_lead b = Some (k, bits, least)"
  obtains "k = 0" "bits = b" "least = 0" "b < 0x80"
  | "k = 1" "b = 0xC0 + bits" "bits < 32" "least = 0x80"
  | "k = 2" "b = 0xE0 + bits" "bits < 16" "least = 0x800"
  | "k = 3" "b = 0xF0 + bits" "bits < 8" "least = 0x10000"
  using assms by (auto simp: utf8_lead_def split: if_splits)

lemma utf8_next_sound:
  assumes "utf8_next bs = Some (n, rest)"
  shows "is_scalar n \<and> bs = utf8_char n @ rest"
proof -
  obtain b bs' k bits least where bs: "bs = b # bs'" and lead: "utf8_lead b = Some (k, bits, least)"
    and len: "length (take k bs') = k" and cont: "list_all is_cont (take k bs')" and least: "least \<le> n"
    and sc: "is_scalar n" and n: "n = foldl (\<lambda>a c. a * 64 + (c - 0x80)) bits (take k bs')"
    and rest: "rest = drop k bs'"
    using assms by (auto simp: utf8_next_def Let_def split: list.splits option.splits if_splits)
  define cs where "cs = map (\<lambda>c. c - 0x80) (take k bs')"
  have cs: "list_all (\<lambda>c. c < 64) cs" "length cs = k" "take k bs' = map ((+) 0x80) cs"
    using cont len by (auto simp: cs_def list_all_iff is_cont_def map_idI)
  have n': "n = foldl (\<lambda>a c. a * 64 + c) bits cs" by (simp add: n cs_def foldl_map)
  have "utf8_char n = b # map ((+) 0x80) cs"
    using lead
  proof (cases rule: utf8_lead_cases)
    case 1
    with cs n' show ?thesis by (simp add: utf8_char_def)
  next
    case 2
    then obtain c where "cs = [c]" using cs(2) by (auto simp: length_Suc_conv)
    with cs n' 2 least show ?thesis by (simp add: utf8_char_def)
  next
    case 3
    then obtain c d where c: "cs = [c, d]" using cs(2) by (auto simp: length_Suc_conv numeral_2_eq_2)
    have v: "n = (bits * 64 + c) * 64 + d" "c < 64" "d < 64" using cs(1) by (simp_all add: n' c)
    have "n div 64 = bits * 64 + c" "n mod 64 = d" using v(3) unfolding v(1) by (rule sixbit_digit)+
    moreover from this have "n div 4096 = bits"
      using v(2) by (simp add: div_mult2_eq [of n 64 64, simplified] sixbit_digit)
    moreover have "n < 0x10000" using cs(1) 3 by (simp add: n' c)
    ultimately show ?thesis using cs(1) 3 least by (simp add: utf8_char_def c)
  next
    case 4
    then obtain c d e where c: "cs = [c, d, e]" using cs(2) by (auto simp: length_Suc_conv numeral_3_eq_3)
    have v: "n = ((bits * 64 + c) * 64 + d) * 64 + e" "c < 64" "d < 64" "e < 64"
      using cs(1) by (simp_all add: n' c)
    have "n div 64 = (bits * 64 + c) * 64 + d" "n mod 64 = e" using v(4) unfolding v(1) by (rule sixbit_digit)+
    moreover from this have "n div 4096 = bits * 64 + c"
      using v(3) by (simp only: div_mult2_eq [of n 64 64, simplified] sixbit_digit)
    moreover from this have "n div 262144 = bits"
      using v(2) by (simp only: div_mult2_eq [of n 4096 64, simplified] sixbit_digit)
    moreover have "((bits * 64 + c) * 64 + d) mod 64 = d" "(bits * 64 + c) mod 64 = c"
      by (rule sixbit_digit [OF v(3)], rule sixbit_digit [OF v(2)])
    ultimately show ?thesis using cs(1) 4 least by (simp only: utf8_char_def c) simp
  qed
  then show ?thesis using sc cs(3) bs rest by (metis append_Cons append_take_drop_id)
qed

lemma utf8_char_nonempty: "utf8_char n \<noteq> []"
  by (simp add: utf8_char_def)

lemma utf8_scan_chars: "list_all is_scalar s \<Longrightarrow> utf8_scan (concat (map utf8_char s)) = Some s"
proof (induction s)
  case Nil
  then show ?case by (simp add: utf8_scan.simps)
next
  case (Cons n s)
  then have "utf8_next (utf8_char n @ concat (map utf8_char s)) = Some (n, concat (map utf8_char s))"
    by (simp add: utf8_next_char)
  then show ?case using Cons by (subst utf8_scan.simps) (auto simp: utf8_char_nonempty)
qed

lemma utf8_scan_sound: "utf8_scan bs = Some s \<Longrightarrow> list_all is_scalar s \<and> bs = concat (map utf8_char s)"
proof (induction bs arbitrary: s rule: utf8_scan.induct)
  case (1 bs)
  show ?case
  proof (cases "bs = []")
    case True
    with 1 show ?thesis by (simp add: utf8_scan.simps)
  next
    case False
    then obtain n rest s' where n: "utf8_next bs = Some (n, rest)" and s': "utf8_scan rest = Some s'" "s = n # s'"
      using 1(2) by (auto simp: utf8_scan.simps [of bs] split: option.splits)
    from 1(1) [OF False n refl s'(1)] utf8_next_sound [OF n] show ?thesis by (simp add: s')
  qed
qed

lemma utf8_char_bytes: "is_scalar n \<Longrightarrow> \<forall>b \<in> set (utf8_char n). b < 256"
  by (auto simp: utf8_char_def is_scalar_def)

lemma utf8_bytes: "list_all is_scalar s \<Longrightarrow> map (unat \<circ> (word_of_nat :: nat \<Rightarrow> byte)) (concat (map utf8_char s)) = concat (map utf8_char s)"
  by (rule map_idI) (use utf8_char_bytes in \<open>fastforce simp: list_all_iff unat_of_nat_byte\<close>)

interpretation utf8: strict_codec "list_all is_scalar" utf8_encode utf8_decode
proof unfold_locales
  fix x b
  assume "list_all is_scalar x" "utf8_encode x = Inr b"
  then show "utf8_decode b = Inr x"
    by (auto simp: utf8_encode_def utf8_decode_def utf8_bytes utf8_scan_chars)
next
  fix b x
  assume "utf8_decode b = Inr x"
  then have "list_all is_scalar x" "map unat b = concat (map utf8_char x)"
    by (auto simp: utf8_decode_def dest: utf8_scan_sound split: option.splits)
  then show "list_all is_scalar x \<and> utf8_encode x = Inr b"
    by (simp add: utf8_encode_def flip: \<open>map unat b = _\<close>) (simp add: map_idI)
qed

section \<open>UTF-16\<close>

definition utf16_char :: "nat \<Rightarrow> bytes" where
  "utf16_char n =
     (if n < 0x10000 then be_bytes 2 n
      else be_bytes 2 (0xD800 + (n - 0x10000) div 1024) @ be_bytes 2 (0xDC00 + (n - 0x10000) mod 1024))"

definition utf16_encode :: "ustr \<Rightarrow> bytes res" where
  "utf16_encode s =
     (if list_all is_scalar s then Inr (concat (map utf16_char s))
      else Inl (ValueError ''surrogates not allowed''))"

end
