(* ===== verification/CanonicalValues.thy ===== *)
theory CanonicalValues
  imports Canonical PyText "HOL-Library.List_Lexorder" "HOL-Library.Product_Lexorder" "HOL-Library.Multiset"
begin

unbundle bit_operations_syntax

text \<open>
  \<^verbatim>\<open>protocol/canonical.py\<close>: the canonical JSON and JCS texts and the deterministic CBOR codec, on
  the Python values the source passes to them, with the message envelope of
  \<^verbatim>\<open>protocol/messages.py\<close>. A dict is the list of its entries in insertion order. A float is
  kept as far as the code looks at it, which is whether it is finite; a tuple is a list.
\<close>

datatype py_value =
    PNone
  | PBool bool
  | PInt int
  | PFloat bool
  | PStr ustr
  | PBytes bytes
  | PList "py_value list"
  | PDict "(py_value \<times> py_value) list"

definition is_str :: "py_value \<Rightarrow> bool" where
  "is_str v \<longleftrightarrow> (case v of PStr _ \<Rightarrow> True | _ \<Rightarrow> False)"

definition str_of :: "py_value \<Rightarrow> ustr" where
  "str_of v = (case v of PStr s \<Rightarrow> s | _ \<Rightarrow> [])"

text \<open>A list comprehension whose body may raise.\<close>

primrec res_map :: "('a \<Rightarrow> 'b res) \<Rightarrow> 'a list \<Rightarrow> 'b list res" where
  "res_map f [] = Inr []"
| "res_map f (x # xs) = rbind (f x) (\<lambda>y. rbind (res_map f xs) (\<lambda>ys. Inr (y # ys)))"

lemma res_map_cong [fundef_cong]:
  "xs = ys \<Longrightarrow> (\<And>x. x \<in> set ys \<Longrightarrow> f x = g x) \<Longrightarrow> res_map f xs = res_map g ys"
  by (induction xs arbitrary: ys) auto

lemma res_map_length: "res_map f xs = Inr ys \<Longrightarrow> length ys = length xs"
  by (induction xs arbitrary: ys) (auto simp: rbind_Inr_iff)

section \<open>Canonical JSON\<close>

fun cj_validate :: "py_value \<Rightarrow> unit res" where
  "cj_validate (PFloat fin) =
     (if \<not> fin then Inl (ValueError ''canonical JSON does not allow non-finite numbers'')
      else Inl (TypeError ''canonical JSON mission values must not contain floats''))"
| "cj_validate (PDict es) =
     (if list_ex (\<lambda>(k, _). \<not> is_str k) es
      then Inl (TypeError ''canonical JSON object keys must be strings'')
      else rbind (res_map (\<lambda>(_, child). cj_validate child) es) (\<lambda>_. Inr ()))"
| "cj_validate (PList xs) = rbind (res_map cj_validate xs) (\<lambda>_. Inr ())"
| "cj_validate (PBytes _) = Inl (TypeError ''canonical JSON does not encode raw bytes'')"
| "cj_validate _ = Inr ()"

fun nat_text :: "nat \<Rightarrow> ustr" where
  "nat_text n = (if n < 10 then [48 + n] else nat_text (n div 10) @ [48 + n mod 10])"

declare nat_text.simps [simp del]

text \<open>\<^verbatim>\<open>str\<close> of an integer.\<close>

definition int_text :: "int \<Rightarrow> ustr" where
  "int_text i = (if i < 0 then 45 # nat_text (nat (- i)) else nat_text (nat i))"

definition hex4 :: "nat \<Rightarrow> ustr" where
  "hex4 n = [92, 117] @ ustr (hex_pad 4 n)"

text \<open>The escapes that \<^verbatim>\<open>json.dumps\<close> has a letter for.\<close>

definition json_escape :: "nat \<Rightarrow> ustr option" where
  "json_escape c =
     (if c = 34 then Some [92, 34] else if c = 92 then Some [92, 92]
      else if c = 8 then Some [92, 98] else if c = 12 then Some [92, 102]
      else if c = 10 then Some [92, 110] else if c = 13 then Some [92, 114]
      else if c = 9 then Some [92, 116] else if c < 32 then Some (hex4 c) else None)"

text \<open>One character with \<^verbatim>\<open>ensure_ascii\<close>, and without.\<close>

definition json_char_ascii :: "nat \<Rightarrow> ustr" where
  "json_char_ascii c =
     (case json_escape c of
        Some e \<Rightarrow> e
      | None \<Rightarrow>
          if c < 127 then [c]
          else if c < 0x10000 then hex4 c
          else hex4 (0xD800 + (c - 0x10000) div 1024) @ hex4 (0xDC00 + (c - 0x10000) mod 1024))"

definition json_char :: "nat \<Rightarrow> ustr" where
  "json_char c = (case json_escape c of Some e \<Rightarrow> e | None \<Rightarrow> [c])"

definition json_string :: "(nat \<Rightarrow> ustr) \<Rightarrow> ustr \<Rightarrow> ustr" where
  "json_string esc s = [34] @ concat (map esc s) @ [34]"

text \<open>\<^verbatim>\<open>sep.join(parts)\<close> for a separator of one character.\<close>

fun join :: "nat \<Rightarrow> ustr list \<Rightarrow> ustr" where
  "join sep [] = []"
| "join sep [x] = x"
| "join sep (x # y # zs) = x @ sep # join sep (y # zs)"

text \<open>
  \<^verbatim>\<open>json.dumps\<close> with sorted keys and no spaces, on a value that \<open>cj_validate\<close> accepts.
\<close>

fun json_text :: "py_value \<Rightarrow> ustr" where
  "json_text PNone = ustr ''null''"
| "json_text (PBool b) = (if b then ustr ''true'' else ustr ''false'')"
| "json_text (PInt i) = int_text i"
| "json_text (PStr s) = json_string json_char_ascii s"
| "json_text (PList xs) = [91] @ join 44 (map json_text xs) @ [93]"
| "json_text (PDict es) = [123] @ join 44
     (map (\<lambda>(k, v). json_string json_char_ascii (str_of k) @ 58 # json_text v)
       (sort_key (\<lambda>(k, _). str_of k) es)) @ [125]"
| "json_text (PFloat _) = []"
| "json_text (PBytes _) = []"

definition canonical_json :: "py_value \<Rightarrow> bytes res" where
  "canonical_json value = rbind (cj_validate value) (\<lambda>_. utf8_encode (json_text value))"

section \<open>JCS\<close>

definition MAX_SAFE_JSON_INTEGER :: int where "MAX_SAFE_JSON_INTEGER = push_bit 53 1 - 1"

definition jcs_utf16_sort_key :: "ustr \<Rightarrow> bytes res" where
  "jcs_utf16_sort_key s =
     (case utf16_encode s of
        Inl _ \<Rightarrow> Inl (ValueError ''JCS strings must not contain unpaired UTF-16 surrogates'')
      | Inr b \<Rightarrow> Inr b)"

definition jcs_string :: "ustr \<Rightarrow> ustr res" where
  "jcs_string s =
     (case utf8_encode s of
        Inl _ \<Rightarrow> Inl (ValueError ''JCS strings must contain valid Unicode scalar values'')
      | Inr _ \<Rightarrow> Inr (json_string json_char s))"

definition utf16_order :: "py_value \<times> py_value \<Rightarrow> nat list" where
  "utf16_order e = (case jcs_utf16_sort_key (str_of (fst e)) of Inl _ \<Rightarrow> [] | Inr b \<Rightarrow> map unat b)"

fun jcs_text :: "py_value \<Rightarrow> ustr res" where
  "jcs_text PNone = Inr (ustr ''null'')"
| "jcs_text (PBool b) = Inr (if b then ustr ''true'' else ustr ''false'')"
| "jcs_text (PStr s) = jcs_string s"
| "jcs_text (PInt i) =
     (if \<bar>i\<bar> > MAX_SAFE_JSON_INTEGER
      then Inl (ValueError ''JCS integers outside the exact IEEE-754 range must be strings'')
      else Inr (int_text i))"
| "jcs_text (PFloat fin) =
     (if \<not> fin then Inl (ValueError ''JCS does not allow non-finite numbers'')
      else Inl (TypeError ''validated mission HTTP bodies must not contain floating-point values''))"
| "jcs_text (PList xs) = rbind (res_map jcs_text xs) (\<lambda>ts. Inr ([91] @ join 44 ts @ [93]))"
| "jcs_text (PDict es) =
     (if list_ex (\<lambda>(k, _). \<not> is_str k) es then Inl (TypeError ''JCS object keys must be strings'')
      else
        rbind (res_map (\<lambda>(k, _). jcs_utf16_sort_key (str_of k)) es) (\<lambda>_.
        rbind (res_map (\<lambda>(k, v). rbind (jcs_string (str_of k)) (\<lambda>key.
            rbind (jcs_text v) (\<lambda>text. Inr (key @ 58 # text)))) (sort_key utf16_order es)) (\<lambda>ts.
        Inr ([123] @ join 44 ts @ [125]))))"
| "jcs_text (PBytes _) = Inl (TypeError ''unsupported JSON value type'')"

definition jcs_canonical_json :: "py_value \<Rightarrow> bytes res" where
  "jcs_canonical_json value = rbind (jcs_text value) utf8_encode"

section \<open>The text of canonical JSON\<close>

definition printable :: "nat \<Rightarrow> bool" where
  "printable c \<longleftrightarrow> 32 \<le> c \<and> c < 127"

lemma printable_numeral [simp]:
  "printable (numeral k) \<longleftrightarrow> 32 \<le> (numeral k :: nat) \<and> (numeral k :: nat) < 127"
  by (simp add: printable_def)

definition plain :: "nat \<Rightarrow> bool" where
  "plain c \<longleftrightarrow> printable c \<and> c \<noteq> 34 \<and> c \<noteq> 92"

lemma hex_pad_printable: "list_all printable (ustr (hex_pad n v))"
proof -
  have "printable (of_char (hex_digit d))" if "d < 16" for d
  proof -
    have "\<forall>d \<in> set [0..<16]. printable (of_char (hex_digit d))" by code_simp
    then show ?thesis using that by simp
  qed
  then show ?thesis by (induction n arbitrary: v) (simp_all add: ustr_def list_all_iff)
qed

lemma hex4_printable: "list_all printable (hex4 n)"
  using hex_pad_printable [of 4 n] by (simp add: hex4_def printable_def)

lemma json_char_printable: "list_all printable (json_char_ascii c)"
  using hex4_printable
  by (auto simp: json_char_ascii_def json_escape_def printable_def)

lemma nat_text_printable: "list_all printable (nat_text n)"
proof (induction n rule: nat_text.induct)
  case (1 n)
  moreover have "printable (48 + n mod 10)" "n < 10 \<Longrightarrow> printable (48 + n)" by (simp_all add: printable_def)
  ultimately show ?case by (subst nat_text.simps) simp
qed

lemma int_text_printable: "list_all printable (int_text i)"
  using nat_text_printable by (simp add: int_text_def)

lemma join_all: "P sep \<Longrightarrow> list_all (list_all P) xs \<Longrightarrow> list_all P (join sep xs)"
  by (induction sep xs rule: join.induct) simp_all

lemma json_string_printable: "list_all printable (json_string json_char_ascii s)"
proof -
  have "list_all printable (concat (map json_char_ascii s))"
    by (induction s) (simp_all add: json_char_printable)
  then show ?thesis by (simp add: json_string_def)
qed

lemma json_text_printable: "list_all printable (json_text v)"
proof (induction v rule: json_text.induct)
  case (5 xs)
  then show ?case by (auto intro!: join_all simp: list_all_iff [of _ "map _ _"])
next
  case (6 es)
  have "list_all printable (json_string json_char_ascii (str_of k) @ 58 # json_text v)" if "(k, v) \<in> set es" for k v
    using 6 that json_string_printable by (force)
  then show ?case by (auto intro!: join_all simp: list_all_iff [of _ "map _ _"])
qed (simp_all add: int_text_printable json_string_printable ustr_def)

lemma utf8_ascii: "list_all printable s \<Longrightarrow> utf8_encode s = Inr (map word_of_nat s)"
proof -
  assume s: "list_all printable s"
  then have "list_all is_scalar s" by (auto simp: list_all_iff printable_def is_scalar_def is_surrogate_def)
  moreover have "concat (map utf8_char s) = s"
    using s by (induction s) (simp_all add: utf8_char_def printable_def)
  ultimately show ?thesis by (simp add: utf8_encode_def)
qed

lemma canonical_json_ok: "cj_validate v = Inr () \<Longrightarrow> canonical_json v = Inr (map word_of_nat (json_text v))"
  by (simp add: canonical_json_def utf8_ascii json_text_printable)

text \<open>How long a text is.\<close>

lemma json_string_plain: "list_all plain s \<Longrightarrow> json_string json_char_ascii s = 34 # s @ [34]"
proof -
  assume s: "list_all plain s"
  then have "concat (map json_char_ascii s) = s"
    by (induction s) (auto simp: json_char_ascii_def json_escape_def plain_def printable_def)
  then show ?thesis by (simp add: json_string_def)
qed

lemma join_length: "length (join sep xs) \<le> sum_list (map length xs) + length xs"
  by (induction sep xs rule: join.induct) simp_all

lemma json_dict_length:
  "length (json_text (PDict es)) \<le>
     2 + sum_list (map (\<lambda>(k, v). length (json_string json_char_ascii (str_of k)) + 2 + length (json_text v)) es)"
proof -
  let ?f = "\<lambda>(k, v). json_string json_char_ascii (str_of k) @ 58 # json_text v"
  let ?es = "sort_key (\<lambda>(k, _). str_of k) es"
  have "sum_list (map length (map f xs)) + length xs = sum_list (map (\<lambda>e. length (f e) + 1) xs)"
    for f :: "py_value \<times> py_value \<Rightarrow> ustr" and xs
    by (induction xs) simp_all
  from this [of ?f ?es]
  have "sum_list (map length (map ?f ?es)) + length ?es = sum_list (map (\<lambda>e. length (?f e) + 1) ?es)" .
  also have "\<dots> = sum_list (map (\<lambda>e. length (?f e) + 1) es)"
  proof -
    have "mset (map (\<lambda>e. length (?f e) + 1) ?es) = mset (map (\<lambda>e. length (?f e) + 1) es)"
      unfolding mset_map mset_sort ..
    then show ?thesis by (metis sum_mset_sum_list)
  qed
  also have "\<dots> = sum_list (map (\<lambda>(k, v). length (json_string json_char_ascii (str_of k)) + 2 + length (json_text v)) es)"
    by (rule arg_cong [where f = sum_list]) (auto simp: split_beta)
  finally show ?thesis using join_length [of 44 "map ?f ?es"] by simp
qed

lemma nat_text_length: "n < 10 ^ k \<Longrightarrow> 0 < k \<Longrightarrow> length (nat_text n) \<le> k"
proof (induction n arbitrary: k rule: nat_text.induct)
  case (1 n)
  show ?case
  proof (cases "n < 10")
    case True
    then show ?thesis using 1 by (subst nat_text.simps) simp
  next
    case False
    then obtain j where k: "k = Suc j" "0 < j" using 1 by (cases k; cases "k = 1") auto
    then have "length (nat_text (n div 10)) \<le> j" using 1 False by (intro "1.IH") auto
    then show ?thesis using False k by (subst nat_text.simps) simp
  qed
qed

lemma int_text_length: "0 \<le> i \<Longrightarrow> i < 10 ^ k \<Longrightarrow> 0 < k \<Longrightarrow> length (int_text i) \<le> k"
  using nat_text_length [of "nat i" k] by (simp add: int_text_def nat_less_iff)

section \<open>Deterministic CBOR: encoding\<close>

definition cbor_head :: "int \<Rightarrow> int \<Rightarrow> bytes res" where
  "cbor_head major value =
     rbind (checked_u64 value) (\<lambda>_.
       if value < 24 then pack_uint 1 (push_bit 5 major OR value)
       else if value \<le> 0xFF
       then rbind (pack_uint 1 (push_bit 5 major OR 24)) (\<lambda>h. rbind (pack_uint 1 value) (\<lambda>b. Inr (h @ b)))
       else if value \<le> 0xFFFF
       then rbind (pack_uint 1 (push_bit 5 major OR 25)) (\<lambda>h. rbind (pack_uint 2 value) (\<lambda>b. Inr (h @ b)))
       else if value \<le> 0xFFFFFFFF
       then rbind (pack_uint 1 (push_bit 5 major OR 26)) (\<lambda>h. rbind (pack_uint 4 value) (\<lambda>b. Inr (h @ b)))
       else rbind (pack_uint 1 (push_bit 5 major OR 27)) (\<lambda>h. rbind (pack_uint 8 value) (\<lambda>b. Inr (h @ b))))"

text \<open>The order of the encoded keys: by length, then bytewise.\<close>

definition cbor_order :: "bytes \<Rightarrow> nat \<times> nat list" where
  "cbor_order b = (length b, map unat b)"

fun cbor_encode :: "py_value \<Rightarrow> bytes res" where
  "cbor_encode PNone = Inr [0xF6]"
| "cbor_encode (PBool b) = Inr [if b then 0xF5 else 0xF4]"
| "cbor_encode (PInt i) =
     (if i \<ge> 0 then rbind (checked_u64 i) (cbor_head 0) else rbind (checked_u64 (- 1 - i)) (cbor_head 1))"
| "cbor_encode (PBytes bs) = rbind (cbor_head 2 (int (length bs))) (\<lambda>h. Inr (h @ bs))"
| "cbor_encode (PStr s) =
     rbind (utf8_encode s) (\<lambda>bs. rbind (cbor_head 3 (int (length bs))) (\<lambda>h. Inr (h @ bs)))"
| "cbor_encode (PList xs) =
     rbind (cbor_head 4 (int (length xs))) (\<lambda>h.
     rbind (res_map cbor_encode xs) (\<lambda>items. Inr (h @ concat items)))"
| "cbor_encode (PDict es) =
     rbind (res_map (\<lambda>(k, v). rbind (cbor_encode k) (\<lambda>kb. rbind (cbor_encode v) (\<lambda>vb. Inr (kb, vb)))) es)
       (\<lambda>entries.
     rbind (cbor_head 5 (int (length entries))) (\<lambda>h.
     Inr (h @ concat (map (\<lambda>(kb, vb). kb @ vb) (sort_key (\<lambda>(kb, _). cbor_order kb) entries)))))"
| "cbor_encode (PFloat _) = Inl (TypeError ''unsupported deterministic CBOR type'')"

section \<open>Deterministic CBOR: decoding\<close>

text \<open>
  The reader's state is the rest of the data. What a method leaves of it is returned with its
  result; an exception ends the reading.
\<close>

type_synonym 'a reader = "bytes \<Rightarrow> ('a \<times> bytes) res"

definition cbor_read :: "nat \<Rightarrow> bytes reader" where
  "cbor_read n data =
     (if n > length data then Inl (ValueError ''truncated deterministic CBOR'')
      else Inr (take n data, drop n data))"

definition cbor_uint :: "nat \<Rightarrow> int \<Rightarrow> int reader" where
  "cbor_uint n least data =
     rbind (cbor_read n data) (\<lambda>(raw, rest).
       let value = int (be_val raw) in
       if value < least then Inl (ValueError ''non-canonical CBOR length'') else Inr (value, rest))"

definition cbor_length :: "int \<Rightarrow> int reader" where
  "cbor_length additional data =
     (if additional < 24 then Inr (additional, data)
      else if additional = 24 then cbor_uint 1 24 data
      else if additional = 25 then cbor_uint 2 0x100 data
      else if additional = 26 then cbor_uint 4 0x10000 data
      else if additional = 27 then cbor_uint 8 0x100000000 data
      else Inl (ValueError ''indefinite-length or reserved CBOR item is not supported''))"

primrec cbor_items :: "'a reader \<Rightarrow> nat \<Rightarrow> 'a list reader" where
  "cbor_items rd 0 data = Inr ([], data)"
| "cbor_items rd (Suc n) data =
     rbind (rd data) (\<lambda>(x, rest). rbind (cbor_items rd n rest) (\<lambda>(xs, rest). Inr (x # xs, rest)))"

text \<open>Python's hash and equality on keys: \<^verbatim>\<open>True == 1\<close>, and a list or a dict is not hashable.\<close>

definition hashable :: "py_value \<Rightarrow> bool" where
  "hashable k \<longleftrightarrow> (case k of PList _ \<Rightarrow> False | PDict _ \<Rightarrow> False | _ \<Rightarrow> True)"

definition key_norm :: "py_value \<Rightarrow> py_value" where
  "key_norm k = (case k of PBool b \<Rightarrow> PInt (if b then 1 else 0) | _ \<Rightarrow> k)"

primrec cbor_entries ::
  "py_value reader \<Rightarrow> nat \<Rightarrow> bytes set \<Rightarrow> (py_value \<times> py_value) list \<Rightarrow> (py_value \<times> py_value) list reader" where
  "cbor_entries rd 0 encoded_keys result data = Inr (result, data)"
| "cbor_entries rd (Suc n) encoded_keys result data =
     rbind (rd data) (\<lambda>(key, rest).
       let key_bytes = take (length data - length rest) data in
       if key_bytes \<in> encoded_keys then Inl (ValueError ''duplicate deterministic CBOR map key'')
       else if \<not> hashable key then Inl (TypeError ''unhashable type'')
       else if key_norm key \<in> set (map (key_norm \<circ> fst) result)
       then Inl (ValueError ''duplicate deterministic CBOR map key'')
       else rbind (rd rest) (\<lambda>(v, rest).
         cbor_entries rd n (insert key_bytes encoded_keys) (result @ [(key, v)]) rest))"

text \<open>\<^verbatim>\<open>value\<close> after its first byte; \<open>rd\<close> reads the values inside.\<close>

definition cbor_item :: "py_value reader \<Rightarrow> int \<Rightarrow> py_value reader" where
  "cbor_item rd initial data =
     (let major = drop_bit 5 initial; additional = initial AND 0x1F in
      if major = 0 \<or> major = 1 then
        rbind (cbor_length additional data) (\<lambda>(number, data).
          Inr (PInt (if major = 0 then number else - 1 - number), data))
      else if major = 2 \<or> major = 3 then
        rbind (cbor_length additional data) (\<lambda>(n, data).
        rbind (cbor_read (nat n) data) (\<lambda>(raw, data).
          if major = 2 then Inr (PBytes raw, data)
          else case utf8_decode raw of
            Inl _ \<Rightarrow> Inl (ValueError ''invalid UTF-8 in deterministic CBOR'')
          | Inr s \<Rightarrow> Inr (PStr s, data)))
      else if major = 4 then
        rbind (cbor_length additional data) (\<lambda>(n, data).
        rbind (cbor_items rd (nat n) data) (\<lambda>(xs, data). Inr (PList xs, data)))
      else if major = 5 then
        rbind (cbor_length additional data) (\<lambda>(n, data).
        rbind (cbor_entries rd (nat n) {} [] data) (\<lambda>(es, data). Inr (PDict es, data)))
      else if major = 7 \<and> additional = 20 then Inr (PBool False, data)
      else if major = 7 \<and> additional = 21 then Inr (PBool True, data)
      else if major = 7 \<and> additional = 22 then Inr (PNone, data)
      else Inl (ValueError ''floats, tags and reserved CBOR values are not supported''))"

text \<open>The first argument bounds the depth of the recursion.\<close>

primrec cbor_value :: "nat \<Rightarrow> py_value reader" where
  "cbor_value 0 data = Inl (RuntimeError ''maximum recursion depth exceeded'')"
| "cbor_value (Suc depth) data =
     rbind (cbor_read 1 data) (\<lambda>(raw, data). cbor_item (cbor_value depth) (int (be_val raw)) data)"

text \<open>Every level reads a byte, so the number of bytes is depth enough (\<open>cbor_value_depth\<close>).\<close>

definition cbor_decode :: "bytes \<Rightarrow> py_value res" where
  "cbor_decode data =
     rbind (cbor_value (length data + 1) data) (\<lambda>(value, rest).
       if rest \<noteq> [] then Inl (ValueError ''trailing bytes after deterministic CBOR value'') else Inr value)"

section \<open>CBOR: reading back\<close>

lemma cbor_read_append [simp]: "length xs = n \<Longrightarrow> cbor_read n (xs @ rest) = Inr (xs, rest)"
  by (simp add: cbor_read_def)

lemma cbor_read_1 [simp]: "cbor_read 1 (b # rest) = Inr ([b], rest)" "cbor_read (Suc 0) (b # rest) = Inr ([b], rest)"
  by (simp_all add: cbor_read_def)

lemma be_val_single [simp]: "be_val [b] = unat b"
  by (simp add: be_val_def)

lemma cbor_uint_pack:
  assumes "pack_uint n v = Inr b" "least \<le> v"
  shows "cbor_uint n least (b @ rest) = Inr (v, rest)"
proof -
  have b: "b = be_bytes n (nat v)" "0 \<le> v" "v < 256 ^ n"
    using assms(1) by (auto simp: pack_uint_def split: if_splits)
  have "length b = n" by (simp add: b(1))
  moreover have "int (be_val b) = v" unfolding b(1) using b(2,3) by (rule int_be_val_be_bytes)
  ultimately show ?thesis using assms(2) by (simp add: cbor_uint_def Let_def)
qed

lemma initial_byte:
  assumes "0 \<le> m" "m < 8" "0 \<le> a" "a < 32" "pack_uint 1 (push_bit 5 m OR a) = Inr b"
  obtains i where "b = [i]" "drop_bit 5 (uint i) = m" "uint i AND 31 = a"
proof -
  have v: "push_bit 5 m OR a = m * 32 + a" using or_shift_add [of a 5 m] assms by simp
  have "b = be_bytes 1 (nat (m * 32 + a))"
    using assms by (auto simp: v pack_uint_def simp del: be_bytes.simps One_nat_def)
  then have "length b = 1" "int (be_val b) = m * 32 + a"
    using int_be_val_be_bytes [of "m * 32 + a" 1] assms by simp_all
  then obtain i where "b = [i]" "uint i = m * 32 + a"
    by (auto simp: length_Suc_conv)
  then show ?thesis using that assms by (simp add: bitfield field_split)
qed

lemma cbor_head_read:
  assumes h: "cbor_head m v = Inr h" and m: "0 \<le> m" "m < 8"
  obtains i t where "h = i # t" "drop_bit 5 (uint i) = m" "0 \<le> v"
    "\<And>rest. cbor_length (uint i AND 31) (t @ rest) = Inr (v, rest)"
proof -
  note result = that
  have v: "0 \<le> v" using h by (auto simp: cbor_head_def rbind_Inr_iff)
  have long: thesis
    if le: "least \<le> v" and a: "24 \<le> a" "a < 32"
      and p: "rbind (pack_uint 1 (push_bit 5 m OR a)) (\<lambda>h. rbind (pack_uint n v) (\<lambda>b. Inr (h @ b))) = Inr h"
      and l: "\<And>data. cbor_length a data = cbor_uint n least data"
    for least a n
  proof -
    obtain h1 b where h1: "pack_uint 1 (push_bit 5 m OR a) = Inr h1" and b: "pack_uint n v = Inr b" "h = h1 @ b"
      using p by (auto simp: rbind_Inr_iff)
    obtain i where i: "h1 = [i]" "drop_bit 5 (uint i) = m" "uint i AND 31 = a"
      using initial_byte [OF m _ a(2) h1] a(1) by auto
    show thesis
      by (rule result [of i b]) (use i b v in \<open>simp_all add: l cbor_uint_pack [OF b(1) le]\<close>)
  qed
  consider "v < 24" | "24 \<le> v" "v \<le> 0xFF" | "0x100 \<le> v" "v \<le> 0xFFFF" | "0x10000 \<le> v" "v \<le> 0xFFFFFFFF"
    | "0x100000000 \<le> v" by linarith
  then show thesis
  proof cases
    case 1
    then have "pack_uint 1 (push_bit 5 m OR v) = Inr h" using h by (auto simp: cbor_head_def rbind_Inr_iff)
    then obtain i where i: "h = [i]" "drop_bit 5 (uint i) = m" "uint i AND 31 = v"
      using initial_byte [OF m v] 1 by auto
    show thesis by (rule result [of i "[]"]) (use i v 1 in \<open>simp_all add: cbor_length_def\<close>)
  next
    case 2
    show thesis by (rule long [where least = 24 and a = 24 and n = 1]) (use 2 h in \<open>auto simp: cbor_head_def cbor_length_def rbind_Inr_iff\<close>)
  next
    case 3
    show thesis by (rule long [where least = 256 and a = 25 and n = 2]) (use 3 h in \<open>auto simp: cbor_head_def cbor_length_def rbind_Inr_iff\<close>)
  next
    case 4
    show thesis by (rule long [where least = 65536 and a = 26 and n = 4]) (use 4 h in \<open>auto simp: cbor_head_def cbor_length_def rbind_Inr_iff\<close>)
  next
    case 5
    show thesis by (rule long [where least = 4294967296 and a = 27 and n = 8]) (use 5 h in \<open>auto simp: cbor_head_def cbor_length_def rbind_Inr_iff\<close>)
  qed
qed

text \<open>Values that Python can hold: the keys of a dict are hashable and pairwise unequal.\<close>

fun py_wf :: "py_value \<Rightarrow> bool" where
  "py_wf (PList xs) = list_all py_wf xs"
| "py_wf (PDict es) =
     (distinct (map (key_norm \<circ> fst) es) \<and> list_all (\<lambda>(k, v). hashable k \<and> py_wf v) es)"
| "py_wf _ = True"

definition cbor_key :: "py_value \<Rightarrow> bytes" where
  "cbor_key k = (case cbor_encode k of Inl _ \<Rightarrow> [] | Inr b \<Rightarrow> b)"

text \<open>The same value with the entries of every dict in the order of their encoded keys.\<close>

fun cbor_norm :: "py_value \<Rightarrow> py_value" where
  "cbor_norm (PList xs) = PList (map cbor_norm xs)"
| "cbor_norm (PDict es) = PDict (map (\<lambda>(k, v). (k, cbor_norm v))
     (sort_key (\<lambda>(k, _). cbor_order (cbor_key k)) es))"
| "cbor_norm v = v"

lemma insort_key_map: "insort_key f (g x) (map g xs) = map g (insort_key (f \<circ> g) x xs)"
  by (induction xs) auto

lemma sort_key_map: "sort_key f (map g xs) = map g (sort_key (f \<circ> g) xs)"
  by (induction xs) (simp_all add: insort_key_map comp_def)

lemma cbor_items_read:
  assumes "\<And>x rest. x \<in> set xs \<Longrightarrow> rd (enc x @ rest) = Inr (nrm x, rest)"
  shows "cbor_items rd (length xs) (concat (map enc xs) @ rest) = Inr (map nrm xs, rest)"
  using assms by (induction xs) auto

lemma cbor_entries_read:
  assumes "\<And>k v rest. (k, v) \<in> set es \<Longrightarrow> hashable k \<and> rd (ek k @ rest) = Inr (k, rest) \<and> rd (ev v @ rest) = Inr (nrm v, rest)"
    and "distinct (map (key_norm \<circ> fst) (acc @ es))" and "keys \<inter> ek ` fst ` set es = {}"
    and "inj_on ek (fst ` set es)"
  shows "cbor_entries rd (length es) keys acc (concat (map (\<lambda>(k, v). ek k @ ev v) es) @ rest)
     = Inr (acc @ map (\<lambda>(k, v). (k, nrm v)) es, rest)"
  using assms
proof (induction es arbitrary: acc keys)
  case Nil
  then show ?case by simp
next
  case (Cons e es)
  obtain k v where e: "e = (k, v)" by force
  have rd: "hashable k" "\<And>rest. rd (ek k @ rest) = Inr (k, rest)" "\<And>rest. rd (ev v @ rest) = Inr (nrm v, rest)"
    using Cons.prems(1) [of k v] by (auto simp: e)
  have new: "ek k \<notin> keys" "key_norm k \<notin> set (map (key_norm \<circ> fst) acc)"
    using Cons.prems(2,3) by (auto simp: e)
  have "k \<notin> fst ` set es" using Cons.prems(2) by (force simp: e)
  then have "ek k \<notin> ek ` fst ` set es" using Cons.prems(4) by (auto simp: e inj_on_def)
  then have "cbor_entries rd (length es) (insert (ek k) keys) (acc @ [(k, nrm v)])
      (concat (map (\<lambda>(k, v). ek k @ ev v) es) @ rest) = Inr ((acc @ [(k, nrm v)]) @ map (\<lambda>(k, v). (k, nrm v)) es, rest)"
    using Cons.prems by (intro Cons.IH) (auto simp: e)
  then show ?case using rd new by (simp add: e image_iff)
qed

lemma size_list_member: "x \<in> set xs \<Longrightarrow> size x < size (PList xs)"
  by (simp add: size_list_estimation' le_imp_less_Suc)

lemma size_dict_member:
  assumes "(k, v) \<in> set es"
  shows "size k < size (PDict es)" "size v < size (PDict es)"
proof -
  have "size_prod size size (k, v) \<le> size_list (size_prod size size) es"
    using assms by (rule size_list_estimation') simp
  then show "size k < size (PDict es)" "size v < size (PDict es)" by simp_all
qed

lemma res_map_Inr:
  "res_map f xs = Inr ys \<Longrightarrow> (\<And>x y. x \<in> set xs \<Longrightarrow> f x = Inr y \<Longrightarrow> g x = y)
   \<Longrightarrow> ys = map g xs \<and> (\<forall>x \<in> set xs. f x = Inr (g x))"
  by (induction xs arbitrary: ys) (auto simp: rbind_Inr_iff)

lemma hashable_norm: "hashable k \<Longrightarrow> cbor_norm k = k"
  by (cases k) (simp_all add: hashable_def)

lemma hashable_wf: "hashable k \<Longrightarrow> py_wf k"
  by (cases k) (simp_all add: hashable_def)

lemma cbor_keyI: "cbor_encode k = Inr b \<Longrightarrow> cbor_key k = b"
  by (simp add: cbor_key_def)

lemma cbor_head_value:
  assumes "cbor_head m v = Inr h" "0 \<le> m" "m < 8"
  obtains i t where "h = i # t" "drop_bit 5 (uint i) = m" "0 \<le> v"
    "\<And>rest. cbor_length (uint i AND 31) (t @ rest) = Inr (v, rest)"
  using cbor_head_read [OF assms] by blast

lemma cbor_value_encode:
  "py_wf v \<Longrightarrow> cbor_encode v = Inr b \<Longrightarrow> size v < d \<Longrightarrow> cbor_value d (b @ rest) = Inr (cbor_norm v, rest)"
proof (induction v arbitrary: b d rest rule: measure_induct_rule [of size])
  case (less v)
  obtain d' where d: "d = Suc d'" using less.prems(3) by (cases d) auto
  show ?case
  proof (cases v)
    case (PInt n)
    show ?thesis
    proof (cases "0 \<le> n")
      case True
      with less.prems PInt have h: "cbor_head 0 n = Inr b" by (auto simp: rbind_Inr_iff)
      show ?thesis by (rule cbor_head_read [OF h]) (simp_all add: d PInt cbor_item_def)
    next
      case False
      with less.prems PInt have h: "cbor_head 1 (- 1 - n) = Inr b" by (auto simp: rbind_Inr_iff)
      show ?thesis by (rule cbor_head_read [OF h]) (simp_all add: d PInt cbor_item_def)
    qed
  next
    case (PBytes bs)
    with less.prems obtain h where h: "cbor_head 2 (int (length bs)) = Inr h" and b: "b = h @ bs"
      by (auto simp: rbind_Inr_iff)
    show ?thesis by (rule cbor_head_read [OF h]) (simp_all add: d PBytes b cbor_item_def)
  next
    case (PStr s)
    with less.prems obtain bs h where u: "utf8_encode s = Inr bs"
      and h: "cbor_head 3 (int (length bs)) = Inr h" and b: "b = h @ bs"
      by (auto simp: rbind_Inr_iff)
    have dec: "utf8_decode bs = Inr s"
      using u utf8.roundtrip [of s bs] by (auto simp: utf8_encode_def split: if_splits)
    show ?thesis by (rule cbor_head_read [OF h]) (simp_all add: d PStr b dec cbor_item_def)
  next
    case (PList xs)
    with less.prems obtain h items where h: "cbor_head 4 (int (length xs)) = Inr h"
      and m: "res_map cbor_encode xs = Inr items" and b: "b = h @ concat items"
      by (auto simp: rbind_Inr_iff)
    have "items = map cbor_key xs \<and> (\<forall>x \<in> set xs. cbor_encode x = Inr (cbor_key x))"
      by (rule res_map_Inr [OF m]) (rule cbor_keyI)
    then have items: "items = map cbor_key xs" "\<forall>x \<in> set xs. cbor_encode x = Inr (cbor_key x)" by simp_all
    have read: "cbor_items (cbor_value d') (length xs) (concat (map cbor_key xs) @ rest) = Inr (map cbor_norm xs, rest)"
    proof (rule cbor_items_read)
      fix x rest
      assume x: "x \<in> set xs"
      then show "cbor_value d' (cbor_key x @ rest) = Inr (cbor_norm x, rest)"
        using less.IH [of x "cbor_key x" d' rest] less.prems size_list_member [OF x] items(2)
        by (simp add: d PList list_all_iff)
    qed
    show ?thesis by (rule cbor_head_read [OF h]) (simp_all add: d PList b items(1) read cbor_item_def)
  next
    case (PDict es)
    define enc where "enc = (\<lambda>e. (cbor_key (fst e), cbor_key (snd e)))"
    obtain entries h where h: "cbor_head 5 (int (length entries)) = Inr h"
      and m: "res_map (\<lambda>(k, v). rbind (cbor_encode k) (\<lambda>kb. rbind (cbor_encode v) (\<lambda>vb. Inr (kb, vb)))) es = Inr entries"
      and b: "b = h @ concat (map (\<lambda>(kb, vb). kb @ vb) (sort_key (\<lambda>(kb, _). cbor_order kb) entries))"
      using less.prems PDict by (auto simp: rbind_Inr_iff)
    have "entries = map enc es \<and> (\<forall>e \<in> set es. (case e of (k, v) \<Rightarrow> rbind (cbor_encode k)
        (\<lambda>kb. rbind (cbor_encode v) (\<lambda>vb. Inr (kb, vb)))) = Inr (enc e))"
      by (rule res_map_Inr [OF m]) (auto simp: enc_def rbind_Inr_iff dest: cbor_keyI)
    then have e: "entries = map enc es"
      "\<forall>e \<in> set es. cbor_encode (fst e) = Inr (cbor_key (fst e)) \<and> cbor_encode (snd e) = Inr (cbor_key (snd e))"
      by (auto simp: enc_def rbind_Inr_iff)
    let ?o = "\<lambda>(k, _). cbor_order (cbor_key k)"
    define es' where "es' = sort_key ?o es"
    have es': "set es' = set es" "length es' = length es" by (simp_all add: es'_def)
    have "sort_key (\<lambda>(kb, _). cbor_order kb) entries = map enc es'"
      by (simp add: e(1) sort_key_map es'_def enc_def comp_def case_prod_beta')
    then have b': "b = h @ concat (map (\<lambda>(k, v). cbor_key k @ cbor_key v) es')"
      by (simp add: b enc_def comp_def case_prod_beta')
    have wf: "distinct (map (key_norm \<circ> fst) es)" "\<forall>(k, v) \<in> set es. hashable k \<and> py_wf v"
      using less.prems(1) by (simp_all add: PDict list_all_iff)
    have rd: "hashable k \<and> cbor_value d' (cbor_key k @ r) = Inr (k, r) \<and>
        cbor_value d' (cbor_key v @ r) = Inr (cbor_norm v, r)" if "(k, v) \<in> set es'" for k v r
    proof -
      have kv: "(k, v) \<in> set es" using that es' by simp
      with wf(2) have w: "hashable k" "py_wf v" by auto
      show ?thesis
        using less.IH [of k "cbor_key k" d' r] less.IH [of v "cbor_key v" d' r]
          size_dict_member [OF kv] less.prems(3) e(2) kv w hashable_wf [OF w(1)] hashable_norm [OF w(1)]
        by (auto simp: d PDict)
    qed
    have "inj_on cbor_key (fst ` set es')"
    proof (rule inj_onI)
      fix k k'
      assume "k \<in> fst ` set es'" "k' \<in> fst ` set es'" and eq: "cbor_key k = cbor_key k'"
      then obtain v v' where kv: "(k, v) \<in> set es'" "(k', v') \<in> set es'" by auto
      have "cbor_value d' (cbor_key k @ []) = Inr (k, [])" "cbor_value d' (cbor_key k' @ []) = Inr (k', [])"
        using rd [OF kv(1)] rd [OF kv(2)] by blast+
      with eq show "k = k'" by simp
    qed
    moreover have "mset (map (key_norm \<circ> fst) es') = mset (map (key_norm \<circ> fst) es)"
      by (simp add: es'_def)
    then have "distinct (map (key_norm \<circ> fst) ([] @ es'))"
      using wf(1) unfolding append_Nil by (metis mset_eq_imp_distinct_iff)
    ultimately have read: "cbor_entries (cbor_value d') (length es') {} []
        (concat (map (\<lambda>(k, v). cbor_key k @ cbor_key v) es') @ rest)
        = Inr ([] @ map (\<lambda>(k, v). (k, cbor_norm v)) es', rest)"
      using rd by (intro cbor_entries_read) auto
    have n: "length entries = length es'" by (simp add: e(1) es')
    show ?thesis
      by (rule cbor_head_read [OF h]) (use read in \<open>simp_all add: d PDict b' n cbor_item_def flip: es'_def\<close>)
  qed (use less.prems in \<open>auto simp: d cbor_item_def bitfield split: if_splits\<close>)
qed

section \<open>CBOR: the depth never runs out\<close>

lemma cbor_read_shrinks: "cbor_read n data = Inr (x, rest) \<Longrightarrow> length rest + n = length data"
  by (auto simp: cbor_read_def split: if_splits)

lemma cbor_length_shrinks: "cbor_length a data = Inr (n, rest) \<Longrightarrow> length rest \<le> length data"
  by (auto simp: cbor_length_def cbor_uint_def rbind_Inr_iff Let_def dest: cbor_read_shrinks split: if_splits)

definition shrinks :: "'a reader \<Rightarrow> bool" where
  "shrinks rd \<longleftrightarrow> (\<forall>data x rest. rd data = Inr (x, rest) \<longrightarrow> length rest \<le> length data)"

lemma cbor_items_shrinks:
  "shrinks rd \<Longrightarrow> cbor_items rd n data = Inr (xs, rest) \<Longrightarrow> length rest \<le> length data"
  by (induction n arbitrary: data xs) (fastforce simp: rbind_Inr_iff shrinks_def)+

lemma cbor_entries_shrinks:
  "shrinks rd \<Longrightarrow> cbor_entries rd n keys acc data = Inr (xs, rest) \<Longrightarrow> length rest \<le> length data"
proof (induction n arbitrary: keys acc data)
  case 0
  then show ?case by simp
next
  case (Suc n)
  obtain key r1 v r2 keys' acc' where "rd data = Inr (key, r1)" "rd r1 = Inr (v, r2)"
    and rest: "cbor_entries rd n keys' acc' r2 = Inr (xs, rest)"
    using Suc.prems(2) by (auto simp: rbind_Inr_iff Let_def split: if_splits)
  then have "length r1 \<le> length data" "length r2 \<le> length r1" using Suc.prems(1) unfolding shrinks_def by blast+
  with Suc.IH [OF Suc.prems(1) rest] show ?case by simp
qed

lemma cbor_item_shrinks:
  assumes rd: "shrinks rd" and x: "cbor_item rd i data = Inr (x, rest)"
  shows "length rest \<le> length data"
  using x by (auto simp: cbor_item_def rbind_Inr_iff Let_def split: if_splits sum.splits
    dest!: cbor_read_shrinks cbor_length_shrinks cbor_items_shrinks [OF rd] cbor_entries_shrinks [OF rd])

lemma cbor_value_shrinks: "shrinks (cbor_value d)"
proof (induction d)
  case 0
  then show ?case by (simp add: shrinks_def)
next
  case (Suc d)
  then show ?case
    by (auto simp: shrinks_def rbind_Inr_iff dest!: cbor_read_shrinks cbor_item_shrinks [OF Suc])
qed

lemma cbor_items_cong:
  assumes "shrinks rd" "\<And>data. length data \<le> n \<Longrightarrow> rd data = rd' data"
  shows "length data \<le> n \<Longrightarrow> cbor_items rd k data = cbor_items rd' k data"
proof (induction k arbitrary: data)
  case 0
  then show ?case by simp
next
  case (Suc k)
  have "rd data = rd' data" using assms(2) Suc.prems by blast
  moreover have "cbor_items rd k rest = cbor_items rd' k rest" if "rd' data = Inr (x, rest)" for x rest
  proof -
    have "length rest \<le> length data" using assms(1) that calculation unfolding shrinks_def by metis
    then show ?thesis using Suc by simp
  qed
  ultimately show ?case by (auto intro!: rbind_cong)
qed

lemma cbor_entries_cong:
  assumes "shrinks rd" "\<And>data. length data \<le> n \<Longrightarrow> rd data = rd' data"
  shows "length data \<le> n \<Longrightarrow> cbor_entries rd k keys acc data = cbor_entries rd' k keys acc data"
proof (induction k arbitrary: keys acc data)
  case 0
  then show ?case by simp
next
  case (Suc k)
  have le: "length rest \<le> n" if "rd' d = Inr (x, rest)" "length d \<le> n" for d x rest
  proof -
    have "rd d = Inr (x, rest)" using assms(2) that by simp
    then show ?thesis using assms(1) that(2) unfolding shrinks_def by (meson order_trans)
  qed
  have eq: "rd data = rd' data" by (rule assms(2) [OF Suc.prems])
  show ?case
  proof (cases "rd' data")
    case (Inl e)
    then show ?thesis by (simp add: eq)
  next
    case (Inr p)
    obtain key rest where p: "p = (key, rest)" by force
    have l: "length rest \<le> n" by (rule le [OF Inr [unfolded p] Suc.prems])
    have "cbor_entries rd k keys' acc' rest' = cbor_entries rd' k keys' acc' rest'"
      if "rd' rest = Inr (v, rest')" for keys' acc' v rest'
      by (rule Suc.IH [OF le [OF that l]])
    then have "rbind (rd rest) (\<lambda>(v, rest'). cbor_entries rd k keys' (acc' v) rest')
        = rbind (rd' rest) (\<lambda>(v, rest'). cbor_entries rd' k keys' (acc' v) rest')" for keys' acc'
      using assms(2) [OF l] by (auto intro!: rbind_cong)
    then show ?thesis by (simp add: eq Inr p Let_def)
  qed
qed

lemma cbor_item_cong:
  assumes "shrinks rd" "\<And>data. length data \<le> n \<Longrightarrow> rd data = rd' data" "length data \<le> n"
  shows "cbor_item rd i data = cbor_item rd' i data"
proof (cases "cbor_length (i AND 31) data")
  case (Inl e)
  then show ?thesis by (simp add: cbor_item_def Let_def)
next
  case (Inr p)
  obtain m rest where p: "p = (m, rest)" by force
  have "length rest \<le> n" using cbor_length_shrinks [OF Inr [unfolded p]] assms(3) by simp
  then have "cbor_items rd (nat m) rest = cbor_items rd' (nat m) rest"
    "cbor_entries rd (nat m) {} [] rest = cbor_entries rd' (nat m) {} [] rest"
    using cbor_items_cong [OF assms(1,2)] cbor_entries_cong [OF assms(1,2)] by blast+
  then show ?thesis unfolding cbor_item_def Let_def Inr p rbind_simps prod.case by simp
qed

lemma cbor_value_Suc: "length data < d \<Longrightarrow> cbor_value (Suc d) data = cbor_value d data"
proof (induction d arbitrary: data)
  case 0
  then show ?case by simp
next
  case (Suc d)
  show ?case
  proof (cases "cbor_read 1 data")
    case (Inl e)
    then show ?thesis by simp
  next
    case (Inr r)
    obtain raw rest where r: "r = (raw, rest)" by force
    have l: "length rest \<le> d - 1" "0 < d" using cbor_read_shrinks [OF Inr [unfolded r]] Suc.prems by simp_all
    have "cbor_item (cbor_value (Suc d)) i rest = cbor_item (cbor_value d) i rest" for i
      by (rule cbor_item_cong [OF cbor_value_shrinks _ l(1)]) (use Suc.IH l(2) in simp)
    then show ?thesis
      unfolding cbor_value.simps(2) [of "Suc d"] cbor_value.simps(2) [of d] Inr r rbind_simps prod.case .
  qed
qed

lemma cbor_value_depth: "length data < d \<Longrightarrow> cbor_value d data = cbor_value (length data + 1) data"
proof (induction d)
  case 0
  then show ?case by simp
next
  case (Suc d)
  then show ?case using cbor_value_Suc [of data d] by (cases "length data < d") (auto simp: less_Suc_eq)
qed

section \<open>CBOR: the codec\<close>

lemma cbor_decode_encode:
  assumes "py_wf v" "cbor_encode v = Inr b"
  shows "cbor_decode b = Inr (cbor_norm v)"
proof -
  define d where "d = size v + length b + 1"
  have "cbor_value d (b @ []) = Inr (cbor_norm v, [])"
    using assms by (rule cbor_value_encode) (simp add: d_def)
  moreover have "cbor_value d b = cbor_value (length b + 1) b"
    by (rule cbor_value_depth) (simp add: d_def)
  ultimately have "cbor_value (length b + 1) b = Inr (cbor_norm v, [])" by (metis append_Nil2)
  then show ?thesis by (simp only: cbor_decode_def rbind_simps prod.case simp_thms if_False)
qed

lemma hashable_key_encode: "hashable k \<Longrightarrow> cbor_key (cbor_norm k) = cbor_key k"
  by (simp add: hashable_norm)

lemma res_map_map: "res_map f (map g xs) = res_map (f \<circ> g) xs"
  by (induction xs) simp_all

lemma res_map_ok: "(\<And>x. x \<in> set xs \<Longrightarrow> f x = Inr (g x)) \<Longrightarrow> res_map f xs = Inr (map g xs)"
  by (induction xs) simp_all

lemma cbor_encode_norm: "py_wf v \<Longrightarrow> cbor_encode v = Inr b \<Longrightarrow> cbor_encode (cbor_norm v) = Inr b"
proof (induction v arbitrary: b rule: measure_induct_rule [of size])
  case (less v)
  show ?case
  proof (cases v)
    case (PList xs)
    with less.prems obtain h items where h: "cbor_head 4 (int (length xs)) = Inr h"
      and m: "res_map cbor_encode xs = Inr items" and b: "b = h @ concat items"
      by (auto simp: rbind_Inr_iff)
    have "items = map cbor_key xs \<and> (\<forall>x \<in> set xs. cbor_encode x = Inr (cbor_key x))"
      by (rule res_map_Inr [OF m]) (rule cbor_keyI)
    then have "res_map (cbor_encode \<circ> cbor_norm) xs = Inr items"
      using less.IH less.prems(1) size_list_member
      by (auto intro!: res_map_ok simp: PList list_all_iff)
    with h b show ?thesis by (simp add: PList res_map_map)
  next
    case (PDict es)
    define enc where "enc = (\<lambda>e. (cbor_key (fst e), cbor_key (snd e)))"
    obtain entries h where h: "cbor_head 5 (int (length entries)) = Inr h"
      and m: "res_map (\<lambda>(k, v). rbind (cbor_encode k) (\<lambda>kb. rbind (cbor_encode v) (\<lambda>vb. Inr (kb, vb)))) es = Inr entries"
      and b: "b = h @ concat (map (\<lambda>(kb, vb). kb @ vb) (sort_key (\<lambda>(kb, _). cbor_order kb) entries))"
      using less.prems PDict by (auto simp: rbind_Inr_iff)
    have "entries = map enc es \<and> (\<forall>e \<in> set es. (case e of (k, v) \<Rightarrow> rbind (cbor_encode k)
        (\<lambda>kb. rbind (cbor_encode v) (\<lambda>vb. Inr (kb, vb)))) = Inr (enc e))"
      by (rule res_map_Inr [OF m]) (auto simp: enc_def rbind_Inr_iff dest: cbor_keyI)
    then have e: "entries = map enc es"
      "\<And>k v. (k, v) \<in> set es \<Longrightarrow> cbor_encode k = Inr (cbor_key k) \<and> cbor_encode v = Inr (cbor_key v)"
      by (auto simp: enc_def rbind_Inr_iff)
    let ?o = "\<lambda>(k, _). cbor_order (cbor_key k)"
    define es' where "es' = sort_key ?o es"
    have n: "(case e of (k, v) \<Rightarrow> rbind (cbor_encode k) (\<lambda>kb. rbind (cbor_encode (cbor_norm v)) (\<lambda>vb. Inr (kb, vb))))
        = Inr (enc e)" if kv: "e \<in> set es'" for e
    proof -
      obtain k w where ekw: "e = (k, w)" by force
      then have kw: "(k, w) \<in> set es" using kv by (simp add: es'_def)
      have "py_wf w" using less.prems(1) kw by (auto simp: PDict list_all_iff)
      then have "cbor_encode (cbor_norm w) = Inr (cbor_key w)"
        using less.IH [of w "cbor_key w"] size_dict_member [OF kw] e(2) [OF kw] by (simp add: PDict)
      then show ?thesis using e(2) [OF kw] by (simp add: ekw enc_def)
    qed
    have "res_map (\<lambda>(k, v). rbind (cbor_encode k) (\<lambda>kb. rbind (cbor_encode v) (\<lambda>vb. Inr (kb, vb))))
        (map (\<lambda>(k, v). (k, cbor_norm v)) es') = Inr (map enc es')"
      unfolding res_map_map by (rule res_map_ok) (use n in \<open>auto simp: split_beta\<close>)
    moreover have "sort_key (\<lambda>(kb, _). cbor_order kb) (map enc es') = map enc es'"
      by (rule sort_key_id_if_sorted)
        (simp add: es'_def enc_def comp_def case_prod_beta' sorted_sort_key [of "\<lambda>x. cbor_order (cbor_key (fst x))"])
    moreover have "map enc es' = sort_key (\<lambda>(kb, _). cbor_order kb) entries"
      by (simp add: e(1) sort_key_map es'_def enc_def comp_def case_prod_beta')
    moreover have "length (map enc es') = length entries" by (simp add: e(1) es'_def)
    ultimately show ?thesis using h by (simp add: PDict b flip: es'_def)
  qed (use less.prems in simp_all)
qed

section \<open>Properties\<close>


lemma cbor_numeral:
  "cbor_value (numeral k) data =
     rbind (cbor_read 1 data) (\<lambda>(raw, data). cbor_item (cbor_value (pred_numeral k)) (int (be_val raw)) data)"
  "cbor_entries rd (numeral k) keys acc data = cbor_entries rd (Suc (pred_numeral k)) keys acc data"
  by (simp_all add: numeral_eq_Suc)

lemma be_bytes_numeral:
  "be_bytes (numeral k) v = be_bytes (pred_numeral k) (v div 256) @ [word_of_nat (v mod 256)]"
  by (metis be_bytes.simps(2) numeral_eq_Suc)

lemmas cbor_eval = cbor_head_def pack_uint_def cbor_order_def bitfield utf8_encode_def utf8_char_def
  is_scalar_def is_surrogate_def checked_u64_def checked_uint_def Let_def be_bytes_numeral

definition demo_value :: py_value where
  "demo_value = PDict [(PStr [98], PList [PInt (- 5), PBool True]), (PInt 7, PStr [233])]"


text \<open>
  The decoder does not insist on the order of the keys: it accepts a map that no encoding has.
\<close>

lemma cbor_decode_unsorted:
  "cbor_decode [0xA2, 2, 0xF6, 1, 0xF6] = Inr (PDict [(PInt 2, PNone), (PInt 1, PNone)]) \<and>
   cbor_encode (PDict [(PInt 2, PNone), (PInt 1, PNone)]) \<noteq> Inr [0xA2, 2, 0xF6, 1, 0xF6]"
proof
  show "cbor_decode [0xA2, 2, 0xF6, 1, 0xF6] = Inr (PDict [(PInt 2, PNone), (PInt 1, PNone)])"
    by (simp add: cbor_decode_def cbor_numeral cbor_item_def cbor_length_def Let_def bitfield
      hashable_def key_norm_def)
  show "cbor_encode (PDict [(PInt 2, PNone), (PInt 1, PNone)]) \<noteq> Inr [0xA2, 2, 0xF6, 1, 0xF6]"
    by (simp add: cbor_eval)
qed

end
