(* ===== verification/Crc16.thy ===== *)
theory Crc16
  imports Canonical
begin

unbundle bit_operations_syntax

text \<open>
  The frame check sequence of \<^verbatim>\<open>protocol/ccsds.py\<close> (\<^verbatim>\<open>crc16_ccitt\<close>). The register,
  which the code masks to 16 bits after every shift, is a \<open>16 word\<close>. The lemmas show
  that the register is an injective linear map of what enters it, so that two messages
  that differ in at most two adjacent bytes never share a check sequence.
\<close>

text \<open>One turn of the inner loop, one turn of the outer loop, and the whole loop.\<close>

definition crc16_bit :: "16 word \<Rightarrow> 16 word" where
  "crc16_bit crc = (if crc AND 0x8000 \<noteq> 0 then push_bit 1 crc XOR 0x1021 else push_bit 1 crc)"

definition crc16_byte :: "16 word \<Rightarrow> byte \<Rightarrow> 16 word" where
  "crc16_byte crc byte = (crc16_bit ^^ 8) (crc XOR push_bit 8 (ucast byte))"

definition crc16_loop :: "16 word \<Rightarrow> bytes \<Rightarrow> 16 word" where
  "crc16_loop crc data = foldl crc16_byte crc data"

definition crc16_ccitt :: "bytes \<Rightarrow> int \<Rightarrow> int res" where
  "crc16_ccitt data initial =
     rbind (checked_u16 initial) (\<lambda>i. Inr (uint (crc16_loop (word_of_int i) data)))"

text \<open>The two CRC bytes the encoders append (initial value \<^verbatim>\<open>0xFFFF\<close>).\<close>

definition fecf :: "bytes \<Rightarrow> bytes res" where
  "fecf body = rbind (crc16_ccitt body 0xFFFF) (\<lambda>c. pack_uint 2 c)"

lemma crc16_ccitt_ffff: "crc16_ccitt body 0xFFFF = Inr (uint (crc16_loop 0xFFFF body))"
proof -
  have "checked_u16 0xFFFF = Inr 0xFFFF" by simp
  then show ?thesis by (simp add: crc16_ccitt_def del: checked_Inr)
qed

lemma uint16_less: "uint (c :: 16 word) < 65536"
  using uint_lt2p [of c] by simp

lemma fecf_eq: "fecf body = Inr (be_bytes 2 (unat (crc16_loop 0xFFFF body)))"
proof -
  let ?c = "crc16_loop 0xFFFF body"
  have "pack_uint 2 (uint ?c) = Inr (be_bytes 2 (nat (uint ?c)))"
    using uint16_less [of ?c] by (intro pack_uint_ok) simp_all
  then show ?thesis by (simp add: fecf_def crc16_ccitt_ffff)
qed

subsection \<open>The register as a linear map\<close>

lemma crc16_bit_alt:
  "crc16_bit c = push_bit 1 c XOR (if bit c 15 then 0x1021 else 0)"
proof -
  have "c AND 0x8000 \<noteq> 0 \<longleftrightarrow> bit c 15"
  proof -
    have "(0x8000 :: 16 word) = push_bit 15 1" by (simp add: push_bit_eq_mult)
    then show ?thesis
      by (simp add: bit_iff_and_push_bit_not_eq_0)
  qed
  then show ?thesis by (simp add: crc16_bit_def)
qed

lemma crc16_bit_xor: "crc16_bit (a XOR b) = crc16_bit a XOR crc16_bit b"
  by (auto simp: crc16_bit_alt push_bit_xor bit_xor_iff ac_simps xor.left_commute)

lemma crc16_bit_zero: "crc16_bit 0 = 0"
  by (simp add: crc16_bit_alt)

lemma crc16_bit_eq_0: "crc16_bit c = 0 \<Longrightarrow> c = 0"
proof -
  assume z: "crc16_bit c = 0"
  have "bit (crc16_bit c) 0 = bit c 15"
    by (simp add: crc16_bit_alt bit_xor_iff bit_0 even_xor_iff)
  with z have top: "\<not> bit c 15" by simp
  with z have sh: "push_bit 1 c = 0" by (simp add: crc16_bit_alt)
  show "c = 0"
  proof (rule bit_word_eqI)
    fix n assume n: "n < LENGTH(16)"
    show "bit c n = bit (0 :: 16 word) n"
    proof (cases "n = 15")
      case True
      with top show ?thesis by simp
    next
      case False
      with n have "bit (push_bit 1 c) (Suc n) = bit c n"
        by (subst bit_push_bit_iff) simp
      with sh show ?thesis by simp
    qed
  qed
qed

lemma crc16_bits_xor: "(crc16_bit ^^ n) (a XOR b) = (crc16_bit ^^ n) a XOR (crc16_bit ^^ n) b"
  by (induction n) (simp_all add: crc16_bit_xor)

lemma crc16_bits_eq_0: "(crc16_bit ^^ n) c = 0 \<Longrightarrow> c = 0"
  by (induction n) (auto dest: crc16_bit_eq_0)

lemma crc16_bits_0_iff: "(crc16_bit ^^ n) c = 0 \<longleftrightarrow> c = 0"
  by (induction n) (auto dest: crc16_bit_eq_0 simp: crc16_bit_zero)

lemma word_xor_eq_0: "(a :: 16 word) XOR b = 0 \<longleftrightarrow> a = b"
  by (metis xor.right_neutral xor.left_neutral xor_self_eq xor.assoc)

lemma word_xor_cancel: "(a :: 16 word) XOR p = b XOR p \<Longrightarrow> a = b"
proof -
  assume "a XOR p = b XOR p"
  then have "(a XOR p) XOR p = (b XOR p) XOR p" by (rule arg_cong)
  then show "a = b" by (simp add: xor.assoc)
qed

lemma word_xor_cancel_left: "(p :: 16 word) XOR a = p XOR b \<Longrightarrow> a = b"
  by (rule word_xor_cancel [of a p b]) (simp add: xor.commute)

lemma crc16_bits_inj: "(crc16_bit ^^ n) a = (crc16_bit ^^ n) b \<Longrightarrow> a = b"
  using crc16_bits_eq_0 [of n "a XOR b"] by (simp add: crc16_bits_xor word_xor_eq_0)

lemma crc16_loop_append: "crc16_loop c (xs @ ys) = crc16_loop (crc16_loop c xs) ys"
  by (simp add: crc16_loop_def)

lemma crc16_loop_inj: "crc16_loop a xs = crc16_loop b xs \<Longrightarrow> a = b"
proof (induction xs arbitrary: a b)
  case Nil
  then show ?case by (simp add: crc16_loop_def)
next
  case (Cons x xs)
  then have "crc16_byte a x = crc16_byte b x"
    by (simp add: crc16_loop_def)
  then have "a XOR push_bit 8 (ucast x) = b XOR push_bit 8 (ucast x)"
    unfolding crc16_byte_def by (rule crc16_bits_inj)
  then show ?case by (rule word_xor_cancel)
qed

text \<open>
  Shifting a value that fits the low byte eight times only moves it up. So two bytes
  enter the register as one 16-bit value shifted sixteen times.
\<close>

lemma crc16_bit_low: "\<not> bit c 15 \<Longrightarrow> crc16_bit c = push_bit 1 c"
  by (simp add: crc16_bit_alt)

lemma crc16_bits_low_byte:
  "n \<le> 8 \<Longrightarrow> (crc16_bit ^^ n) (ucast (y :: byte)) = push_bit n (ucast y)"
proof (induction n)
  case 0
  then show ?case by simp
next
  case (Suc n)
  then have ih: "(crc16_bit ^^ n) (ucast y) = push_bit n (ucast y)" by simp
  have "\<not> bit y (15 - n)"
    using Suc.prems bit_imp_le_length [of y "15 - n"] by auto
  then have "\<not> bit (push_bit n (ucast y) :: 16 word) 15"
    by (auto simp: bit_simps)
  then show ?case
    by (simp add: ih crc16_bit_low)
qed

lemma crc16_two_bytes:
  "crc16_loop c [x, y] = (crc16_bit ^^ 16) (c XOR (push_bit 8 (ucast x) XOR ucast y))"
proof -
  have "push_bit 8 (ucast y) = (crc16_bit ^^ 8) (ucast y)"
    by (simp add: crc16_bits_low_byte)
  then have "crc16_loop c [x, y] =
      (crc16_bit ^^ 8) ((crc16_bit ^^ 8) (c XOR push_bit 8 (ucast x)) XOR (crc16_bit ^^ 8) (ucast y))"
    by (simp add: crc16_loop_def crc16_byte_def)
  also have "\<dots> = (crc16_bit ^^ 8) ((crc16_bit ^^ 8) (c XOR push_bit 8 (ucast x) XOR ucast y))"
    by (simp only: crc16_bits_xor xor.assoc)
  also have "\<dots> = (crc16_bit ^^ (8 + 8)) (c XOR push_bit 8 (ucast x) XOR ucast y)"
    by (simp only: funpow_add o_apply)
  finally have "crc16_loop c [x, y] = \<dots>" .
  moreover have "(8 :: nat) + 8 = 16" by simp
  ultimately show ?thesis by (simp only: xor.assoc)
qed

lemma two_bytes_word_eq:
  fixes x y x' y' :: byte
  assumes "push_bit 8 (ucast x) XOR ucast y = (push_bit 8 (ucast x') XOR ucast y' :: 16 word)"
  shows "x = x' \<and> y = y'"
proof
  note b = arg_cong [OF assms, of "\<lambda>w. bit w n" for n]
  show "y = y'"
  proof (rule bit_word_eqI)
    fix n assume "n < LENGTH(8)"
    then show "bit y n = bit y' n" using b [of n] by (simp add: bit_simps)
  qed
  show "x = x'"
  proof (rule bit_word_eqI)
    fix n assume n: "n < LENGTH(8)"
    have "\<not> bit y (n + 8)" "\<not> bit y' (n + 8)"
      by (auto dest: bit_imp_le_length)
    then show "bit x n = bit x' n" using n b [of "n + 8"] by (simp add: bit_simps)
  qed
qed

lemma crc16_two_bytes_inj:
  assumes "crc16_loop c [x, y] = crc16_loop c [x', y']"
  shows "x = x' \<and> y = y'"
proof -
  have "c XOR (push_bit 8 (ucast x) XOR ucast y) = c XOR (push_bit 8 (ucast x') XOR ucast y')"
    using assms unfolding crc16_two_bytes by (rule crc16_bits_inj)
  then have "push_bit 8 (ucast x) XOR ucast y = (push_bit 8 (ucast x') XOR ucast y' :: 16 word)"
    by (rule word_xor_cancel_left)
  then show ?thesis by (rule two_bytes_word_eq)
qed


subsection \<open>The check the decoders make\<close>

text \<open>
  A frame is accepted when the CRC of all but its last two bytes is those two bytes: that is,
  when the CRC of the whole frame is zero.
\<close>

definition fecf_ok :: "bytes \<Rightarrow> bool" where
  "fecf_ok data \<longleftrightarrow> uint (crc16_loop 0xFFFF (but_last_n 2 data)) = int (be_val (last_n 2 data))"

lemma uint_two_bytes:
  "uint (push_bit 8 (ucast x) XOR ucast y :: 16 word) = uint (x :: byte) * 256 + uint (y :: byte)"
proof -
  have "push_bit 8 (ucast x) XOR ucast y = (push_bit 8 (ucast x) OR ucast y :: 16 word)"
  proof (rule bit_word_eqI)
    fix n assume "n < LENGTH(16)"
    have "8 \<le> n \<Longrightarrow> \<not> bit y n" by (auto dest: bit_imp_le_length)
    then show "bit (push_bit 8 (ucast x) XOR ucast y :: 16 word) n
        = bit (push_bit 8 (ucast x) OR ucast y :: 16 word) n"
      by (auto simp: bit_simps)
  qed
  moreover have "uint (push_bit 8 (ucast x) OR ucast y :: 16 word) = push_bit 8 (uint x) OR uint y"
  proof (rule bit_eqI)
    fix n
    show "bit (uint (push_bit 8 (ucast x) OR ucast y :: 16 word)) n = bit (push_bit 8 (uint x) OR uint y) n"
      using bit_imp_le_length [of x "n - 8"] bit_imp_le_length [of y n]
      by (auto simp: bit_simps bit_uint_iff)
  qed
  moreover have "push_bit 8 (uint x) OR uint y = uint x * 2 ^ 8 + uint y"
    using uint_lt2p [of y] by (intro or_shift_add) simp_all
  ultimately show ?thesis by simp
qed

lemma fecf_ok_residue:
  assumes "2 \<le> length data"
  shows "fecf_ok data \<longleftrightarrow> crc16_loop 0xFFFF data = 0"
proof -
  obtain x y where xy: "last_n 2 data = [x, y]"
  proof (rule length_2E)
    show "length (last_n 2 data) = 2" using assms by simp
  qed
  let ?c = "crc16_loop 0xFFFF (but_last_n 2 data)"
  let ?w = "push_bit 8 (ucast x) XOR ucast y :: 16 word"
  have "be_val [x, y] = unat x * 256 + unat y" by (simp add: be_val_def)
  then have "fecf_ok data \<longleftrightarrow> uint ?c = uint ?w"
    by (simp add: fecf_ok_def xy uint_two_bytes)
  also have "\<dots> \<longleftrightarrow> ?c = ?w" by (simp only: word_uint_eq_iff)
  also have "\<dots> \<longleftrightarrow> ?c XOR ?w = 0" by (simp only: word_xor_eq_0)
  also have "\<dots> \<longleftrightarrow> crc16_loop ?c [x, y] = 0"
    unfolding crc16_two_bytes by (rule crc16_bits_0_iff [symmetric])
  also have "crc16_loop ?c [x, y] = crc16_loop 0xFFFF data"
    using crc16_loop_append [of "0xFFFF" "but_last_n 2 data" "last_n 2 data"]
    by (simp only: but_last_n_last_n xy [symmetric])
  finally show ?thesis .
qed

lemma fecf_ok_append: "fecf_ok (body @ be_bytes 2 (unat (crc16_loop 0xFFFF body)))"
proof -
  have "unat (crc16_loop 0xFFFF body) < 256 ^ 2"
    using unsigned_less [of "crc16_loop 0xFFFF body"] by simp
  then show ?thesis by (simp add: fecf_ok_def be_val_be_bytes)
qed

text \<open>The register of a concrete message, by rewriting.\<close>

lemma crc16_byte_unroll:
  "crc16_byte c b = crc16_bit (crc16_bit (crc16_bit (crc16_bit (crc16_bit (crc16_bit (crc16_bit
     (crc16_bit (c XOR push_bit 8 (ucast b)))))))))"
  by (simp add: crc16_byte_def eval_nat_numeral)

lemmas crc16_eval = crc16_loop_def crc16_byte_unroll crc16_bit_def

lemma crc16_detects_burst:
  assumes "fecf_ok (pre @ [x, y] @ post)" and "[x', y'] \<noteq> [x, y]"
  shows "\<not> fecf_ok (pre @ [x', y'] @ post)"
proof
  have len: "2 \<le> length (pre @ [u, v] @ post)" for u v :: byte by simp
  assume "fecf_ok (pre @ [x', y'] @ post)"
  then have "crc16_loop 0xFFFF (pre @ [x', y'] @ post) = 0"
    by (simp only: fecf_ok_residue [OF len [of x' y']])
  moreover have "crc16_loop 0xFFFF (pre @ [x, y] @ post) = 0"
    using assms(1) by (simp only: fecf_ok_residue [OF len [of x y]])
  ultimately have "crc16_loop 0xFFFF (pre @ [x', y'] @ post) = crc16_loop 0xFFFF (pre @ [x, y] @ post)"
    by (simp only:)
  then have "crc16_loop (crc16_loop 0xFFFF pre) [x', y'] = crc16_loop (crc16_loop 0xFFFF pre) [x, y]"
    unfolding crc16_loop_append by (rule crc16_loop_inj)
  then show False using crc16_two_bytes_inj assms(2) by blast
qed

end
