(* ===== verification/Ccsds.thy ===== *)
theory Ccsds
  imports Crc16
begin

unbundle bit_operations_syntax

text \<open>
  \<^verbatim>\<open>protocol/ccsds.py\<close>: Space Packets, fixed-size TM transfer frames and TC Type-BD
  frames. Each class is a record with its \<^verbatim>\<open>__post_init__\<close> checks, its \<^verbatim>\<open>encode\<close> and its
  \<^verbatim>\<open>decode\<close>; header words are built and taken apart with the code's shifts and masks.
\<close>

section \<open>Space Packets\<close>

record space_packet =
  sp_apid :: int
  sp_sequence_count :: int
  sp_payload :: bytes
  sp_packet_type :: int
  sp_secondary_header_present :: bool
  sp_sequence_flags :: int

definition space_packet_post_init :: "space_packet \<Rightarrow> space_packet res" where
  "space_packet_post_init p =
     (if \<not> (0 \<le> sp_apid p \<and> sp_apid p \<le> 0x7FF)
      then Inl (ValueError ''Space Packet APID must fit 11 bits'')
      else if \<not> (0 \<le> sp_sequence_count p \<and> sp_sequence_count p \<le> 0x3FFF)
      then Inl (ValueError ''Space Packet sequence count must fit 14 bits'')
      else if sp_packet_type p \<notin> {0, 1}
      then Inl (ValueError ''Space Packet type must be 0 or 1'')
      else if sp_sequence_flags p \<notin> {0, 1, 2, 3}
      then Inl (ValueError ''Space Packet sequence flags must fit 2 bits'')
      else if sp_payload p = []
      then Inl (ValueError ''MVP Space Packets contain at least one data byte'')
      else if length (sp_payload p) > 0x10000
      then Inl (ValueError ''Space Packet payload is too large'')
      else Inr p)"

definition sp_valid :: "space_packet \<Rightarrow> bool" where
  "sp_valid p \<longleftrightarrow>
     0 \<le> sp_apid p \<and> sp_apid p < 2048 \<and> 0 \<le> sp_sequence_count p \<and> sp_sequence_count p < 16384 \<and>
     (sp_packet_type p = 0 \<or> sp_packet_type p = 1) \<and>
     0 \<le> sp_sequence_flags p \<and> sp_sequence_flags p < 4 \<and>
     sp_payload p \<noteq> [] \<and> length (sp_payload p) \<le> 65536"

lemma flags_range: "x \<in> {0, 1, 2, 3} \<longleftrightarrow> 0 \<le> x \<and> x < 4" for x :: int
  by auto

lemma space_packet_post_init_iff [simp]:
  "space_packet_post_init p = Inr q \<longleftrightarrow> sp_valid p \<and> q = p"
  unfolding space_packet_post_init_def sp_valid_def flags_range by auto

definition sp_first_word :: "space_packet \<Rightarrow> int" where
  "sp_first_word p =
     push_bit 12 (sp_packet_type p) OR push_bit 11 (of_bool (sp_secondary_header_present p)) OR sp_apid p"

definition sp_second_word :: "space_packet \<Rightarrow> int" where
  "sp_second_word p = push_bit 14 (sp_sequence_flags p) OR sp_sequence_count p"

definition space_packet_encode :: "space_packet \<Rightarrow> bytes res" where
  "space_packet_encode p =
     rbind (pack_uint 2 (sp_first_word p)) (\<lambda>first.
     rbind (pack_uint 2 (sp_second_word p)) (\<lambda>second.
     rbind (pack_uint 2 (int (length (sp_payload p)) - 1)) (\<lambda>len.
     Inr (first @ second @ len @ sp_payload p))))"

definition space_packet_decode :: "bytes \<Rightarrow> space_packet res" where
  "space_packet_decode data =
     (if length data < 6 + 1
      then Inl (ValueError ''Space Packet is shorter than its primary header'')
      else
        let first = int (be_val (slice 0 2 data));
            second = int (be_val (slice 2 4 data));
            packet_data_length = be_val (slice 4 6 data)
        in if drop_bit 13 first \<noteq> 0
           then Inl (ValueError ''unsupported Space Packet version'')
           else if length data \<noteq> 6 + packet_data_length + 1
           then Inl (ValueError ''Space Packet length field mismatch'')
           else space_packet_post_init
             \<lparr> sp_apid = first AND 0x7FF,
               sp_sequence_count = second AND 0x3FFF,
               sp_payload = drop 6 data,
               sp_packet_type = drop_bit 12 first AND 1,
               sp_secondary_header_present = (drop_bit 11 first AND 1 \<noteq> 0),
               sp_sequence_flags = drop_bit 14 second AND 3 \<rparr>)"

definition encode_space_packet ::
  "int \<Rightarrow> bytes \<Rightarrow> int \<Rightarrow> int \<Rightarrow> bool \<Rightarrow> int \<Rightarrow> bytes res" where
  "encode_space_packet apid payload sequence_count packet_type secondary flags =
     rbind (space_packet_post_init
       \<lparr> sp_apid = apid, sp_sequence_count = sequence_count, sp_payload = payload,
         sp_packet_type = packet_type, sp_secondary_header_present = secondary,
         sp_sequence_flags = flags \<rparr>) space_packet_encode"

subsection \<open>The header words as arithmetic\<close>

lemma sp_first_word_arith:
  assumes "sp_valid p"
  shows "sp_first_word p =
    sp_packet_type p * 4096 + of_bool (sp_secondary_header_present p) * 2048 + sp_apid p"
proof -
  have a: "0 \<le> sp_apid p" "sp_apid p < 2 ^ 11" using assms by (auto simp: sp_valid_def)
  let ?h = "of_bool (sp_secondary_header_present p) :: int"
  have "push_bit 11 ?h OR sp_apid p = ?h * 2 ^ 11 + sp_apid p"
    using a by (rule or_shift_add)
  moreover have "push_bit 12 (sp_packet_type p) OR (?h * 2 ^ 11 + sp_apid p) =
      sp_packet_type p * 2 ^ 12 + (?h * 2 ^ 11 + sp_apid p)"
    using a by (intro or_shift_add) auto
  ultimately show ?thesis by (simp add: sp_first_word_def or.assoc)
qed

lemma sp_second_word_arith:
  assumes "sp_valid p"
  shows "sp_second_word p = sp_sequence_flags p * 16384 + sp_sequence_count p"
  using or_shift_add [of "sp_sequence_count p" 14 "sp_sequence_flags p"] assms
  by (simp add: sp_second_word_def sp_valid_def)

lemma sp_words_range:
  assumes "sp_valid p"
  shows "0 \<le> sp_first_word p" "sp_first_word p < 8192"
    "0 \<le> sp_second_word p" "sp_second_word p < 65536"
  using assms unfolding sp_first_word_arith [OF assms] sp_second_word_arith [OF assms]
  by (auto simp: sp_valid_def)

lemma sp_words_fields:
  assumes "sp_valid p"
  shows "sp_first_word p mod 2048 = sp_apid p"
    "sp_first_word p div 4096 mod 2 = sp_packet_type p"
    "(sp_first_word p div 2048 mod 2 \<noteq> 0) = sp_secondary_header_present p"
    "sp_second_word p mod 16384 = sp_sequence_count p"
    "sp_second_word p div 16384 mod 4 = sp_sequence_flags p"
proof -
  note v = assms [unfolded sp_valid_def]
  note f = sp_first_word_arith [OF assms] and s = sp_second_word_arith [OF assms]
  let ?h = "of_bool (sp_secondary_header_present p) :: int"
  have low: "0 \<le> sp_apid p" "sp_apid p < 2048" using v by auto
  have f2: "sp_first_word p = (sp_packet_type p * 2 + ?h) * 2048 + sp_apid p"
    unfolding f by simp
  have d: "sp_first_word p div 2048 = sp_packet_type p * 2 + ?h"
    unfolding f2 by (rule field_split(2) [OF low])
  show "sp_first_word p mod 2048 = sp_apid p"
    unfolding f2 by (rule field_split(1) [OF low])
  show "(sp_first_word p div 2048 mod 2 \<noteq> 0) = sp_secondary_header_present p"
    unfolding d by simp
  have "sp_first_word p div 4096 = sp_first_word p div 2048 div 2"
    by (simp add: div_mult2_eq flip: zdiv_zmult2_eq)
  also have "\<dots> = sp_packet_type p" unfolding d by simp
  finally show "sp_first_word p div 4096 mod 2 = sp_packet_type p" using v by auto
  have low2: "0 \<le> sp_sequence_count p" "sp_sequence_count p < 16384" using v by auto
  show "sp_second_word p mod 16384 = sp_sequence_count p"
    unfolding s by (rule field_split(1) [OF low2])
  show "sp_second_word p div 16384 mod 4 = sp_sequence_flags p"
    unfolding s field_split(2) [OF low2] using v by simp
qed

definition sp_bytes :: "space_packet \<Rightarrow> bytes" where
  "sp_bytes p = be_bytes 2 (nat (sp_first_word p)) @ be_bytes 2 (nat (sp_second_word p)) @
     be_bytes 2 (length (sp_payload p) - 1) @ sp_payload p"

lemma space_packet_encode_valid:
  assumes "sp_valid p"
  shows "space_packet_encode p = Inr (sp_bytes p)"
proof -
  have l: "0 < length (sp_payload p)" "length (sp_payload p) \<le> 65536"
    using assms by (simp_all add: sp_valid_def)
  have "pack_uint 2 (sp_first_word p) = Inr (be_bytes 2 (nat (sp_first_word p)))"
    "pack_uint 2 (sp_second_word p) = Inr (be_bytes 2 (nat (sp_second_word p)))"
    using sp_words_range [OF assms] by (auto intro!: pack_uint_ok)
  moreover have "pack_uint 2 (int (length (sp_payload p)) - 1) =
      Inr (be_bytes 2 (nat (int (length (sp_payload p)) - 1)))"
    using l by (intro pack_uint_ok) auto
  moreover have "nat (int (length (sp_payload p)) - 1) = length (sp_payload p) - 1"
    by (simp add: nat_diff_distrib)
  ultimately show ?thesis by (simp add: space_packet_encode_def sp_bytes_def)
qed

lemma length_sp_bytes [simp]: "length (sp_bytes p) = 6 + length (sp_payload p)"
  by (simp add: sp_bytes_def)

lemma sp_bytes_slices:
  "slice 0 2 (sp_bytes p) = be_bytes 2 (nat (sp_first_word p))"
  "slice 2 4 (sp_bytes p) = be_bytes 2 (nat (sp_second_word p))"
  "slice 4 6 (sp_bytes p) = be_bytes 2 (length (sp_payload p) - 1)"
  "drop 6 (sp_bytes p) = sp_payload p"
  by (simp_all add: sp_bytes_def slice_def)

lemma sp_bytes_words:
  assumes "sp_valid p"
  shows "int (be_val (slice 0 2 (sp_bytes p))) = sp_first_word p"
    "int (be_val (slice 2 4 (sp_bytes p))) = sp_second_word p"
    "be_val (slice 4 6 (sp_bytes p)) = length (sp_payload p) - 1"
proof -
  have l: "length (sp_payload p) - 1 < 256 ^ 2" "sp_payload p \<noteq> []"
    using assms by (auto simp: sp_valid_def)
  show "int (be_val (slice 0 2 (sp_bytes p))) = sp_first_word p"
    "int (be_val (slice 2 4 (sp_bytes p))) = sp_second_word p"
    using sp_words_range [OF assms] by (simp_all add: sp_bytes_slices int_be_val_be_bytes)
  show "be_val (slice 4 6 (sp_bytes p)) = length (sp_payload p) - 1"
    unfolding sp_bytes_slices using l(1) by (rule be_val_be_bytes)
qed

lemma space_packet_decode_bytes:
  assumes "sp_valid p"
  shows "space_packet_decode (sp_bytes p) = Inr p"
proof -
  note w = sp_bytes_words [OF assms] and r = sp_words_range [OF assms]
    and f = sp_words_fields [OF assms]
  have l: "0 < length (sp_payload p)" using assms by (simp add: sp_valid_def)
  have v: "drop_bit 13 (sp_first_word p) = 0"
    using r by (simp add: bitfield)
  have d: "(drop_bit 11 (sp_first_word p) AND 1 \<noteq> 0) = sp_secondary_header_present p"
    "drop_bit 12 (sp_first_word p) AND 1 = sp_packet_type p"
    "drop_bit 14 (sp_second_word p) AND 3 = sp_sequence_flags p"
    "sp_first_word p AND 0x7FF = sp_apid p"
    "sp_second_word p AND 0x3FFF = sp_sequence_count p"
    using f unfolding bitfield by simp_all
  have n: "\<not> length (sp_bytes p) < 6 + 1" "length (sp_bytes p) = 6 + (length (sp_payload p) - 1) + 1"
    using l by simp_all
  show ?thesis
    unfolding space_packet_decode_def Let_def w d sp_bytes_slices(4)
    using n v assms by (cases p) (simp del: length_sp_bytes)
qed


lemma split_first_word:
  fixes f :: int
  assumes "0 \<le> f" "f < 8192"
  shows "f div 4096 mod 2 * 4096 + of_bool (f div 2048 mod 2 \<noteq> 0) * 2048 + f mod 2048 = f"
proof -
  let ?q = "f div 2048"
  have q: "0 \<le> ?q" "?q < 4" using assms by (auto simp: pos_imp_zdiv_nonneg_iff)
  have "f div 4096 = ?q div 2" by (simp add: div_mult2_eq flip: zdiv_zmult2_eq)
  then have "f div 4096 mod 2 = ?q div 2" using q by simp
  moreover have "of_bool (?q mod 2 \<noteq> 0) = ?q mod 2" by (cases "?q mod 2 = 0") auto
  moreover have "?q div 2 * 2 + ?q mod 2 = ?q" "?q * 2048 + f mod 2048 = f"
    by (rule div_mult_mod_eq)+
  ultimately show ?thesis by linarith
qed

lemma slices_2_2_2: "6 \<le> length xs \<Longrightarrow> slice 0 2 xs @ slice 2 4 xs @ slice 4 6 xs @ drop 6 xs = xs"
proof -
  have t: "take n (drop a xs) @ drop (a + n) xs = drop a xs" for a n :: nat
    by (metis append_take_drop_id drop_drop add.commute)
  show ?thesis using t [of 2 4] t [of 2 2] t [of 2 0] by (simp add: slice_def)
qed

lemma space_packet_decode_sound:
  assumes "space_packet_decode data = Inr p"
  shows "sp_valid p \<and> sp_bytes p = data"
proof -
  let ?f = "int (be_val (slice 0 2 data))" and ?s = "int (be_val (slice 2 4 data))"
  have len: "7 \<le> length data" and ver: "drop_bit 13 ?f = 0"
    and n: "length data = 6 + be_val (slice 4 6 data) + 1" and v: "sp_valid p"
    and p: "p = \<lparr> sp_apid = ?f AND 0x7FF, sp_sequence_count = ?s AND 0x3FFF,
       sp_payload = drop 6 data, sp_packet_type = drop_bit 12 ?f AND 1,
       sp_secondary_header_present = (drop_bit 11 ?f AND 1 \<noteq> 0),
       sp_sequence_flags = drop_bit 14 ?s AND 3 \<rparr>"
    using assms by (simp_all add: space_packet_decode_def Let_def split: if_splits)
  have l2: "length (slice 0 2 data) = 2" "length (slice 2 4 data) = 2" "length (slice 4 6 data) = 2"
    using len by (simp_all add: slice_def)
  have f: "0 \<le> ?f" "?f < 8192" using ver by (simp_all add: bitfield)
  have s: "?s < 65536" using be_val_less [of "slice 2 4 data"] l2 by simp
  have fields: "sp_apid p = ?f mod 2048" "sp_packet_type p = ?f div 4096 mod 2"
    "sp_secondary_header_present p = (?f div 2048 mod 2 \<noteq> 0)"
    "sp_sequence_count p = ?s mod 16384" "sp_sequence_flags p = ?s div 16384 mod 4"
    by (simp_all add: p bitfield)
  have "sp_first_word p = ?f"
    unfolding sp_first_word_arith [OF v] fields by (rule split_first_word [OF f])
  moreover have "sp_second_word p = ?s"
    unfolding sp_second_word_arith [OF v] fields using s by simp
  moreover have "length (sp_payload p) - 1 = be_val (slice 4 6 data)" using n by (simp add: p)
  ultimately have "sp_bytes p = slice 0 2 data @ slice 2 4 data @ slice 4 6 data @ drop 6 data"
    using l2 by (simp add: sp_bytes_def be_bytes_be_val' p)
  with v show ?thesis using slices_2_2_2 [of data] len by simp
qed

interpretation sp: strict_codec sp_valid space_packet_encode space_packet_decode
proof unfold_locales
  fix x b
  assume "sp_valid x" "space_packet_encode x = Inr b"
  then show "space_packet_decode b = Inr x"
    using space_packet_decode_bytes [of x] space_packet_encode_valid [of x] by simp
next
  fix b x
  assume "space_packet_decode b = Inr x"
  then show "sp_valid x \<and> space_packet_encode x = Inr b"
    using space_packet_decode_sound [of b x] space_packet_encode_valid [of x] by simp
qed

section \<open>TM transfer frames\<close>

record tm_frame =
  tm_spacecraft_id :: int
  tm_virtual_channel_id :: int
  tm_master_channel_count :: int
  tm_virtual_channel_count :: int
  tm_packet :: space_packet
  tm_segment_length_id :: int
  tm_ocf :: bytes

definition TM_FRAME_SIZE :: nat where "TM_FRAME_SIZE = 1024"
definition TM_DATA_FIELD_SIZE :: nat where "TM_DATA_FIELD_SIZE = TM_FRAME_SIZE - 6 - 2"
definition IDLE_APID :: int where "IDLE_APID = 0x7FF"

definition tm_frame_post_init :: "tm_frame \<Rightarrow> tm_frame res" where
  "tm_frame_post_init t =
     (if \<not> (0 \<le> tm_spacecraft_id t \<and> tm_spacecraft_id t \<le> 0x3FF)
      then Inl (ValueError ''TM spacecraft ID must fit 10 bits'')
      else if \<not> (0 \<le> tm_virtual_channel_id t \<and> tm_virtual_channel_id t \<le> 7)
      then Inl (ValueError ''TM VCID must fit 3 bits'')
      else if \<not> (0 \<le> tm_master_channel_count t \<and> tm_master_channel_count t \<le> 0xFF)
      then Inl (ValueError ''TM MCFC must fit 8 bits'')
      else if \<not> (0 \<le> tm_virtual_channel_count t \<and> tm_virtual_channel_count t \<le> 0xFF)
      then Inl (ValueError ''TM VCFC must fit 8 bits'')
      else if tm_segment_length_id t \<notin> {0, 1, 2, 3}
      then Inl (ValueError ''TM segment length ID must fit 2 bits'')
      else if tm_ocf t \<noteq> []
      then Inl (ValueError ''MVP TM frames do not contain an OCF'')
      else Inr t)"

definition tm_frame_encode :: "tm_frame \<Rightarrow> nat \<Rightarrow> bytes res" where
  "tm_frame_encode t frame_size =
     (if frame_size \<noteq> TM_FRAME_SIZE
      then Inl (ValueError ''MVP TM frame size is fixed at 1024 bytes'')
      else rbind (space_packet_encode (tm_packet t)) (\<lambda>packet_bytes.
        if length packet_bytes > TM_DATA_FIELD_SIZE
        then Inl (ValueError ''Space Packet does not fit in TM data field'')
        else
          let remaining = TM_DATA_FIELD_SIZE - length packet_bytes in
          rbind (if remaining = 0 then Inr []
                 else if remaining \<ge> 6 + 1
                 then encode_space_packet IDLE_APID (replicate (remaining - 6) 0) 0 0 False 3
                 else Inl (ValueError ''TM data field has a non-representable idle remainder''))
          (\<lambda>filler.
          let first = push_bit 4 (tm_spacecraft_id t) OR push_bit 1 (tm_virtual_channel_id t);
              pointer = push_bit 11 (tm_segment_length_id t) OR 0
          in rbind (pack_uint 2 first) (\<lambda>h1.
             rbind (pack_uint 1 (tm_master_channel_count t)) (\<lambda>h2.
             rbind (pack_uint 1 (tm_virtual_channel_count t)) (\<lambda>h3.
             rbind (pack_uint 2 pointer) (\<lambda>h4.
             let body = (h1 @ h2 @ h3 @ h4) @ packet_bytes @ filler in
             rbind (fecf body) (\<lambda>crc.
             let result = body @ crc in
             if length result \<noteq> frame_size
             then Inl (AssertionError ''TM encoder produced a wrong size'')
             else Inr result))))))))"

definition tm_frame_decode :: "bytes \<Rightarrow> nat \<Rightarrow> tm_frame res" where
  "tm_frame_decode data frame_size =
     (if length data \<noteq> frame_size
      then Inl (ValueError ''TM frame must contain exactly frame_size bytes'')
      else
        let expected_crc = int (be_val (last_n 2 data)) in
        rbind (crc16_ccitt (but_last_n 2 data) 0xFFFF) (\<lambda>actual_crc.
        if actual_crc \<noteq> expected_crc then Inl (ValueError ''TM FECF/CRC mismatch'')
        else if length (slice 0 6 data) \<noteq> 6 then Inl StructError
        else
          let first = int (be_val (slice 0 2 data));
              mcfc = int (be_val (slice 2 3 data));
              vcfc = int (be_val (slice 3 4 data));
              pointer = int (be_val (slice 4 6 data))
          in if drop_bit 14 first \<noteq> 0
             then Inl (ValueError ''unsupported TM transfer-frame version'')
             else if pointer AND 0x7FF \<noteq> 0
             then Inl (ValueError ''MVP TM first-header pointer must be zero'')
             else if length data < 6 + 6
             then Inl (ValueError ''TM frame has no complete first Space Packet header'')
             else
               let packet_end = 6 + 6 + be_val (slice 10 12 data) + 1 in
               if int packet_end > int frame_size - 2
               then Inl (ValueError ''TM first Space Packet exceeds frame data field'')
               else rbind (space_packet_decode (slice 6 packet_end data)) (\<lambda>packet.
                 tm_frame_post_init
                   \<lparr> tm_spacecraft_id = drop_bit 4 first AND 0x3FF,
                     tm_virtual_channel_id = drop_bit 1 first AND 0x7,
                     tm_master_channel_count = mcfc,
                     tm_virtual_channel_count = vcfc,
                     tm_packet = packet,
                     tm_segment_length_id = drop_bit 11 pointer AND 0x3,
                     tm_ocf = [] \<rparr>)))"

definition encode_tm_frame :: "space_packet \<Rightarrow> int \<Rightarrow> int \<Rightarrow> int \<Rightarrow> int \<Rightarrow> bytes res" where
  "encode_tm_frame packet scid vcid mcfc vcfc =
     rbind (tm_frame_post_init
       \<lparr> tm_spacecraft_id = scid, tm_virtual_channel_id = vcid, tm_master_channel_count = mcfc,
         tm_virtual_channel_count = vcfc, tm_packet = packet, tm_segment_length_id = 3,
         tm_ocf = [] \<rparr>) (\<lambda>t. tm_frame_encode t TM_FRAME_SIZE)"

definition encode_tm_frame_bytes :: "bytes \<Rightarrow> int \<Rightarrow> int \<Rightarrow> int \<Rightarrow> int \<Rightarrow> bytes res" where
  "encode_tm_frame_bytes packet scid vcid mcfc vcfc =
     rbind (space_packet_decode packet) (\<lambda>parsed. encode_tm_frame parsed scid vcid mcfc vcfc)"

definition decode_tm_frame :: "bytes \<Rightarrow> tm_frame res" where
  "decode_tm_frame data = tm_frame_decode data TM_FRAME_SIZE"

definition tm_valid :: "tm_frame \<Rightarrow> bool" where
  "tm_valid t \<longleftrightarrow>
     0 \<le> tm_spacecraft_id t \<and> tm_spacecraft_id t < 1024 \<and>
     0 \<le> tm_virtual_channel_id t \<and> tm_virtual_channel_id t < 8 \<and>
     0 \<le> tm_master_channel_count t \<and> tm_master_channel_count t < 256 \<and>
     0 \<le> tm_virtual_channel_count t \<and> tm_virtual_channel_count t < 256 \<and>
     0 \<le> tm_segment_length_id t \<and> tm_segment_length_id t < 4 \<and> tm_ocf t = [] \<and>
     sp_valid (tm_packet t)"

lemma tm_frame_post_init_iff:
  "tm_frame_post_init t = Inr u \<and> sp_valid (tm_packet t) \<longleftrightarrow> tm_valid t \<and> u = t"
  unfolding tm_frame_post_init_def tm_valid_def flags_range by auto


subsection \<open>What the encoder emits\<close>

definition tm_first_word :: "tm_frame \<Rightarrow> int" where
  "tm_first_word t = push_bit 4 (tm_spacecraft_id t) OR push_bit 1 (tm_virtual_channel_id t)"

definition tm_pointer_word :: "tm_frame \<Rightarrow> int" where
  "tm_pointer_word t = push_bit 11 (tm_segment_length_id t) OR 0"

definition tm_header :: "tm_frame \<Rightarrow> bytes" where
  "tm_header t = be_bytes 2 (nat (tm_first_word t)) @ be_bytes 1 (nat (tm_master_channel_count t)) @
     be_bytes 1 (nat (tm_virtual_channel_count t)) @ be_bytes 2 (nat (tm_pointer_word t))"

lemma tm_first_word_arith:
  assumes "tm_valid t"
  shows "tm_first_word t = tm_spacecraft_id t * 16 + tm_virtual_channel_id t * 2"
proof -
  have "push_bit 1 (tm_virtual_channel_id t) = tm_virtual_channel_id t * 2" by simp
  then show ?thesis
    using or_shift_add [of "tm_virtual_channel_id t * 2" 4 "tm_spacecraft_id t"] assms
    unfolding tm_first_word_def tm_valid_def by simp
qed

lemma tm_words_range:
  assumes "tm_valid t"
  shows "0 \<le> tm_first_word t" "tm_first_word t < 16384"
    "0 \<le> tm_pointer_word t" "tm_pointer_word t < 8192"
  using assms unfolding tm_first_word_arith [OF assms]
  by (auto simp: tm_valid_def tm_pointer_word_def shift_arith)

lemma tm_words_fields:
  assumes "tm_valid t"
  shows "tm_first_word t div 16 mod 1024 = tm_spacecraft_id t"
    "tm_first_word t div 2 mod 8 = tm_virtual_channel_id t"
    "tm_pointer_word t div 2048 mod 4 = tm_segment_length_id t"
    "tm_pointer_word t mod 2048 = 0"
proof -
  note v = assms [unfolded tm_valid_def] and f = tm_first_word_arith [OF assms]
  have low: "0 \<le> tm_virtual_channel_id t * 2" "tm_virtual_channel_id t * 2 < 16"
    "0 \<le> tm_virtual_channel_id t" "tm_virtual_channel_id t < 8"
    using v by auto
  show "tm_first_word t div 16 mod 1024 = tm_spacecraft_id t"
    unfolding f field_split(2) [OF low(1,2)] using v by simp
  have "tm_first_word t div 2 = tm_spacecraft_id t * 8 + tm_virtual_channel_id t"
    unfolding f by simp
  then show "tm_first_word t div 2 mod 8 = tm_virtual_channel_id t"
    using field_split(1) [OF low(3,4)] by simp
  show "tm_pointer_word t div 2048 mod 4 = tm_segment_length_id t"
    "tm_pointer_word t mod 2048 = 0"
    using v by (simp_all add: tm_pointer_word_def shift_arith)
qed

lemma length_tm_header [simp]: "length (tm_header t) = 6"
  by (simp add: tm_header_def)

text \<open>The idle packet that fills the frame, or nothing.\<close>

definition tm_filler :: "nat \<Rightarrow> bytes res" where
  "tm_filler remaining =
     (if remaining = 0 then Inr []
      else if remaining \<ge> 6 + 1
      then encode_space_packet IDLE_APID (replicate (remaining - 6) 0) 0 0 False 3
      else Inl (ValueError ''TM data field has a non-representable idle remainder''))"

lemma tm_filler_ok:
  "remaining \<le> 1016 \<Longrightarrow>
   (\<exists>f. tm_filler remaining = Inr f \<and> length f = remaining) \<longleftrightarrow> remaining \<notin> {1 .. 6}"
proof (cases "7 \<le> remaining")
  case True
  assume r: "remaining \<le> 1016"
  let ?p = "\<lparr> sp_apid = IDLE_APID, sp_sequence_count = 0, sp_payload = replicate (remaining - 6) 0,
    sp_packet_type = 0, sp_secondary_header_present = False, sp_sequence_flags = 3 \<rparr>"
  have v: "sp_valid ?p" using r True by (simp add: sp_valid_def IDLE_APID_def)
  then have "tm_filler remaining = Inr (sp_bytes ?p)"
    using True space_packet_encode_valid [OF v]
    by (simp add: tm_filler_def encode_space_packet_def iffD2 [OF space_packet_post_init_iff])
  moreover have "length (sp_bytes ?p) = remaining" using True by simp
  ultimately show ?thesis using True by auto
next
  case False
  then show ?thesis by (auto simp: tm_filler_def)
qed

lemma tm_filler_Inr: "remaining \<le> 1016 \<Longrightarrow> tm_filler remaining = Inr f \<Longrightarrow>
   length f = remaining \<and> remaining \<notin> {1 .. 6}"
proof -
  assume r: "remaining \<le> 1016" and f: "tm_filler remaining = Inr f"
  have "remaining \<notin> {1 .. 6}" using f by (auto simp: tm_filler_def split: if_splits)
  with tm_filler_ok [OF r] f show ?thesis by auto
qed

lemma tm_header_packs:
  assumes "tm_valid t"
  shows "pack_uint 2 (tm_first_word t) = Inr (be_bytes 2 (nat (tm_first_word t)))"
    "pack_uint 1 (tm_master_channel_count t) = Inr (be_bytes 1 (nat (tm_master_channel_count t)))"
    "pack_uint 1 (tm_virtual_channel_count t) = Inr (be_bytes 1 (nat (tm_virtual_channel_count t)))"
    "pack_uint 2 (tm_pointer_word t) = Inr (be_bytes 2 (nat (tm_pointer_word t)))"
  using tm_words_range [OF assms] assms
  by (simp_all add: pack_uint_def tm_valid_def del: One_nat_def be_bytes.simps)

text \<open>The body of a frame (all but the check sequence), and the encoder in one equation.\<close>

definition tm_body :: "tm_frame \<Rightarrow> bytes \<Rightarrow> bytes" where
  "tm_body t filler = tm_header t @ sp_bytes (tm_packet t) @ filler"

definition tm_seal :: "bytes \<Rightarrow> bytes" where
  "tm_seal body = body @ be_bytes 2 (unat (crc16_loop 0xFFFF body))"

lemma tm_frame_encode_eq:
  assumes v: "tm_valid t"
  shows "tm_frame_encode t 1024 =
    (let n = length (sp_bytes (tm_packet t)) in
     if n > 1016 then Inl (ValueError ''Space Packet does not fit in TM data field'')
     else if 1016 - n \<in> {1 .. 6}
     then Inl (ValueError ''TM data field has a non-representable idle remainder'')
     else Inr (tm_seal (tm_body t (projr (tm_filler (1016 - n))))))"
proof -
  let ?n = "length (sp_bytes (tm_packet t))"
  have p: "sp_valid (tm_packet t)" using v by (simp add: tm_valid_def)
  note enc = space_packet_encode_valid [OF p]
  have step: "tm_frame_encode t 1024 =
    (if ?n > 1016 then Inl (ValueError ''Space Packet does not fit in TM data field'')
     else rbind (tm_filler (1016 - ?n)) (\<lambda>filler.
       let result = tm_seal (tm_body t filler) in
       if length result \<noteq> 1024 then Inl (AssertionError ''TM encoder produced a wrong size'')
       else Inr result))"
    unfolding tm_frame_encode_def enc tm_filler_def [symmetric] TM_FRAME_SIZE_def TM_DATA_FIELD_SIZE_def
      tm_first_word_def [symmetric] tm_pointer_word_def [symmetric] Let_def
    by (simp add: tm_header_packs [OF v] fecf_eq tm_seal_def tm_body_def tm_header_def
        del: One_nat_def be_bytes.simps cong: if_cong)
  show ?thesis
  proof (cases "?n > 1016 \<or> 1016 - ?n \<in> {1 .. 6}")
    case True
    then show ?thesis unfolding step Let_def by (auto simp: tm_filler_def)
  next
    case False
    then obtain f where f: "tm_filler (1016 - ?n) = Inr f" "length f = 1016 - ?n"
      using iffD2 [OF tm_filler_ok [OF diff_le_self, of ?n]] by blast
    then show ?thesis
      using False unfolding step Let_def by (simp add: tm_seal_def tm_body_def)
  qed
qed

lemma tm_frame_encode_Inr:
  assumes v: "tm_valid t" and e: "tm_frame_encode t n = Inr b"
  obtains f where "b = tm_seal (tm_body t f)" and "n = 1024"
    and "length (tm_body t f) = 1022" and "length (sp_payload (tm_packet t)) \<le> 1010"
proof -
  have n: "n = 1024" using e by (simp add: tm_frame_encode_def TM_FRAME_SIZE_def split: if_splits)
  let ?m = "length (sp_bytes (tm_packet t))"
  from e n have m: "\<not> ?m > 1016" "1016 - ?m \<notin> {1 .. 6}"
    and b: "b = tm_seal (tm_body t (projr (tm_filler (1016 - ?m))))"
    unfolding n tm_frame_encode_eq [OF v] Let_def by (simp_all split: if_splits)
  obtain f where f: "tm_filler (1016 - ?m) = Inr f" "length f = 1016 - ?m"
    using iffD2 [OF tm_filler_ok [OF diff_le_self, of ?m]] m(2) by blast
  show ?thesis
    by (rule that [of f]) (use b n m f in \<open>simp_all add: tm_body_def\<close>)
qed

lemma tm_body_slices:
  assumes "tm_valid t"
  shows "int (be_val (slice 0 2 (tm_body t f @ c))) = tm_first_word t"
    "int (be_val (slice 2 3 (tm_body t f @ c))) = tm_master_channel_count t"
    "int (be_val (slice 3 4 (tm_body t f @ c))) = tm_virtual_channel_count t"
    "int (be_val (slice 4 6 (tm_body t f @ c))) = tm_pointer_word t"
    "be_val (slice 10 12 (tm_body t f @ c)) = length (sp_payload (tm_packet t)) - 1"
    "slice 6 (12 + length (sp_payload (tm_packet t))) (tm_body t f @ c) = sp_bytes (tm_packet t)"
proof -
  have p: "sp_valid (tm_packet t)" using assms by (simp add: tm_valid_def)
  have s: "slice 0 2 (tm_body t f @ c) = be_bytes 2 (nat (tm_first_word t))"
    "slice 2 3 (tm_body t f @ c) = be_bytes 1 (nat (tm_master_channel_count t))"
    "slice 3 4 (tm_body t f @ c) = be_bytes 1 (nat (tm_virtual_channel_count t))"
    "slice 4 6 (tm_body t f @ c) = be_bytes 2 (nat (tm_pointer_word t))"
    by (simp_all add: slice_def tm_body_def tm_header_def del: One_nat_def)
  show "int (be_val (slice 0 2 (tm_body t f @ c))) = tm_first_word t"
    "int (be_val (slice 4 6 (tm_body t f @ c))) = tm_pointer_word t"
    using tm_words_range [OF assms] by (simp_all only: s int_be_val_be_bytes)
     (simp_all add: int_be_val_be_bytes)
  show "int (be_val (slice 2 3 (tm_body t f @ c))) = tm_master_channel_count t"
    "int (be_val (slice 3 4 (tm_body t f @ c))) = tm_virtual_channel_count t"
    unfolding s using assms by (simp_all add: int_be_val_be_bytes tm_valid_def del: be_bytes.simps One_nat_def)
  have "slice 10 12 (tm_body t f @ c) = slice 4 6 (sp_bytes (tm_packet t))"
    by (simp add: slice_def tm_body_def sp_bytes_def)
  then show "be_val (slice 10 12 (tm_body t f @ c)) = length (sp_payload (tm_packet t)) - 1"
    using sp_bytes_words(3) [OF p] by simp
  show "slice 6 (12 + length (sp_payload (tm_packet t))) (tm_body t f @ c) = sp_bytes (tm_packet t)"
    by (simp add: slice_def tm_body_def)
qed


subsection \<open>Round trip and error detection\<close>

lemma decode_crc_check:
  "(rbind (crc16_ccitt (but_last_n 2 data) 0xFFFF) (\<lambda>actual_crc.
     if actual_crc \<noteq> int (be_val (last_n 2 data)) then Inl e else k)) =
   (if fecf_ok data then k else Inl e)"
  by (simp add: crc16_ccitt_ffff fecf_ok_def)

lemma tm_frame_decode_seal:
  assumes v: "tm_valid t" and l: "length (tm_body t f) = 1022"
    and p: "length (sp_payload (tm_packet t)) \<le> 1010"
  shows "decode_tm_frame (tm_seal (tm_body t f)) = Inr t"
proof -
  define data where "data = tm_seal (tm_body t f)"
  have data: "data = tm_body t f @ be_bytes 2 (unat (crc16_loop 0xFFFF (tm_body t f)))"
    by (simp add: data_def tm_seal_def)
  have len: "length data = 1024" "length (slice 0 6 data) = 6"
    using l by (simp_all add: data slice_def)
  have ok: "fecf_ok data" unfolding data by (rule fecf_ok_append)
  note slices = tm_body_slices [OF v, where f = f and c = "be_bytes 2 (unat (crc16_loop 0xFFFF (tm_body t f)))",
      folded data]
  note r = tm_words_range [OF v] and w = tm_words_fields [OF v]
  have sp: "sp_valid (tm_packet t)" using v by (simp add: tm_valid_def)
  then have pos: "0 < length (sp_payload (tm_packet t))" by (simp add: sp_valid_def)
  have pe: "6 + 6 + (length (sp_payload (tm_packet t)) - 1) + 1 = 12 + length (sp_payload (tm_packet t))"
    using pos by simp
  have d: "drop_bit 14 (tm_first_word t) = 0"
    using r(1,2) unfolding bitfield by simp
  have d2: "tm_pointer_word t AND 0x7FF = 0"
    unfolding bitfield by (rule w(4))
  have d3: "drop_bit 4 (tm_first_word t) AND 0x3FF = tm_spacecraft_id t"
    using w(1) unfolding bitfield by simp
  have d4: "drop_bit 1 (tm_first_word t) AND 0x7 = tm_virtual_channel_id t"
    using w(2) unfolding bitfield by simp
  have d5: "drop_bit 11 (tm_pointer_word t) AND 0x3 = tm_segment_length_id t"
    using w(3) unfolding bitfield by simp
  have init: "tm_frame_post_init
     \<lparr> tm_spacecraft_id = tm_spacecraft_id t, tm_virtual_channel_id = tm_virtual_channel_id t,
       tm_master_channel_count = tm_master_channel_count t,
       tm_virtual_channel_count = tm_virtual_channel_count t, tm_packet = tm_packet t,
       tm_segment_length_id = tm_segment_length_id t, tm_ocf = [] \<rparr> = Inr t"
    using tm_frame_post_init_iff [of t t] v by (cases t) (simp add: tm_valid_def)
  have e: "\<not> 1022 < int (12 + length (sp_payload (tm_packet t)))" using p by simp
  show ?thesis
    unfolding decode_tm_frame_def tm_frame_decode_def TM_FRAME_SIZE_def data_def [symmetric] Let_def
      decode_crc_check slices pe d d2 d3 d4 d5 space_packet_decode_bytes [OF sp] rbind_simps init
    using len ok e by simp
qed

interpretation tm: codec tm_valid "\<lambda>t. tm_frame_encode t 1024" decode_tm_frame
proof unfold_locales
  fix t b
  assume v: "tm_valid t" and "tm_frame_encode t 1024 = Inr b"
  then obtain f where "b = tm_seal (tm_body t f)" "length (tm_body t f) = 1022"
    "length (sp_payload (tm_packet t)) \<le> 1010"
    by (rule tm_frame_encode_Inr)
  with tm_frame_decode_seal [OF v] show "decode_tm_frame b = Inr t" by simp
qed

text \<open>The decoder looks at the check sequence before it looks at anything else.\<close>

lemma decode_tm_frame_crc:
  "length data = 1024 \<Longrightarrow> \<not> fecf_ok data \<Longrightarrow>
   decode_tm_frame data = Inl (ValueError ''TM FECF/CRC mismatch'')"
  by (simp add: decode_tm_frame_def tm_frame_decode_def TM_FRAME_SIZE_def Let_def decode_crc_check)

lemma decode_tm_frame_Inr_crc:
  "decode_tm_frame data = Inr t \<Longrightarrow> length data = 1024 \<and> fecf_ok data"
  unfolding decode_tm_frame_def tm_frame_decode_def TM_FRAME_SIZE_def Let_def decode_crc_check
  by (auto split: if_splits)

lemma decode_tm_frame_valid:
  assumes "decode_tm_frame data = Inr t"
  shows "tm_valid t"
proof -
  have "\<exists>d u. space_packet_decode d = Inr (tm_packet u) \<and> tm_frame_post_init u = Inr t"
    using assms unfolding decode_tm_frame_def tm_frame_decode_def Let_def decode_crc_check
    apply (simp add: rbind_Inr_iff)
    apply (elim exE conjE)
    apply (rule exI, rule exI, rule conjI [rotated], assumption)
    apply simp
    done
  then obtain d u where "space_packet_decode d = Inr (tm_packet u)" "tm_frame_post_init u = Inr t"
    by blast
  with space_packet_decode_sound have "tm_frame_post_init u = Inr t \<and> sp_valid (tm_packet u)" by blast
  then show ?thesis unfolding tm_frame_post_init_iff by blast
qed

section \<open>Properties\<close>

text \<open>
  C33: The Space Packet decoder is the exact inverse of the encoder. A byte string decodes to
  a packet if and only if the packet satisfies the field ranges of the header and the byte
  string is its encoding, so no malformed input and no second spelling is accepted.
\<close>

theorem space_packet_codec_exact:
  "space_packet_decode data = Inr p \<longleftrightarrow> sp_valid p \<and> space_packet_encode p = Inr data"
  by (rule sp.dec_iff)

lemma tm_frame_fits:
  assumes "tm_valid t" "length (sp_payload (tm_packet t)) \<le> 1010"
    "length (sp_payload (tm_packet t)) \<notin> {1004 .. 1009}"
  obtains b where "tm_frame_encode t TM_FRAME_SIZE = Inr b" "length b = 1024" "decode_tm_frame b = Inr t"
proof -
  have "\<not> length (sp_payload (tm_packet t)) + 6 > 1016 \<and> 1016 - (length (sp_payload (tm_packet t)) + 6) \<notin> {1 .. 6}"
    using assms(2,3) by auto
  then obtain b where b: "tm_frame_encode t 1024 = Inr b"
    unfolding tm_frame_encode_eq [OF assms(1)] Let_def by (auto simp: add.commute)
  have "length b = 1024" using b decode_tm_frame_Inr_crc tm.roundtrip [OF assms(1)] by blast
  with b tm.roundtrip [OF assms(1) b] that show thesis by (simp add: TM_FRAME_SIZE_def)
qed

text \<open>
  C10: A TM frame with fields in range encodes exactly when its Space Packet leaves no room
  or room for an idle packet (a payload of at most 1010 bytes, but not of 1004 to 1009); the
  result is then 1024 bytes long and decodes to the same frame. For every other payload the
  encoder raises, it never emits a wrong frame.
\<close>

theorem tm_frame_codec:
  assumes "tm_valid t"
  shows "(let n = length (sp_payload (tm_packet t)) in
    if n \<le> 1010 \<and> n \<notin> {1004 .. 1009}
    then \<exists>b. tm_frame_encode t TM_FRAME_SIZE = Inr b \<and> length b = 1024 \<and> decode_tm_frame b = Inr t
    else \<exists>e. tm_frame_encode t TM_FRAME_SIZE = Inl e)"
proof -
  let ?n = "length (sp_payload (tm_packet t))"
  have dom: "?n \<le> 1010 \<and> ?n \<notin> {1004 .. 1009} \<longleftrightarrow> \<not> ?n + 6 > 1016 \<and> 1016 - (?n + 6) \<notin> {1 .. 6}"
    by auto
  show ?thesis
  proof (cases "?n \<le> 1010 \<and> ?n \<notin> {1004 .. 1009}")
    case True
    then show ?thesis using tm_frame_fits [OF assms] by (metis (no_types))
  next
    case False
    then show ?thesis
      unfolding dom tm_frame_encode_eq [OF assms] Let_def TM_FRAME_SIZE_def by auto
  qed
qed

definition demo_tm_frame :: tm_frame where
  "demo_tm_frame = \<lparr> tm_spacecraft_id = 0x2A, tm_virtual_channel_id = 1,
     tm_master_channel_count = 7, tm_virtual_channel_count = 9,
     tm_packet = \<lparr> sp_apid = 0x123, sp_sequence_count = 5, sp_payload = [1, 2, 3],
       sp_packet_type = 0, sp_secondary_header_present = False, sp_sequence_flags = 3 \<rparr>,
     tm_segment_length_id = 3, tm_ocf = [] \<rparr>"

lemma demo_tm_frame_valid: "tm_valid demo_tm_frame"
  by (simp add: demo_tm_frame_def tm_valid_def sp_valid_def)

lemma demo_tm_frame_payload: "length (sp_payload (tm_packet demo_tm_frame)) = 3"
  by (simp add: demo_tm_frame_def)

lemma tm_frame_codec_witness:
  "\<exists>b. tm_frame_encode demo_tm_frame TM_FRAME_SIZE = Inr b \<and> length b = 1024 \<and>
     decode_tm_frame b = Inr demo_tm_frame"
  using tm_frame_codec [OF demo_tm_frame_valid] by (simp add: demo_tm_frame_payload)

text \<open>
  C24: The check sequence of a TM frame catches every corruption confined to two adjacent
  bytes (any burst of up to nine bits, every single and double bit error inside them): if a
  frame is accepted, the corrupted frame is rejected with the FECF error.
\<close>

theorem tm_frame_burst_rejected:
  assumes "decode_tm_frame (pre @ [x, y] @ post) = Inr t" and "[x', y'] \<noteq> [x, y]"
  shows "decode_tm_frame (pre @ [x', y'] @ post) = Inl (ValueError ''TM FECF/CRC mismatch'')"
proof (rule decode_tm_frame_crc)
  note a = decode_tm_frame_Inr_crc [OF assms(1)]
  then show "length (pre @ [x', y'] @ post) = 1024" by simp
  from a have "fecf_ok (pre @ [x, y] @ post)" ..
  from crc16_detects_burst [OF this assms(2)] show "\<not> fecf_ok (pre @ [x', y'] @ post)" .
qed

lemma demo_tm_frame_bytes:
  obtains b where "decode_tm_frame b = Inr demo_tm_frame" and "length b = 1024"
proof -
  have e: "tm_frame_encode demo_tm_frame 1024 =
      Inr (tm_seal (tm_body demo_tm_frame (projr (tm_filler (1016 - 9)))))"
    unfolding tm_frame_encode_eq [OF demo_tm_frame_valid] by (simp add: demo_tm_frame_payload)
  from tm.roundtrip [OF demo_tm_frame_valid e] show ?thesis
    by (intro that [of "tm_seal (tm_body demo_tm_frame (projr (tm_filler (1016 - 9))))"])
      (simp_all add: decode_tm_frame_Inr_crc)
qed

lemma tm_frame_burst_rejected_witness:
  "\<exists>x y rest. decode_tm_frame (x # y # rest) = Inr demo_tm_frame \<and>
     decode_tm_frame ((x + 1) # (y + 2) # rest) = Inl (ValueError ''TM FECF/CRC mismatch'')"
proof -
  obtain b where d: "decode_tm_frame b = Inr demo_tm_frame" and l: "length b = 1024"
    by (rule demo_tm_frame_bytes)
  then obtain x y rest where b: "b = x # y # rest"
    by (cases b; cases "List.tl b") auto
  have ne: "[x + 1, y + 2] \<noteq> [x, y]" by simp
  from tm_frame_burst_rejected [of "[]" x y rest, OF _ ne] d [unfolded b] show ?thesis by auto
qed

end
