(* ===== verification/TcFrame.thy ===== *)
theory TcFrame
  imports Ccsds
begin

unbundle bit_operations_syntax

text \<open>
  TC Type-BD frames of \<^verbatim>\<open>protocol/ccsds.py\<close> (class \<^verbatim>\<open>TcTypeBdFrame\<close>): encoder, decoder,
  their round trip, and the error detection of the decoder.
\<close>

section \<open>Encoder and decoder\<close>

record tc_frame =
  tc_spacecraft_id :: int
  tc_virtual_channel_id :: int
  tc_sequence_number :: int
  tc_packet :: space_packet

text \<open>\<^verbatim>\<open>bytes([...])\<close> raises when an element is not a byte.\<close>

definition py_bytes :: "int list \<Rightarrow> bytes res" where
  "py_bytes xs =
     (if list_all (\<lambda>x. 0 \<le> x \<and> x < 256) xs then Inr (map word_of_int xs)
      else Inl (ValueError ''bytes must be in range(0, 256)''))"

definition tc_header_ints :: "tc_frame \<Rightarrow> int \<Rightarrow> int list" where
  "tc_header_ints f frame_length =
     [0x20 OR (drop_bit 8 (tc_spacecraft_id f) AND 0x03),
      tc_spacecraft_id f AND 0xFF,
      push_bit 2 (tc_virtual_channel_id f) OR (drop_bit 8 frame_length AND 0x03),
      frame_length AND 0xFF,
      tc_sequence_number f]"

definition tc_frame_encode :: "tc_frame \<Rightarrow> int option \<Rightarrow> bytes res" where
  "tc_frame_encode f frame_size_arg =
     rbind (space_packet_encode (tc_packet f)) (\<lambda>packet_bytes.
     if \<not> (0 \<le> tc_spacecraft_id f \<and> tc_spacecraft_id f \<le> 0x3FF)
     then Inl (ValueError ''TC spacecraft ID must fit 10 bits'')
     else if \<not> (0 \<le> tc_virtual_channel_id f \<and> tc_virtual_channel_id f \<le> 0x3F)
     then Inl (ValueError ''TC VCID must fit 6 bits'')
     else if \<not> (0 \<le> tc_sequence_number f \<and> tc_sequence_number f \<le> 0xFF)
     then Inl (ValueError ''TC frame sequence must fit 8 bits'')
     else
       let need = 5 + int (length packet_bytes) + 2;
           frame_size = (case frame_size_arg of None \<Rightarrow> need | Some n \<Rightarrow> n)
       in if frame_size < need \<or> frame_size - 1 > 0x3FF
          then Inl (ValueError ''TC frame is too small for its Space Packet'')
          else
            let data_field_size = frame_size - 5 - 2;
                frame_length = frame_size - 1
            in rbind (py_bytes (tc_header_ints f frame_length)) (\<lambda>header.
               let body = header @ packet_bytes @
                     replicate (nat (data_field_size - int (length packet_bytes))) 0
               in rbind (fecf body) (\<lambda>crc. Inr (body @ crc))))"

definition tc_frame_decode :: "bytes \<Rightarrow> tc_frame res" where
  "tc_frame_decode data =
     (if length data < 5 + 2 then Inl (ValueError ''TC frame is too short'')
      else rbind (crc16_ccitt (but_last_n 2 data) 0xFFFF) (\<lambda>actual_crc.
        if actual_crc \<noteq> int (be_val (last_n 2 data)) then Inl (ValueError ''TC FECF/CRC mismatch'')
        else
          let d = (\<lambda>i. uint (data ! i)) in
          if drop_bit 6 (d 0) \<noteq> 0 then Inl (ValueError ''unsupported TC transfer-frame version'')
          else if d 0 AND 0x20 = 0 \<or> d 0 AND 0x10 \<noteq> 0
          then Inl (ValueError ''TC frame is not a Type-BD data frame'')
          else if d 0 AND 0x0C \<noteq> 0
          then Inl (ValueError ''TC transfer-frame reserved bits must be zero'')
          else
            let frame_length = push_bit 8 (d 2 AND 0x03) OR d 3 in
            if frame_length + 1 \<noteq> int (length data)
            then Inl (ValueError ''TC frame data-field length mismatch'')
            else
              let packet_end = 5 + 6 + be_val (slice 9 11 data) + 1 in
              rbind (space_packet_decode (slice 5 packet_end data)) (\<lambda>packet.
                Inr \<lparr> tc_spacecraft_id = push_bit 8 (d 0 AND 0x03) OR d 1,
                      tc_virtual_channel_id = drop_bit 2 (d 2) AND 0x3F,
                      tc_sequence_number = d 4,
                      tc_packet = packet \<rparr>)))"

section \<open>Round trip\<close>

definition tc_valid :: "tc_frame \<Rightarrow> bool" where
  "tc_valid f \<longleftrightarrow>
     0 \<le> tc_spacecraft_id f \<and> tc_spacecraft_id f < 1024 \<and>
     0 \<le> tc_virtual_channel_id f \<and> tc_virtual_channel_id f < 64 \<and>
     0 \<le> tc_sequence_number f \<and> tc_sequence_number f < 256 \<and> sp_valid (tc_packet f)"

definition tc_header :: "tc_frame \<Rightarrow> int \<Rightarrow> bytes" where
  "tc_header f frame_length = map word_of_int (tc_header_ints f frame_length)"

text \<open>The five header integers as arithmetic.\<close>

definition tc_header_arith :: "tc_frame \<Rightarrow> int \<Rightarrow> int list" where
  "tc_header_arith f n =
     [32 + tc_spacecraft_id f div 256, tc_spacecraft_id f mod 256,
      tc_virtual_channel_id f * 4 + n div 256, n mod 256, tc_sequence_number f]"

lemma tc_header_ints_arith:
  assumes "tc_valid f" "0 \<le> n" "n < 1024"
  shows "tc_header_ints f n = tc_header_arith f n"
proof -
  have q: "0 \<le> x div 256 \<and> x div 256 < 4 \<and> x div 256 mod 4 = x div 256"
    if "0 \<le> x" "x < 1024" for x :: int
    using that by (simp add: pos_imp_zdiv_nonneg_iff)
  have s: "0 \<le> tc_spacecraft_id f" "tc_spacecraft_id f < 1024" using assms(1) by (auto simp: tc_valid_def)
  have "push_bit 5 1 OR tc_spacecraft_id f div 256 = 1 * 2 ^ 5 + tc_spacecraft_id f div 256"
    using q [OF s] by (intro or_shift_add) auto
  then have a: "0x20 OR tc_spacecraft_id f div 256 = 32 + tc_spacecraft_id f div 256" by simp
  have "push_bit 2 (tc_virtual_channel_id f) OR n div 256 = tc_virtual_channel_id f * 2 ^ 2 + n div 256"
    using q [OF assms(2,3)] by (intro or_shift_add) auto
  then have b: "push_bit 2 (tc_virtual_channel_id f) OR n div 256 = tc_virtual_channel_id f * 4 + n div 256"
    by simp
  have c: "drop_bit 8 x AND 3 = x div 256 mod 4" "x AND 255 = x mod 256" for x :: int
    unfolding bitfield by simp_all
  show ?thesis
    using q [OF s] q [OF assms(2,3)]
    by (simp add: tc_header_ints_def tc_header_arith_def c a b del: push_bit_of_Suc_0)
qed

lemma tc_header_bytes:
  assumes "tc_valid f" "0 \<le> n" "n < 1024"
  shows "list_all (\<lambda>x. 0 \<le> x \<and> x < 256) (tc_header_arith f n)"
proof -
  have q: "0 \<le> x div 256 \<and> x div 256 < 4" if "0 \<le> x" "x < 1024" for x :: int
    using that by (simp add: pos_imp_zdiv_nonneg_iff)
  show ?thesis
    using assms q [of n] q [of "tc_spacecraft_id f"] by (auto simp: tc_header_arith_def tc_valid_def)
qed

definition tc_body :: "tc_frame \<Rightarrow> int \<Rightarrow> nat \<Rightarrow> bytes" where
  "tc_body f frame_length pad = tc_header f frame_length @ sp_bytes (tc_packet f) @ replicate pad 0"

lemma length_tc_header [simp]: "length (tc_header f n) = 5"
  by (simp add: tc_header_def tc_header_ints_def)

lemma tc_frame_encode_Inr:
  assumes v: "sp_valid (tc_packet f)" and e: "tc_frame_encode f arg = Inr b"
  obtains pad where "tc_valid f"
    and "length (tc_body f (int (length b) - 1) pad) + 2 = length b" and "length b \<le> 1024"
    and "b = tm_seal (tc_body f (int (length b) - 1) pad)"
proof -
  let ?need = "5 + int (length (sp_bytes (tc_packet f))) + 2"
  define n where "n = (case arg of None \<Rightarrow> ?need | Some n \<Rightarrow> n)"
  define pad where "pad = nat (n - 5 - 2 - int (length (sp_bytes (tc_packet f))))"
  from e have r: "tc_valid f" and n: "\<not> n < ?need" "\<not> n - 1 > 0x3FF"
    and rest: "rbind (py_bytes (tc_header_ints f (n - 1))) (\<lambda>header.
        rbind (fecf (header @ sp_bytes (tc_packet f) @ replicate pad 0))
          (\<lambda>crc. Inr ((header @ sp_bytes (tc_packet f) @ replicate pad 0) @ crc))) = Inr b"
    unfolding tc_frame_encode_def space_packet_encode_valid [OF v] rbind_simps Let_def
      n_def [symmetric] pad_def [symmetric]
    using v by (auto simp: tc_valid_def simp del: length_sp_bytes split: if_splits)
  from rest have b: "b = tm_seal (tc_body f (n - 1) pad)"
    by (auto simp: rbind_Inr_iff py_bytes_def fecf_eq tm_seal_def tc_body_def tc_header_def split: if_splits)
  have "int (length (tc_body f (n - 1) pad)) + 2 = n"
    using n by (simp add: tc_body_def pad_def)
  then have len: "int (length b) = n" by (simp add: b tm_seal_def)
  show ?thesis
    by (rule that [of pad]) (use r n b len in \<open>simp_all add: tm_seal_def\<close>)
qed


lemma tc_frame_encode_None:
  assumes v: "tc_valid f" and n: "length (sp_payload (tc_packet f)) \<le> 1011"
  shows "\<exists>b. tc_frame_encode f None = Inr b \<and> length b = length (sp_payload (tc_packet f)) + 13"
proof -
  have sp: "sp_valid (tc_packet f)" using v by (simp add: tc_valid_def)
  let ?len = "12 + int (length (sp_payload (tc_packet f)))"
  have "0 \<le> ?len" "?len < 1024" using n by simp_all
  note h = tc_header_bytes [OF v this] and e = tc_header_ints_arith [OF v this]
  have "py_bytes (tc_header_ints f ?len) = Inr (tc_header f ?len)"
    using h by (simp add: py_bytes_def tc_header_def e)
  with v n show ?thesis
    by (simp add: tc_frame_encode_def space_packet_encode_valid [OF sp] tc_valid_def fecf_eq)
qed


lemma tc_first_byte:
  fixes a :: int
  assumes "0 \<le> a" "a < 4"
  shows "drop_bit 6 (32 + a) = 0" "(32 + a) AND 0x20 \<noteq> 0" "(32 + a) AND 0x10 = 0"
    "(32 + a) AND 0x0C = 0" "(32 + a) AND 3 = a"
proof -
  consider "a = 0" | "a = 1" | "a = 2" | "a = 3" using assms by linarith
  then show "drop_bit 6 (32 + a) = 0" "(32 + a) AND 0x20 \<noteq> 0" "(32 + a) AND 0x10 = 0"
    "(32 + a) AND 0x0C = 0" "(32 + a) AND 3 = a"
    by (cases; simp)+
qed

lemma split_byte:
  fixes x :: int
  assumes "0 \<le> x" "x < 1024"
  shows "push_bit 8 (x div 256) OR x mod 256 = x"
  using or_shift_add [of "x mod 256" 8 "x div 256"] by simp

lemma tc_header_nth:
  assumes v: "tc_valid f" and n: "0 \<le> n" "n < 1024" and i: "i < 5"
  shows "uint ((tc_header f n @ rest) ! i) = tc_header_arith f n ! i"
proof -
  have "tc_header_arith f n ! i \<in> set (tc_header_arith f n)"
    using i by (intro nth_mem) (simp add: tc_header_arith_def)
  then have "0 \<le> tc_header_arith f n ! i" "tc_header_arith f n ! i < 256"
    using tc_header_bytes [OF v n] by (simp_all add: list_all_iff)
  moreover have "(tc_header f n @ rest) ! i = word_of_int (tc_header_arith f n ! i)"
  proof -
    have "length (tc_header_arith f n) = 5" by (simp add: tc_header_arith_def)
    then show ?thesis
      using i by (simp only: tc_header_def tc_header_ints_arith [OF v n] nth_append length_map nth_map if_True)
  qed
  ultimately show ?thesis by (simp add: uint_word_of_int)
qed

lemma tc_frame_decode_seal:
  assumes v: "tc_valid f" and l: "length (tc_body f n pad) + 2 = m"
    and n: "n = int m - 1" and m: "m \<le> 1024"
  shows "tc_frame_decode (tm_seal (tc_body f n pad)) = Inr f"
proof -
  define data where "data = tm_seal (tc_body f n pad)"
  let ?crc = "be_bytes 2 (unat (crc16_loop 0xFFFF (tc_body f n pad)))"
  have data: "data = tc_header f n @ (sp_bytes (tc_packet f) @ replicate pad 0 @ ?crc)"
    by (simp add: data_def tm_seal_def tc_body_def)
  have sp: "sp_valid (tc_packet f)" using v by (simp add: tc_valid_def)
  then have pos: "0 < length (sp_payload (tc_packet f))" by (simp add: sp_valid_def)
  have len: "length data = m" using l by (simp add: data_def tm_seal_def)
  have m13: "13 \<le> m" using l pos by (simp add: tc_body_def)
  have nr: "0 \<le> n" "n < 1024" using n m m13 by auto
  have ok: "fecf_ok data" unfolding data_def tm_seal_def by (rule fecf_ok_append)
  have d: "uint (data ! i) = tc_header_arith f n ! i" if "i < 5" for i
    unfolding data by (rule tc_header_nth [OF v nr that])
  let ?a = "tc_spacecraft_id f div 256"
  have a: "0 \<le> ?a" "?a < 4" using v by (auto simp: tc_valid_def pos_imp_zdiv_nonneg_iff)
  have d0: "uint (data ! 0) = 32 + ?a" and d1: "uint (data ! 1) = tc_spacecraft_id f mod 256"
    and d2: "uint (data ! 2) = tc_virtual_channel_id f * 4 + n div 256"
    and d3: "uint (data ! 3) = n mod 256" and d4: "uint (data ! 4) = tc_sequence_number f"
    using d [of 0] d [of 1] d [of 2] d [of 3] d [of 4] by (simp_all add: tc_header_arith_def)
  have q: "0 \<le> n div 256" "n div 256 < 4" using nr by (auto simp: pos_imp_zdiv_nonneg_iff)
  have low2: "(tc_virtual_channel_id f * 4 + n div 256) AND 3 = n div 256"
    unfolding bitfield by (rule field_split(1) [OF q])
  have fl: "push_bit 8 ((tc_virtual_channel_id f * 4 + n div 256) AND 3) OR n mod 256 = n"
    unfolding low2 by (rule split_byte [OF nr])
  have "(tc_virtual_channel_id f * 4 + n div 256) div 4 = tc_virtual_channel_id f"
    by (rule field_split(2) [OF q])
  then have vc: "drop_bit 2 (tc_virtual_channel_id f * 4 + n div 256) AND 0x3F = tc_virtual_channel_id f"
    using v unfolding bitfield by (simp add: tc_valid_def)
  have sc: "push_bit 8 ((32 + ?a) AND 3) OR tc_spacecraft_id f mod 256 = tc_spacecraft_id f"
    unfolding tc_first_byte(5) [OF a] using v by (intro split_byte) (simp_all add: tc_valid_def)
  have "slice 9 11 data = slice 4 6 (sp_bytes (tc_packet f))"
    by (simp add: data slice_def)
  then have pl: "5 + 6 + be_val (slice 9 11 data) + 1 = 11 + length (sp_payload (tc_packet f))"
    using sp_bytes_words(3) [OF sp] pos by simp
  have pk: "slice 5 (11 + length (sp_payload (tc_packet f))) data = sp_bytes (tc_packet f)"
    by (simp add: data slice_def)
  have sz: "\<not> length data < 5 + 2" "n + 1 = int (length data)" using len m13 n by simp_all
  have "tc_frame_decode data = Inr f"
    unfolding tc_frame_decode_def Let_def decode_crc_check d0 d1 d2 d3 d4 fl vc sc pl pk
      space_packet_decode_bytes [OF sp] rbind_simps
    using sz ok tc_first_byte [OF a] by simp
  then show ?thesis by (simp add: data_def)
qed

interpretation tc: codec tc_valid "\<lambda>f. tc_frame_encode f arg" tc_frame_decode for arg
proof unfold_locales
  fix f b
  assume v: "tc_valid f" and e: "tc_frame_encode f arg = Inr b"
  from v have "sp_valid (tc_packet f)" by (simp add: tc_valid_def)
  from this e obtain pad where "length (tc_body f (int (length b) - 1) pad) + 2 = length b"
    and "length b \<le> 1024" and b: "b = tm_seal (tc_body f (int (length b) - 1) pad)"
    by (rule tc_frame_encode_Inr)
  with v have "tc_frame_decode (tm_seal (tc_body f (int (length b) - 1) pad)) = Inr f"
    by (intro tc_frame_decode_seal) simp_all
  then show "tc_frame_decode b = Inr f" using b by simp
qed

lemma tc_frame_decode_crc:
  "7 \<le> length data \<Longrightarrow> \<not> fecf_ok data \<Longrightarrow>
   tc_frame_decode data = Inl (ValueError ''TC FECF/CRC mismatch'')"
  by (simp add: tc_frame_decode_def decode_crc_check)

lemma tc_frame_decode_Inr_crc:
  "tc_frame_decode data = Inr f \<Longrightarrow> 7 \<le> length data \<and> fecf_ok data"
  unfolding tc_frame_decode_def decode_crc_check by simp

section \<open>Properties\<close>

text \<open>
  C34: A TC frame with fields in range encodes, with no explicit frame size, exactly when its
  Space Packet has at most 1011 payload bytes (a frame of at most 1024 bytes); the result has
  the size of the packet plus seven bytes and decodes to the same frame. The encoder never
  yields a frame longer than its ten-bit length field can describe.
\<close>

theorem tc_frame_codec:
  assumes "tc_valid f"
  shows "(let n = length (sp_payload (tc_packet f)) in
    if n \<le> 1011
    then \<exists>b. tc_frame_encode f None = Inr b \<and> length b = n + 13 \<and> tc_frame_decode b = Inr f
    else tc_frame_encode f None = Inl (ValueError ''TC frame is too small for its Space Packet''))"
proof -
  let ?n = "length (sp_payload (tc_packet f))"
  have sp: "sp_valid (tc_packet f)" using assms by (simp add: tc_valid_def)
  show ?thesis
  proof (cases "?n \<le> 1011")
    case True
    obtain b where b: "tc_frame_encode f None = Inr b" and l: "length b = ?n + 13"
      using tc_frame_encode_None [OF assms True] by blast
    with tc.roundtrip [OF assms b] True show ?thesis by simp
  next
    case False
    then show ?thesis
      using assms by (simp add: tc_frame_encode_def space_packet_encode_valid [OF sp] tc_valid_def)
  qed
qed

definition demo_tc_frame :: tc_frame where
  "demo_tc_frame = \<lparr> tc_spacecraft_id = 0x44, tc_virtual_channel_id = 0, tc_sequence_number = 200,
     tc_packet = \<lparr> sp_apid = 0x10, sp_sequence_count = 16383, sp_payload = [0xC0, 0xFF],
       sp_packet_type = 1, sp_secondary_header_present = False, sp_sequence_flags = 3 \<rparr> \<rparr>"

lemma demo_tc_frame_valid: "tc_valid demo_tc_frame"
  by (simp add: demo_tc_frame_def tc_valid_def sp_valid_def)

lemma tc_frame_codec_witness:
  "\<exists>b. tc_frame_encode demo_tc_frame None = Inr b \<and> length b = 15 \<and>
     tc_frame_decode b = Inr demo_tc_frame"
  using tc_frame_codec [OF demo_tc_frame_valid] by (simp add: demo_tc_frame_def)

text \<open>
  The check sequence of a TC frame catches every corruption confined to two adjacent
  bytes: if a frame is accepted, the corrupted frame is rejected with the FECF error.
\<close>

theorem tc_frame_burst_rejected:
  assumes "tc_frame_decode (pre @ [x, y] @ post) = Inr f" and "[x', y'] \<noteq> [x, y]"
  shows "tc_frame_decode (pre @ [x', y'] @ post) = Inl (ValueError ''TC FECF/CRC mismatch'')"
proof (rule tc_frame_decode_crc)
  note a = tc_frame_decode_Inr_crc [OF assms(1)]
  then show "7 \<le> length (pre @ [x', y'] @ post)" by simp
  from a have "fecf_ok (pre @ [x, y] @ post)" ..
  from crc16_detects_burst [OF this assms(2)] show "\<not> fecf_ok (pre @ [x', y'] @ post)" .
qed

lemma demo_tc_decode:
  "tc_frame_decode [32, 68, 0, 12, 0, 16, 0, 192, 0, 0, 1, 9, 236] =
     Inr \<lparr> tc_spacecraft_id = 68, tc_virtual_channel_id = 0, tc_sequence_number = 0,
       tc_packet = \<lparr> sp_apid = 0, sp_sequence_count = 0, sp_payload = [9, 236],
         sp_packet_type = 1, sp_secondary_header_present = False, sp_sequence_flags = 3 \<rparr> \<rparr>"
proof -
  have "fecf_ok [32, 68, 0, 12, 0, 16, 0, 192, 0, 0, 1, 9, 236]"
    by (simp add: fecf_ok_def but_last_n_def last_n_def be_val_def crc16_eval)
  then show ?thesis
    unfolding tc_frame_decode_def decode_crc_check
    by (simp add: slice_def be_val_def space_packet_decode_def space_packet_post_init_def)
qed

lemma tc_frame_burst_rejected_witness:
  "tc_frame_decode [32, 68, 0, 12, 1, 17, 0, 192, 0, 0, 1, 9, 236] =
     Inl (ValueError ''TC FECF/CRC mismatch'')"
  using tc_frame_burst_rejected [of "[32, 68, 0, 12]" 0 16 "[0, 192, 0, 0, 1, 9, 236]" _ 1 17]
    demo_tc_decode by simp


end
