(* ===== verification/FilePackets.thy ===== *)
theory FilePackets
  imports TcFrame
begin

unbundle bit_operations_syntax

text \<open>
  \<^verbatim>\<open>protocol/file_packet.py\<close>: FilePacket framing behind its F Prime descriptor, and the
  CFDP checksum; and the streaming checksum of \<^verbatim>\<open>flight/file_downlink.py\<close>
  (\<^verbatim>\<open>_stream_bundle_integrity\<close>), which reads the file in chunks and carries the bytes
  of an incomplete word.
\<close>

section \<open>FilePacket framing\<close>

datatype file_packet_type = START | DATA | END | CANCEL

fun fp_type_code :: "file_packet_type \<Rightarrow> int" where
  "fp_type_code START = 1"
| "fp_type_code DATA = 2"
| "fp_type_code END = 3"
| "fp_type_code CANCEL = 4"

definition fp_type_of :: "int \<Rightarrow> file_packet_type option" where
  "fp_type_of n =
     (if n = 1 then Some START else if n = 2 then Some DATA
      else if n = 3 then Some END else if n = 4 then Some CANCEL else None)"

lemma fp_type_of_code [simp]: "fp_type_of (fp_type_code t) = Some t"
  by (cases t) (simp_all add: fp_type_of_def)

lemma fp_type_of_Some: "fp_type_of n = Some t \<longleftrightarrow> n = fp_type_code t"
  by (cases t) (auto simp: fp_type_of_def split: if_splits)

lemma fp_type_code_range: "0 \<le> fp_type_code t" "fp_type_code t < 256"
  by (cases t; simp)+

record file_packet =
  fp_type :: file_packet_type
  fp_sequence_index :: int
  fp_offset :: int
  fp_payload :: bytes

definition MAX_FILE_DATA_PER_FRAME :: nat where "MAX_FILE_DATA_PER_FRAME = 990"
definition FILE_PACKET_HEADER_SIZE :: nat where "FILE_PACKET_HEADER_SIZE = 11"
definition PACKET_DESCRIPTOR_SIZE :: nat where "PACKET_DESCRIPTOR_SIZE = 2"

definition file_packet_post_init :: "file_packet \<Rightarrow> file_packet res" where
  "file_packet_post_init p =
     (if \<not> (0 \<le> fp_sequence_index p \<and> fp_sequence_index p \<le> 0xFFFFFFFF)
      then Inl (ValueError ''FilePacket sequenceIndex must fit U32'')
      else if \<not> (0 \<le> fp_offset p \<and> fp_offset p \<le> 0xFFFFFFFF)
      then Inl (ValueError ''FilePacket offset must fit U32'')
      else if fp_type p = DATA \<and> length (fp_payload p) > MAX_FILE_DATA_PER_FRAME
      then Inl (ValueError ''FilePacket DATA exceeds the 990-byte TM frame boundary'')
      else if fp_type p \<noteq> DATA \<and> length (fp_payload p) > 0xFFFF
      then Inl (ValueError ''FilePacket control payload is too large'')
      else Inr p)"

definition fp_valid :: "file_packet \<Rightarrow> bool" where
  "fp_valid p \<longleftrightarrow>
     0 \<le> fp_sequence_index p \<and> fp_sequence_index p < 4294967296 \<and>
     0 \<le> fp_offset p \<and> fp_offset p < 4294967296 \<and>
     length (fp_payload p) \<le> (if fp_type p = DATA then 990 else 65535)"

lemma file_packet_post_init_iff [simp]:
  "file_packet_post_init p = Inr q \<longleftrightarrow> fp_valid p \<and> q = p"
  unfolding file_packet_post_init_def fp_valid_def MAX_FILE_DATA_PER_FRAME_def by auto

definition file_packet_encode :: "file_packet \<Rightarrow> bytes res" where
  "file_packet_encode p =
     rbind (pack_uint 1 (fp_type_code (fp_type p))) (\<lambda>t.
     rbind (pack_uint 4 (fp_sequence_index p)) (\<lambda>s.
     rbind (pack_uint 4 (fp_offset p)) (\<lambda>off.
     rbind (pack_uint 2 (int (length (fp_payload p)))) (\<lambda>l.
     Inr (t @ s @ off @ l @ fp_payload p)))))"

definition file_packet_decode :: "bytes \<Rightarrow> file_packet res" where
  "file_packet_decode data =
     (if length data < FILE_PACKET_HEADER_SIZE
      then Inl (ValueError ''FilePacket is shorter than its 11-byte header'')
      else
        let packet_type = int (be_val (slice 0 1 data));
            sequence_index = int (be_val (slice 1 5 data));
            off = int (be_val (slice 5 9 data));
            len = be_val (slice 9 11 data)
        in case fp_type_of packet_type of
             None \<Rightarrow> Inl (ValueError ''unknown FilePacket type'')
           | Some t \<Rightarrow>
               if length data \<noteq> FILE_PACKET_HEADER_SIZE + len
               then Inl (ValueError ''FilePacket payload length mismatch'')
               else file_packet_post_init
                 \<lparr> fp_type = t, fp_sequence_index = sequence_index, fp_offset = off,
                   fp_payload = drop 11 data \<rparr>)"

definition encode_file_packet :: "file_packet \<Rightarrow> int \<Rightarrow> bytes res" where
  "encode_file_packet p descriptor =
     (if \<not> (0 \<le> descriptor \<and> descriptor \<le> 0xFFFF)
      then Inl (ValueError ''FilePacket descriptor must fit U16'')
      else rbind (file_packet_encode p)
        (\<lambda>b. Inr (be_bytes PACKET_DESCRIPTOR_SIZE (nat descriptor) @ b)))"

definition decode_file_packet :: "bytes \<Rightarrow> int \<Rightarrow> file_packet res" where
  "decode_file_packet data expected_descriptor =
     (if length data < PACKET_DESCRIPTOR_SIZE + FILE_PACKET_HEADER_SIZE
      then Inl (ValueError ''descriptor/FilePacket payload is too short'')
      else
        let descriptor = int (be_val (slice 0 2 data)) in
        if descriptor \<noteq> expected_descriptor
        then Inl (ValueError ''unexpected F Prime packet descriptor'')
        else file_packet_decode (drop 2 data))"

subsection \<open>The codec\<close>

definition fp_bytes :: "file_packet \<Rightarrow> bytes" where
  "fp_bytes p = be_bytes 1 (nat (fp_type_code (fp_type p))) @ be_bytes 4 (nat (fp_sequence_index p)) @
     be_bytes 4 (nat (fp_offset p)) @ be_bytes 2 (length (fp_payload p)) @ fp_payload p"

lemma length_fp_bytes [simp]: "length (fp_bytes p) = 11 + length (fp_payload p)"
  by (simp add: fp_bytes_def del: One_nat_def be_bytes.simps)

lemma fp_payload_bound: "fp_valid p \<Longrightarrow> length (fp_payload p) < 65536"
  by (auto simp: fp_valid_def split: if_splits)

lemma file_packet_encode_valid: "fp_valid p \<Longrightarrow> file_packet_encode p = Inr (fp_bytes p)"
  using fp_payload_bound [of p] fp_type_code_range [of "fp_type p"]
  by (simp add: file_packet_encode_def pack_uint_def fp_bytes_def fp_valid_def
      del: One_nat_def be_bytes.simps)

lemma fp_bytes_slices:
  assumes "fp_valid p"
  shows "int (be_val (slice 0 1 (fp_bytes p))) = fp_type_code (fp_type p)"
    "int (be_val (slice 1 5 (fp_bytes p))) = fp_sequence_index p"
    "int (be_val (slice 5 9 (fp_bytes p))) = fp_offset p"
    "be_val (slice 9 11 (fp_bytes p)) = length (fp_payload p)"
    "drop 11 (fp_bytes p) = fp_payload p"
proof -
  have s: "slice 0 1 (fp_bytes p) = be_bytes 1 (nat (fp_type_code (fp_type p)))"
    "slice 1 5 (fp_bytes p) = be_bytes 4 (nat (fp_sequence_index p))"
    "slice 5 9 (fp_bytes p) = be_bytes 4 (nat (fp_offset p))"
    "slice 9 11 (fp_bytes p) = be_bytes 2 (length (fp_payload p))"
    by (simp_all add: slice_def fp_bytes_def del: One_nat_def be_bytes.simps)
  show "int (be_val (slice 0 1 (fp_bytes p))) = fp_type_code (fp_type p)"
    unfolding s using fp_type_code_range [of "fp_type p"]
    by (simp add: int_be_val_be_bytes del: One_nat_def be_bytes.simps)
  show "int (be_val (slice 1 5 (fp_bytes p))) = fp_sequence_index p"
    "int (be_val (slice 5 9 (fp_bytes p))) = fp_offset p"
    unfolding s using assms by (simp_all add: int_be_val_be_bytes fp_valid_def)
  show "be_val (slice 9 11 (fp_bytes p)) = length (fp_payload p)"
    unfolding s using fp_payload_bound [OF assms] by (simp add: be_val_be_bytes)
  show "drop 11 (fp_bytes p) = fp_payload p"
    by (simp add: fp_bytes_def del: One_nat_def be_bytes.simps)
qed

lemma slices_file_packet:
  "11 \<le> length xs \<Longrightarrow>
   slice 0 1 xs @ slice 1 5 xs @ slice 5 9 xs @ slice 9 11 xs @ drop 11 xs = xs"
proof -
  have t: "take n (drop a xs) @ drop (a + n) xs = drop a xs" for a n :: nat
    by (metis append_take_drop_id drop_drop add.commute)
  show ?thesis using t [of 2 9] t [of 4 5] t [of 4 1] t [of 1 0] by (simp add: slice_def)
qed

interpretation fp: strict_codec fp_valid file_packet_encode file_packet_decode
proof unfold_locales
  fix p b
  assume v: "fp_valid p" and "file_packet_encode p = Inr b"
  then have b: "b = fp_bytes p" by (simp add: file_packet_encode_valid)
  show "file_packet_decode b = Inr p"
    unfolding file_packet_decode_def b Let_def fp_bytes_slices [OF v] fp_type_of_code
      FILE_PACKET_HEADER_SIZE_def
    using v by (cases p) simp
next
  fix b p
  assume d: "file_packet_decode b = Inr p"
  then have l: "11 \<le> length b" and v: "fp_valid p"
    and t: "int (be_val (slice 0 1 b)) = fp_type_code (fp_type p)"
    and p: "fp_sequence_index p = int (be_val (slice 1 5 b))"
      "fp_offset p = int (be_val (slice 5 9 b))" "fp_payload p = drop 11 b"
    and n: "length b = 11 + be_val (slice 9 11 b)"
    by (auto simp: file_packet_decode_def Let_def FILE_PACKET_HEADER_SIZE_def fp_type_of_Some
        split: option.splits if_splits)
  have ls: "length (slice 0 1 b) = 1" "length (slice 1 5 b) = 4" "length (slice 5 9 b) = 4"
    "length (slice 9 11 b) = 2" using l by (simp_all add: slice_def)
  have "length (fp_payload p) = be_val (slice 9 11 b)" using n by (simp add: p)
  then have "fp_bytes p = slice 0 1 b @ slice 1 5 b @ slice 5 9 b @ slice 9 11 b @ drop 11 b"
    unfolding fp_bytes_def p t [symmetric] nat_int
    by (simp only: be_bytes_be_val' [OF ls(1)] be_bytes_be_val' [OF ls(2)]
        be_bytes_be_val' [OF ls(3)] be_bytes_be_val' [OF ls(4)])
  then have "fp_bytes p = b" using slices_file_packet [OF l] by simp
  with v show "fp_valid p \<and> file_packet_encode p = Inr b"
    by (simp add: file_packet_encode_valid)
qed

lemma encode_file_packet_valid:
  "fp_valid p \<Longrightarrow> 0 \<le> d \<Longrightarrow> d \<le> 0xFFFF \<Longrightarrow>
   encode_file_packet p d = Inr (be_bytes 2 (nat d) @ fp_bytes p)"
  by (simp add: encode_file_packet_def file_packet_encode_valid PACKET_DESCRIPTOR_SIZE_def)

interpretation descriptor_fp: codec fp_valid "\<lambda>p. encode_file_packet p d" "\<lambda>b. decode_file_packet b d"
  for d
proof unfold_locales
  fix p b
  assume v: "fp_valid p" and e: "encode_file_packet p d = Inr b"
  then have d: "0 \<le> d" "d \<le> 0xFFFF" by (auto simp: encode_file_packet_def split: if_splits)
  with v e have b: "b = be_bytes 2 (nat d) @ fp_bytes p" by (simp add: encode_file_packet_valid)
  have "int (be_val (be_bytes 2 (nat d))) = d" using d by (intro int_be_val_be_bytes) simp_all
  then show "decode_file_packet b d = Inr p"
    using fp.roundtrip [OF v file_packet_encode_valid [OF v]]
    by (simp add: decode_file_packet_def Let_def b slice_def PACKET_DESCRIPTOR_SIZE_def
        FILE_PACKET_HEADER_SIZE_def)
qed

section \<open>Property\<close>

text \<open>
  C27: The file packet decoder, descriptor included, is the exact inverse of the encoder. A
  payload decodes under an expected descriptor to a packet if and only if the packet
  satisfies the constructor's rules (a DATA packet carries 1 to 990 bytes, the others none
  beyond their metadata, all integers fit U32) and the payload is its encoding under that
  descriptor; so a wrong descriptor, a wrong length or an unknown type is always an error.
\<close>

theorem file_packet_codec_exact:
  "decode_file_packet data d = Inr p \<longleftrightarrow> fp_valid p \<and> encode_file_packet p d = Inr data"
proof
  assume r: "fp_valid p \<and> encode_file_packet p d = Inr data"
  show "decode_file_packet data d = Inr p"
    by (rule descriptor_fp.roundtrip [OF conjunct1 [OF r] conjunct2 [OF r]])
next
  assume "decode_file_packet data d = Inr p"
  then have l: "13 \<le> length data" and d: "d = int (be_val (slice 0 2 data))"
    and p: "file_packet_decode (drop 2 data) = Inr p"
    by (auto simp: decode_file_packet_def PACKET_DESCRIPTOR_SIZE_def FILE_PACKET_HEADER_SIZE_def
        Let_def split: if_splits)
  have two: "length (slice 0 2 data) = 2" using l by (simp add: slice_def)
  from p have v: "fp_valid p" and e: "file_packet_encode p = Inr (drop 2 data)"
    by (simp_all add: fp.dec_iff)
  have "be_val (slice 0 2 data) < 65536" using be_val_less [of "slice 0 2 data"] two by simp
  moreover have "be_bytes 2 (be_val (slice 0 2 data)) = take 2 data"
    using be_bytes_be_val' [OF two] by (simp add: slice_def)
  ultimately show "fp_valid p \<and> encode_file_packet p d = Inr data"
    using v e by (simp add: encode_file_packet_def d PACKET_DESCRIPTOR_SIZE_def del: be_bytes.simps)
qed

end
