(* ===== verification/CfdpChecksum.thy ===== *)
theory CfdpChecksum
  imports FilePackets
begin

unbundle bit_operations_syntax

text \<open>
  The CFDP checksum: \<^verbatim>\<open>cfdp_checksum\<close> of \<^verbatim>\<open>protocol/file_packet.py\<close>, which builds each
  absolute four-byte word of a range, and \<^verbatim>\<open>_stream_bundle_integrity\<close> of
  \<^verbatim>\<open>flight/file_downlink.py\<close>, which reads chunks of any size. Both are shown equal to
  \<open>weighted_sum\<close>: the sum, modulo \<open>2^32\<close>, of every byte times the weight of its
  absolute position.
\<close>

section \<open>The code\<close>

text \<open>Python's \<^verbatim>\<open>range(start, stop, step)\<close> for a positive step.\<close>

definition py_range_step :: "nat \<Rightarrow> nat \<Rightarrow> nat \<Rightarrow> nat list" where
  "py_range_step start stop st = map (\<lambda>k. start + st * k) [0 ..< (stop - start + st - 1) div st]"

definition cfdp_word :: "bytes \<Rightarrow> nat \<Rightarrow> nat \<Rightarrow> bytes" where
  "cfdp_word data offset word_start =
     map (\<lambda>index. let absolute = word_start + index in
           if offset \<le> absolute \<and> absolute - offset < length data
           then data ! (absolute - offset) else 0) [0 ..< 4]"

definition add_u32 :: "nat \<Rightarrow> nat \<Rightarrow> nat" where
  "add_u32 tot w = (tot + w) AND 0xFFFFFFFF"

definition cfdp_checksum :: "bytes \<Rightarrow> int \<Rightarrow> int option \<Rightarrow> int res" where
  "cfdp_checksum data offset file_size_arg =
     (if offset < 0 \<or> offset > 0xFFFFFFFF
      then Inl (ValueError ''checksum offset must be non-negative U32'')
      else
        let n = int (length data);
            file_size = (case file_size_arg of None \<Rightarrow> offset + n | Some s \<Rightarrow> s)
        in if file_size < offset + n
           then Inl (ValueError ''file_size cannot be smaller than the supplied range'')
           else Inr (int (foldl (\<lambda>tot ws. add_u32 tot (be_val (cfdp_word data (nat offset) ws))) 0
                  (py_range_step (nat offset div 4 * 4) (nat file_size) 4))))"

text \<open>The streaming reader: checksum so far, size so far, bytes of an incomplete word.\<close>

record stream_state =
  st_checksum :: nat
  st_size :: nat
  st_trailing :: bytes
  st_digest_input :: bytes

fun add_words :: "bytes \<Rightarrow> nat \<Rightarrow> nat" where
  "add_words (a # b # c # d # rest) tot = add_words rest (add_u32 tot (be_val [a, b, c, d]))"
| "add_words rest tot = tot"

definition stream_chunk :: "stream_state \<Rightarrow> bytes \<Rightarrow> stream_state" where
  "stream_chunk s chunk =
     (let words = st_trailing s @ chunk;
          word_bytes = length words - length words mod 4
      in \<lparr> st_checksum = (if word_bytes \<noteq> 0 then add_words (take word_bytes words) (st_checksum s)
                          else st_checksum s),
           st_size = st_size s + length chunk,
           st_trailing = drop word_bytes words,
           st_digest_input = st_digest_input s @ chunk \<rparr>)"

definition stream_bundle_integrity ::
  "(bytes \<Rightarrow> string) \<Rightarrow> bytes list \<Rightarrow> nat \<times> string \<times> nat" where
  "stream_bundle_integrity sha256 chunks =
     (let s = foldl stream_chunk
            \<lparr> st_checksum = 0, st_size = 0, st_trailing = [], st_digest_input = [] \<rparr> chunks;
          checksum = (if st_trailing s \<noteq> []
             then add_u32 (st_checksum s)
               (be_val (st_trailing s @ replicate (4 - length (st_trailing s)) 0))
             else st_checksum s)
      in (st_size s, sha256 (st_digest_input s), checksum))"

section \<open>The specification\<close>

definition position_weight :: "nat \<Rightarrow> nat" where
  "position_weight a = 256 ^ (3 - a mod 4)"

definition weighted_sum :: "nat \<Rightarrow> bytes \<Rightarrow> nat" where
  "weighted_sum offset data =
     (\<Sum>i < length data. unat (data ! i) * position_weight (offset + i)) mod 2 ^ 32"

lemma add_u32_mod: "add_u32 t w = (t + w) mod 2 ^ 32"
proof -
  have "(0xFFFFFFFF :: nat) = mask 32" by (simp add: mask_eq_exp_minus_1)
  then show ?thesis by (simp only: add_u32_def flip: take_bit_eq_mask) (simp add: take_bit_eq_mod)
qed

lemma foldl_add_u32:
  "t < 2 ^ 32 \<Longrightarrow> foldl (\<lambda>t x. add_u32 t (f x)) t xs = (t + sum_list (map f xs)) mod 2 ^ 32"
proof (induction xs arbitrary: t)
  case Nil
  then show ?case by simp
next
  case (Cons x xs)
  have "foldl (\<lambda>t x. add_u32 t (f x)) (add_u32 t (f x)) xs =
      (add_u32 t (f x) + sum_list (map f xs)) mod 2 ^ 32"
    by (rule Cons.IH) (simp add: add_u32_mod)
  then show ?case by (simp add: add_u32_mod mod_add_left_eq add.assoc)
qed

lemma weighted_sum_less: "weighted_sum offset data < 2 ^ 32"
  by (simp add: weighted_sum_def)

lemma weighted_sum_append:
  "weighted_sum offset (xs @ ys) =
     (weighted_sum offset xs + weighted_sum (offset + length xs) ys) mod 2 ^ 32"
proof -
  let ?f = "\<lambda>i. unat ((xs @ ys) ! i) * position_weight (offset + i)"
  have "(\<Sum>i < length xs + length ys. ?f i) =
      (\<Sum>i < length xs. ?f i) + (\<Sum>i < length ys. ?f (length xs + i))"
    by (simp add: lessThan_atLeast0 flip: sum.atLeastLessThan_concat
        [of 0 "length xs" "length xs + length ys"] sum.shift_bounds_nat_ivl)
       (simp add: sum.atLeastLessThan_shift_0 [of _ "length xs"] atLeast0LessThan)
  also have "(\<Sum>i < length xs. ?f i) = (\<Sum>i < length xs. unat (xs ! i) * position_weight (offset + i))"
    by (intro sum.cong) (simp_all add: nth_append)
  also have "(\<Sum>i < length ys. ?f (length xs + i)) =
      (\<Sum>i < length ys. unat (ys ! i) * position_weight (offset + length xs + i))"
    by (intro sum.cong) (simp_all add: nth_append add.assoc)
  finally show ?thesis by (simp add: weighted_sum_def mod_add_eq)
qed

text \<open>Four consecutive bytes at an aligned position are one big-endian word.\<close>

lemma be_val_four: "be_val [a, b, c, d] = unat a * 256 ^ 3 + unat b * 256 ^ 2 + unat c * 256 + unat d"
  by (simp add: be_val_def)

lemma position_weight_aligned:
  "p mod 4 = 0 \<Longrightarrow> position_weight (p + 0) = 256 ^ 3 \<and> position_weight (p + 1) = 256 ^ 2 \<and>
   position_weight (p + 2) = 256 \<and> position_weight (p + 3) = 1"
proof -
  assume "p mod 4 = 0"
  then have "(p + 1) mod 4 = 1" "(p + 2) mod 4 = 2" "(p + 3) mod 4 = 3" by presburger+
  with \<open>p mod 4 = 0\<close> show ?thesis by (simp add: position_weight_def)
qed

subsection \<open>The word loop computes it\<close>

definition byte_at :: "bytes \<Rightarrow> nat \<Rightarrow> nat \<Rightarrow> nat" where
  "byte_at data offset a =
     (if offset \<le> a \<and> a - offset < length data then unat (data ! (a - offset)) else 0)"

lemma sum_four: "(\<Sum>i < 4. f i) = f 0 + f 1 + f 2 + f (3 :: nat)" for f :: "nat \<Rightarrow> nat"
  by (simp add: numeral_eq_Suc)

lemma cfdp_word_val:
  assumes "ws mod 4 = 0"
  shows "be_val (cfdp_word data offset ws) =
    (\<Sum>i < 4. byte_at data offset (ws + i) * position_weight (ws + i))"
proof -
  have r: "[0 ..< 4] = [0, 1, 2, 3 :: nat]" by (simp add: upt_rec)
  have b: "unat (if offset \<le> a \<and> a - offset < length data then data ! (a - offset) else 0) =
      byte_at data offset a" for a
    by (simp add: byte_at_def)
  show ?thesis
    using position_weight_aligned [OF assms]
    unfolding cfdp_word_def r sum_four list.map be_val_four Let_def b by simp
qed

lemma sum_words: "(\<Sum>k < n. \<Sum>i < 4. h (s + 4 * k + i)) = (\<Sum>j < 4 * n. h (s + j :: nat))"
  for h :: "nat \<Rightarrow> nat"
proof (induction n)
  case 0
  then show ?case by simp
next
  case (Suc n)
  have "(\<Sum>j < 4 * n + 4. h (s + j)) = (\<Sum>j < 4 * n. h (s + j)) + (\<Sum>i < 4. h (s + 4 * n + i))"
    by (simp add: numeral_eq_Suc add.assoc)
  with Suc show ?case by (simp add: add.commute)
qed

lemma sum_window:
  fixes h :: "nat \<Rightarrow> nat"
  assumes "s \<le> offset" "offset + len \<le> s + m" "\<And>a. a < offset \<or> offset + len \<le> a \<Longrightarrow> h a = 0"
  shows "(\<Sum>j < m. h (s + j)) = (\<Sum>i < len. h (offset + i))"
proof -
  have "(\<Sum>j < m. h (s + j)) = (\<Sum>a \<in> {s ..< s + m}. h a)"
    by (simp add: sum.atLeastLessThan_shift_0 [of h s] atLeast0LessThan)
  also have "\<dots> = (\<Sum>a \<in> {offset ..< offset + len}. h a)"
    using assms by (intro sum.mono_neutral_right) auto
  also have "\<dots> = (\<Sum>i < len. h (offset + i))"
    by (simp add: sum.atLeastLessThan_shift_0 [of h offset] atLeast0LessThan)
  finally show ?thesis .
qed

lemma cfdp_loop_weighted:
  assumes "offset + length data \<le> file_size"
  shows "foldl (\<lambda>tot ws. add_u32 tot (be_val (cfdp_word data offset ws))) 0
      (py_range_step (offset div 4 * 4) file_size 4) = weighted_sum offset data"
proof -
  let ?s = "offset div 4 * 4" and ?n = "(file_size - offset div 4 * 4 + 4 - 1) div 4"
  let ?h = "\<lambda>a. byte_at data offset a * position_weight a"
  have "sum_list (map (\<lambda>ws. be_val (cfdp_word data offset ws)) (py_range_step ?s file_size 4)) =
      (\<Sum>k < ?n. \<Sum>i < 4. ?h (?s + 4 * k + i))"
    by (simp add: py_range_step_def comp_def cfdp_word_val interv_sum_list_conv_sum_set_nat
        atLeast0LessThan del: sum_mult_of_bool_eq)
  also have "\<dots> = (\<Sum>j < 4 * ?n. ?h (?s + j))" by (rule sum_words)
  also have "\<dots> = (\<Sum>i < length data. ?h (offset + i))"
    using assms by (intro sum_window) (auto simp: byte_at_def)
  also have "\<dots> = (\<Sum>i < length data. unat (data ! i) * position_weight (offset + i))"
    by (intro sum.cong) (simp_all add: byte_at_def)
  finally show ?thesis
    by (simp add: foldl_add_u32 weighted_sum_def)
qed

lemma cfdp_checksum_weighted:
  assumes "0 \<le> offset" "offset \<le> 0xFFFFFFFF"
    and "case fs of None \<Rightarrow> True | Some s \<Rightarrow> offset + int (length data) \<le> s"
  shows "cfdp_checksum data offset fs = Inr (int (weighted_sum (nat offset) data))"
proof -
  define file_size where
    "file_size = (case fs of None \<Rightarrow> offset + int (length data) | Some s \<Rightarrow> s)"
  have "offset + int (length data) \<le> file_size"
    using assms(3) by (simp add: file_size_def split: option.splits)
  moreover from this have "nat offset + length data \<le> nat file_size" using assms(1) by linarith
  ultimately show ?thesis
    using assms(1,2) by (simp add: cfdp_checksum_def Let_def cfdp_loop_weighted flip: file_size_def)
qed


subsection \<open>So does the streaming reader\<close>

lemma add_words_weighted:
  "length xs mod 4 = 0 \<Longrightarrow> p mod 4 = 0 \<Longrightarrow> t < 2 ^ 32 \<Longrightarrow>
   add_words xs t = (t + weighted_sum p xs) mod 2 ^ 32"
proof (induction xs t arbitrary: p rule: add_words.induct)
  case (1 a b c d rest t)
  note w = position_weight_aligned [OF "1.prems"(2)]
  have four: "weighted_sum p [a, b, c, d] = be_val [a, b, c, d] mod 2 ^ 32"
  proof -
    have l: "length [a, b, c, d] = 4" by simp
    show ?thesis
      unfolding weighted_sum_def l sum_four be_val_four using w by simp
  qed
  have l: "length rest mod 4 = 0" "(p + 4) mod 4 = 0" using "1.prems" by simp_all
  have "add_words rest (add_u32 t (be_val [a, b, c, d])) =
      (add_u32 t (be_val [a, b, c, d]) + weighted_sum (p + 4) rest) mod 2 ^ 32"
    by (rule "1.IH" [OF l]) (simp add: add_u32_mod)
  moreover have "weighted_sum p (a # b # c # d # rest) =
      (be_val [a, b, c, d] mod 2 ^ 32 + weighted_sum (p + 4) rest) mod 2 ^ 32"
  proof -
    have "length [a, b, c, d] = 4" "[a, b, c, d] @ rest = a # b # c # d # rest" by simp_all
    then show ?thesis using weighted_sum_append [of p "[a, b, c, d]" rest] by (simp only: four)
  qed
  ultimately show ?case by (simp only: add_words.simps add_u32_mod mod_simps add.assoc)
qed (simp_all add: weighted_sum_def)

definition stream_inv :: "stream_state \<Rightarrow> bytes \<Rightarrow> bool" where
  "stream_inv s seen \<longleftrightarrow>
     (\<exists>whole. seen = whole @ st_trailing s \<and> length whole mod 4 = 0 \<and>
        st_checksum s = weighted_sum 0 whole) \<and>
     length (st_trailing s) < 4 \<and> st_size s = length seen \<and> st_digest_input s = seen"

lemma stream_chunk_inv:
  assumes "stream_inv s seen"
  shows "stream_inv (stream_chunk s chunk) (seen @ chunk)"
proof -
  from assms obtain whole where w: "seen = whole @ st_trailing s" "length whole mod 4 = 0"
    "st_checksum s = weighted_sum 0 whole"
    and rest: "st_size s = length seen" "st_digest_input s = seen"
    by (auto simp: stream_inv_def)
  define words where "words = st_trailing s @ chunk"
  define n where "n = length words - length words mod 4"
  have n: "n mod 4 = 0" "n \<le> length words" "length words - n < 4"
    by (simp_all add: n_def minus_mod_eq_mult_div)
  let ?new = "take n words"
  have "add_words ?new (st_checksum s) = (st_checksum s + weighted_sum (length whole) ?new) mod 2 ^ 32"
    using n w(2) weighted_sum_less [of 0 whole] by (intro add_words_weighted) (simp_all add: w(3))
  then have c: "(if n \<noteq> 0 then add_words ?new (st_checksum s) else st_checksum s) =
      weighted_sum 0 (whole @ ?new)"
    using weighted_sum_less [of 0 whole] weighted_sum_append [of 0 whole ?new]
    by (cases "n = 0") (simp_all add: w(3))
  have "seen @ chunk = (whole @ ?new) @ drop n words"
    unfolding append.assoc append_take_drop_id by (simp add: w(1) words_def)
  moreover have "length (whole @ ?new) mod 4 = 0" using n w(2) by simp presburger
  moreover have "st_checksum (stream_chunk s chunk) = weighted_sum 0 (whole @ ?new)"
    "st_trailing (stream_chunk s chunk) = drop n words"
    "st_size (stream_chunk s chunk) = length (seen @ chunk)"
    "st_digest_input (stream_chunk s chunk) = seen @ chunk"
    using c rest by (simp_all only: stream_chunk_def Let_def stream_state.simps length_append
        flip: words_def n_def)
  ultimately show ?thesis
    using n(3) unfolding stream_inv_def by (intro conjI exI [of _ "whole @ ?new"]) simp_all
qed

lemma stream_chunks_inv:
  "stream_inv s seen \<Longrightarrow> stream_inv (foldl stream_chunk s chunks) (seen @ concat chunks)"
proof (induction chunks arbitrary: s seen)
  case Nil
  then show ?case by simp
next
  case (Cons c cs)
  from stream_chunk_inv [OF Cons.prems, of c] have "stream_inv (stream_chunk s c) (seen @ c)" .
  from Cons.IH [OF this] show ?case by simp
qed

text \<open>Padding an incomplete word with zero bytes does not change the weighted sum.\<close>

lemma weighted_sum_pad: "weighted_sum p (xs @ replicate k 0) = weighted_sum p xs"
  using weighted_sum_less [of p xs]
  by (simp add: weighted_sum_append) (simp add: weighted_sum_def [of _ "replicate k 0"])

lemma stream_tail:
  assumes "length whole mod 4 = 0" "length rest < 4" "rest \<noteq> []"
  shows "add_u32 (weighted_sum 0 whole) (be_val (rest @ replicate (4 - length rest) 0)) =
    weighted_sum 0 (whole @ rest)"
proof -
  let ?w = "rest @ replicate (4 - length rest) 0"
  obtain a b c d where w: "?w = [a, b, c, d]"
  proof -
    have "length ?w = Suc (Suc (Suc (Suc 0)))" using assms(2) by simp
    then show ?thesis using that by (auto simp: length_Suc_conv simp del: length_append)
  qed
  have "add_words ?w (weighted_sum 0 whole) =
      (weighted_sum 0 whole + weighted_sum (length whole) ?w) mod 2 ^ 32"
    using assms weighted_sum_less [of 0 whole] by (intro add_words_weighted) simp_all
  moreover have "add_words ?w (weighted_sum 0 whole) = add_u32 (weighted_sum 0 whole) (be_val ?w)"
    unfolding w by simp
  moreover have "weighted_sum (length whole) ?w = weighted_sum (length whole) rest"
    by (rule weighted_sum_pad)
  ultimately show ?thesis by (simp add: weighted_sum_append)
qed

lemma stream_bundle_weighted:
  "stream_bundle_integrity sha256 chunks =
     (length (concat chunks), sha256 (concat chunks), weighted_sum 0 (concat chunks))"
proof -
  let ?s0 = "\<lparr> st_checksum = 0, st_size = 0, st_trailing = [], st_digest_input = [] \<rparr>"
  define s where "s = foldl stream_chunk ?s0 chunks"
  have "stream_inv ?s0 []" by (simp add: stream_inv_def weighted_sum_def)
  from stream_chunks_inv [OF this, of chunks] have "stream_inv s (concat chunks)"
    by (simp add: s_def)
  then obtain whole where w: "concat chunks = whole @ st_trailing s" "length whole mod 4 = 0"
    "st_checksum s = weighted_sum 0 whole" and t: "length (st_trailing s) < 4"
    and rest: "st_size s = length (concat chunks)" "st_digest_input s = concat chunks"
    by (auto simp: stream_inv_def)
  show ?thesis
    using stream_tail [OF w(2) t] w rest
    by (auto simp: stream_bundle_integrity_def Let_def simp flip: s_def)
qed

section \<open>Properties\<close>

text \<open>
  C30: \<^verbatim>\<open>cfdp_checksum\<close> of a byte range is the sum modulo 2^32 of its bytes, each weighted by
  its position in the file (2^24, 2^16, 2^8 or 1), whatever the alignment of the range; it
  raises exactly when the offset does not fit U32 or the range ends past the file.
\<close>

theorem cfdp_checksum_spec:
  "cfdp_checksum data offset fs =
     (if offset < 0 \<or> offset > 0xFFFFFFFF
      then Inl (ValueError ''checksum offset must be non-negative U32'')
      else if case fs of None \<Rightarrow> False | Some s \<Rightarrow> s < offset + int (length data)
      then Inl (ValueError ''file_size cannot be smaller than the supplied range'')
      else Inr (int ((\<Sum>i < length data.
             unat (data ! i) * 256 ^ (3 - (nat offset + i) mod 4)) mod 2 ^ 32)))"
proof -
  have w: "(\<Sum>i < length data. unat (data ! i) * 256 ^ (3 - (nat offset + i) mod 4)) mod 2 ^ 32 =
      weighted_sum (nat offset) data"
    by (simp add: weighted_sum_def position_weight_def)
  show ?thesis
    using cfdp_checksum_weighted [of offset data fs] unfolding w
    by (auto simp: cfdp_checksum_def Let_def not_less split: option.splits)
qed

text \<open>
  Checksums of consecutive ranges add up: the checksum of a file is the sum modulo 2^32
  of the checksums of its pieces taken at their offsets, so the order in which the pieces
  arrive does not matter.
\<close>

theorem cfdp_checksum_pieces:
  assumes "0 \<le> offset" "offset + int (length xs) \<le> 0xFFFFFFFF"
    and "cfdp_checksum xs offset None = Inr a"
    and "cfdp_checksum ys (offset + int (length xs)) None = Inr b"
  shows "cfdp_checksum (xs @ ys) offset None = Inr ((a + b) mod 2 ^ 32)"
proof -
  have o: "nat (offset + int (length xs)) = nat offset + length xs" using assms(1) by simp
  have a: "a = int (weighted_sum (nat offset) xs)"
    using assms(1-3) cfdp_checksum_weighted [of offset xs None] by simp
  have b: "b = int (weighted_sum (nat offset + length xs) ys)"
    using assms(1,2,4) cfdp_checksum_weighted [of "offset + int (length xs)" ys None] o by simp
  show ?thesis
    using assms(1,2) cfdp_checksum_weighted [of offset "xs @ ys" None]
    by (simp add: weighted_sum_append a b zmod_int)
qed

lemma cfdp_checksum_pieces_witness:
  "cfdp_checksum ([0xFF, 0xFF, 0xFF] @ [0xFF, 1, 2]) 0 None = Inr ((0xFFFFFF00 + 0x010200FF) mod 2 ^ 32)"
proof (rule cfdp_checksum_pieces)
  show "cfdp_checksum [0xFF, 0xFF, 0xFF] 0 None = Inr 0xFFFFFF00"
    unfolding cfdp_checksum_spec by (simp add: lessThan_nat_numeral lessThan_Suc)
  show "cfdp_checksum [0xFF, 1, 2] (0 + int (length [0xFF, 0xFF, 0xFF :: byte])) None = Inr 0x010200FF"
    unfolding cfdp_checksum_spec by (simp add: lessThan_nat_numeral lessThan_Suc)
qed simp_all

text \<open>
  C31: The streaming reader of the flight side agrees with \<^verbatim>\<open>cfdp_checksum\<close>. However the
  bundle is cut into chunks, \<^verbatim>\<open>stream_bundle_integrity\<close> returns the length, the digest and
  the checksum of the whole file at offset 0.
\<close>

theorem stream_bundle_agrees:
  "let (size, digest, checksum) = stream_bundle_integrity sha256 chunks in
     size = length (concat chunks) \<and> digest = sha256 (concat chunks) \<and>
     cfdp_checksum (concat chunks) 0 None = Inr (int checksum)"
  by (simp add: stream_bundle_weighted cfdp_checksum_weighted)

end
