(* ===== verification/ContactSchedule.thy ===== *)
theory ContactSchedule
  imports Interfaces
begin

text \<open>
  Simulation time (\<^verbatim>\<open>link_sim/virtual_clock.py\<close>, \<^verbatim>\<open>SimulationTime\<close>) and the schedule of contact
  windows with the bandwidth profile (\<^verbatim>\<open>link_sim/contact_schedule.py\<close>). A time is the integer
  number of nanoseconds it holds; its comparisons are those of the integers.
\<close>

section \<open>Simulation time\<close>

type_synonym sim_time = int

definition MAX_TIME :: int where "MAX_TIME = 2 ^ 64 - 1"

definition simulation_time :: "int \<Rightarrow> sim_time res" where
  "simulation_time ns =
     (if ns < 0 then Inl (ValueError ''Simulation time cannot be negative'')
      else if ns > MAX_TIME then Inl (ValueError ''Simulation time overflow'')
      else Inr ns)"

definition time_add :: "sim_time \<Rightarrow> int \<Rightarrow> sim_time res" where
  "time_add t delta_ns =
     (let result = t + delta_ns in
      if result < 0 \<or> result > MAX_TIME then Inl (OverflowError ''Time arithmetic overflow'')
      else simulation_time result)"

definition time_sub :: "sim_time \<Rightarrow> sim_time \<Rightarrow> int" where
  "time_sub t u = t - u"

lemma time_add_Inr: "time_add t d = Inr u \<longleftrightarrow> u = t + d \<and> 0 \<le> u \<and> u \<le> MAX_TIME"
  by (auto simp: time_add_def simulation_time_def Let_def)

section \<open>Contact windows\<close>

datatype contact_state = CONTACT_OPEN | NO_CONTACT | BLACKOUT

record contact_window =
  cw_start_time :: sim_time
  cw_end_time :: sim_time
  cw_state :: contact_state

definition cw_contains :: "contact_window \<Rightarrow> sim_time \<Rightarrow> bool" where
  "cw_contains w t \<longleftrightarrow> cw_start_time w \<le> t \<and> t < cw_end_time w"

record bandwidth_profile =
  bp_bitrate_bps :: int

definition bp_validate :: "bandwidth_profile \<Rightarrow> unit res" where
  "bp_validate p =
     (if bp_bitrate_bps p \<le> 0 then Inl (ValueError ''bitrate_bps must be > 0'') else Inr ())"

text \<open>Python's \<^verbatim>\<open>//\<close> floors, as \<open>div\<close> does, and raises on zero.\<close>

definition compute_tx_duration_ns :: "bandwidth_profile \<Rightarrow> int \<Rightarrow> int res" where
  "compute_tx_duration_ns p frame_bits =
     (if bp_bitrate_bps p = 0 then Inl ZeroDivisionError
      else Inr ((frame_bits * 10 ^ 9 + bp_bitrate_bps p - 1) div bp_bitrate_bps p))"

record contact_schedule =
  cs_windows :: "contact_window list"
  cs_bandwidth_profile :: "bandwidth_profile option"

definition cs_init :: "bandwidth_profile option \<Rightarrow> contact_schedule" where
  "cs_init p = \<lparr> cs_windows = [], cs_bandwidth_profile = p \<rparr>"

definition cs_default_state :: contact_state where
  "cs_default_state = CONTACT_OPEN"

definition cs_add_window ::
  "sim_time \<Rightarrow> sim_time \<Rightarrow> contact_state \<Rightarrow> contact_schedule \<Rightarrow> contact_schedule res" where
  "cs_add_window start_time end_time state s =
     (if end_time \<le> start_time then Inl (ValueError ''Invalid window'')
      else if list_ex (\<lambda>w. \<not> (end_time \<le> cw_start_time w \<or> start_time \<ge> cw_end_time w)) (cs_windows s)
      then Inl (ValueError ''Window overlaps existing'')
      else
        let window = \<lparr> cw_start_time = start_time, cw_end_time = end_time, cw_state = state \<rparr>
        in Inr (s\<lparr> cs_windows := sort_key cw_start_time (cs_windows s @ [window]) \<rparr>))"

fun state_in :: "contact_window list \<Rightarrow> sim_time \<Rightarrow> contact_state" where
  "state_in [] t = cs_default_state"
| "state_in (w # ws) t = (if cw_contains w t then cw_state w else state_in ws t)"

definition cs_get_state_at :: "contact_schedule \<Rightarrow> sim_time \<Rightarrow> contact_state" where
  "cs_get_state_at s t = state_in (cs_windows s) t"

fun next_change_in :: "contact_window list \<Rightarrow> sim_time \<Rightarrow> sim_time option" where
  "next_change_in [] t = None"
| "next_change_in (w # ws) t =
     (if cw_start_time w > t then Some (cw_start_time w)
      else if cw_end_time w > t then Some (cw_end_time w)
      else next_change_in ws t)"

definition cs_get_next_state_change :: "contact_schedule \<Rightarrow> sim_time \<Rightarrow> sim_time option" where
  "cs_get_next_state_change s t = next_change_in (cs_windows s) t"

definition cs_is_admission_allowed :: "contact_schedule \<Rightarrow> sim_time \<Rightarrow> bool" where
  "cs_is_admission_allowed s t \<longleftrightarrow> cs_get_state_at s t \<noteq> BLACKOUT"

definition cs_clear :: "contact_schedule \<Rightarrow> contact_schedule" where
  "cs_clear s = s\<lparr> cs_windows := [] \<rparr>"

definition cs_should_drop_frame :: "contact_schedule \<Rightarrow> sim_time \<Rightarrow> bool" where
  "cs_should_drop_frame s t \<longleftrightarrow> cs_get_state_at s t = BLACKOUT"

definition cs_get_bandwidth_budget :: "contact_schedule \<Rightarrow> int \<Rightarrow> int res" where
  "cs_get_bandwidth_budget s frame_bits =
     (case cs_bandwidth_profile s of None \<Rightarrow> Inr 0 | Some p \<Rightarrow> compute_tx_duration_ns p frame_bits)"

datatype schedule_op = AddWindow sim_time sim_time contact_state | ClearWindows

text \<open>A refused window leaves the schedule as it was.\<close>

fun cs_step :: "contact_schedule \<Rightarrow> schedule_op \<Rightarrow> contact_schedule" where
  "cs_step s (AddWindow a b st) = (case cs_add_window a b st s of Inl _ \<Rightarrow> s | Inr s' \<Rightarrow> s')"
| "cs_step s ClearWindows = cs_clear s"

section \<open>The invariant\<close>

text \<open>The windows are non-empty, and each ends before the next begins.\<close>

definition windows_ok :: "contact_window list \<Rightarrow> bool" where
  "windows_ok ws \<longleftrightarrow>
     (\<forall>w \<in> set ws. cw_start_time w < cw_end_time w) \<and>
     sorted_wrt (\<lambda>v w. cw_end_time v \<le> cw_start_time w) ws"

definition disjoint_from :: "contact_window \<Rightarrow> contact_window \<Rightarrow> bool" where
  "disjoint_from w v \<longleftrightarrow> cw_end_time w \<le> cw_start_time v \<or> cw_start_time w \<ge> cw_end_time v"

lemma windows_ok_Cons [simp]:
  "windows_ok (w # ws) \<longleftrightarrow> cw_start_time w < cw_end_time w \<and>
     (\<forall>v \<in> set ws. cw_end_time w \<le> cw_start_time v) \<and> windows_ok ws"
  by (auto simp: windows_ok_def)

lemma windows_ok_Nil [simp]: "windows_ok []"
  by (simp add: windows_ok_def)

lemma windows_ok_sorted: "windows_ok ws \<Longrightarrow> sorted (map cw_start_time ws)"
  by (induction ws) force+

lemma windows_ok_insort:
  assumes "windows_ok ws" "cw_start_time w < cw_end_time w" "\<forall>v \<in> set ws. disjoint_from w v"
  shows "windows_ok (insort_key cw_start_time w ws)"
  using assms
proof (induction ws)
  case Nil
  then show ?case by simp
next
  case (Cons v ws)
  then have v: "cw_start_time v < cw_end_time v" "disjoint_from w v" by simp_all
  show ?case
  proof (cases "cw_start_time w \<le> cw_start_time v")
    case True
    then have "cw_end_time w \<le> cw_start_time v" using v by (auto simp: disjoint_from_def)
    then show ?thesis using True Cons.prems by force
  next
    case False
    then have "cw_end_time v \<le> cw_start_time w" using v Cons.prems(2) by (auto simp: disjoint_from_def)
    then show ?thesis using False Cons by (auto simp: set_insort_key)
  qed
qed

lemma sort_key_append_sorted:
  assumes "sorted (map f xs)" and "\<forall>x \<in> set xs. f x \<noteq> f w"
  shows "sort_key f (xs @ [w]) = insort_key f w xs"
proof -
  have d: "sort_key f (xs @ [w]) = foldr (insort_key f) xs [w]" by (simp add: sort_key_def)
  have "foldr (insort_key f) xs [w] = insort_key f w xs"
    using assms
  proof (induction xs)
    case Nil
    then show ?case by simp
  next
    case (Cons x xs)
    then have IH: "foldr (insort_key f) xs [w] = insort_key f w xs" by simp
    have le: "\<forall>y \<in> set xs. f x \<le> f y" and ne: "f x \<noteq> f w" using Cons.prems by auto
    have "insort_key f x (insort_key f w xs) = insort_key f w (x # xs)"
    proof (cases "f w \<le> f x")
      case True
      have i: "insort_key f y ys = y # ys" if "\<forall>z \<in> set ys. f y \<le> f z" for y ys
        using that by (cases ys) simp_all
      have "insort_key f w xs = w # xs" using True le by (intro i) force
      then show ?thesis using True ne i [OF le] by simp
    next
      case False
      then have "\<forall>y \<in> set (insort_key f w xs). f x \<le> f y" using le by (auto simp: set_insort_key)
      then have "insort_key f x (insort_key f w xs) = x # insort_key f w xs"
        by (cases "insort_key f w xs") simp_all
      then show ?thesis using False by simp
    qed
    then show ?case using IH by simp
  qed
  with d show ?thesis by simp
qed

lemma cs_add_window_Inr:
  assumes "windows_ok (cs_windows s)" and "cs_add_window a b st s = Inr s'"
  defines "w \<equiv> \<lparr> cw_start_time = a, cw_end_time = b, cw_state = st \<rparr>"
  shows "cs_windows s' = insort_key cw_start_time w (cs_windows s)" and "windows_ok (cs_windows s')"
    and "\<forall>v \<in> set (cs_windows s). disjoint_from w v"
proof -
  from assms(2) have ab: "a < b" and d: "\<forall>v \<in> set (cs_windows s). disjoint_from w v"
    and s': "cs_windows s' = sort_key cw_start_time (cs_windows s @ [w])"
    by (auto simp: cs_add_window_def w_def disjoint_from_def list_ex_iff Let_def split: if_splits)
  have w: "cw_start_time w = a" "cw_end_time w = b" by (simp_all add: w_def)
  have "\<forall>v \<in> set (cs_windows s). cw_start_time v < cw_end_time v" using assms(1) by (simp add: windows_ok_def)
  then have "\<forall>v \<in> set (cs_windows s). cw_start_time v \<noteq> cw_start_time w"
    using d ab unfolding disjoint_from_def w by (metis not_less order_le_less_trans order_less_le_trans)
  with assms(1) show "cs_windows s' = insort_key cw_start_time w (cs_windows s)"
    unfolding s' by (intro sort_key_append_sorted windows_ok_sorted)
  with assms(1) ab d show "windows_ok (cs_windows s')" by (simp add: windows_ok_insort w)
  show "\<forall>v \<in> set (cs_windows s). disjoint_from w v" by (rule d)
qed

interpretation cs: op_system cs_step "\<lambda>s. windows_ok (cs_windows s)"
proof unfold_locales
  fix s :: contact_schedule and op
  assume ok: "windows_ok (cs_windows s)"
  show "windows_ok (cs_windows (cs_step s op))"
  proof (cases op)
    case (AddWindow a b st)
    then show ?thesis using cs_add_window_Inr(2) [OF ok, of a b st] ok by (auto split: sum.split)
  qed (simp add: cs_clear_def)
qed

lemma state_in_member:
  "windows_ok ws \<Longrightarrow> w \<in> set ws \<Longrightarrow> cw_contains w t \<Longrightarrow> state_in ws t = cw_state w"
  by (induction ws) (force simp: cw_contains_def windows_ok_def)+

lemma state_in_none: "\<forall>w \<in> set ws. \<not> cw_contains w t \<Longrightarrow> state_in ws t = cs_default_state"
  by (induction ws) simp_all

lemma next_change_bounds:
  "windows_ok ws \<Longrightarrow> next_change_in ws t = Some u \<Longrightarrow> t < u \<and>
     (\<exists>w \<in> set ws. u = cw_start_time w \<or> u = cw_end_time w) \<and>
     (\<forall>w \<in> set ws. (cw_start_time w > t \<longrightarrow> cw_start_time w \<ge> u) \<and> (cw_end_time w > t \<longrightarrow> cw_end_time w \<ge> u))"
proof (induction ws)
  case Nil
  then show ?case by simp
next
  case (Cons w ws)
  have later: "cw_end_time w \<le> cw_start_time v \<and> cw_start_time v < cw_end_time v" if "v \<in> set ws" for v
    using Cons.prems(1) that by (simp add: windows_ok_def)
  have w: "cw_start_time w < cw_end_time w" using Cons.prems(1) by simp
  consider "cw_start_time w > t" | "cw_start_time w \<le> t" "cw_end_time w > t" | "cw_end_time w \<le> t"
    by linarith
  then show ?case
  proof cases
    case 1
    then show ?thesis using Cons.prems(2) later w by (auto intro: order.strict_implies_order dest!: later)
  next
    case 2
    then show ?thesis using Cons.prems(2) w by (auto dest!: later)
  next
    case 3
    then have "next_change_in ws t = Some u" using Cons.prems(2) w by simp
    with Cons.IH Cons.prems(1) 3 w show ?thesis by auto
  qed
qed

lemma next_change_none:
  "windows_ok ws \<Longrightarrow> next_change_in ws t = None \<Longrightarrow> \<forall>w \<in> set ws. cw_end_time w \<le> t"
  by (induction ws) (force split: if_splits)+

text \<open>Where no window begins or ends, the state stays.\<close>

lemma state_in_constant:
  assumes ok: "windows_ok ws" and "t \<le> u"
    and "\<forall>w \<in> set ws. (cw_start_time w > t \<longrightarrow> cw_start_time w > u) \<and> (cw_end_time w > t \<longrightarrow> cw_end_time w > u)"
  shows "state_in ws u = state_in ws t"
proof -
  have "cw_contains w u = cw_contains w t" if "w \<in> set ws" for w
    using assms(2) bspec [OF assms(3) that] by (auto simp: cw_contains_def)
  then show ?thesis
  proof (induction ws)
    case (Cons w ws)
    then show ?case by simp
  qed simp
qed

section \<open>Properties\<close>

text \<open>
  C28: For every schedule built by \<^verbatim>\<open>add_window\<close> and \<^verbatim>\<open>clear\<close>, \<^verbatim>\<open>get_state_at\<close> is the state of the
  one window that contains the time and CONTACT_OPEN outside all windows, and
  \<^verbatim>\<open>get_next_state_change\<close> misses no change: the state is constant up to the time it returns,
  which is later and is the start or the end of a window, and constant for ever when it
  returns None.
\<close>

theorem contact_schedule_exact:
  "let s = run_ops cs_step (cs_init p) ops in
     (\<forall>w \<in> set (cs_windows s). cw_contains w t \<longrightarrow> cs_get_state_at s t = cw_state w) \<and>
     ((\<forall>w \<in> set (cs_windows s). \<not> cw_contains w t) \<longrightarrow> cs_get_state_at s t = CONTACT_OPEN) \<and>
     (case cs_get_next_state_change s t of
        None \<Rightarrow> \<forall>u \<ge> t. cs_get_state_at s u = cs_get_state_at s t
      | Some n \<Rightarrow> t < n \<and> (\<exists>w \<in> set (cs_windows s). n = cw_start_time w \<or> n = cw_end_time w) \<and>
          (\<forall>u. t \<le> u \<and> u < n \<longrightarrow> cs_get_state_at s u = cs_get_state_at s t))"
proof -
  define s where "s = run_ops cs_step (cs_init p) ops"
  have "windows_ok (cs_windows (cs_init p))" by (simp add: cs_init_def)
  then have ok: "windows_ok (cs_windows s)" unfolding s_def by (rule cs.inv_run)
  have "case cs_get_next_state_change s t of
        None \<Rightarrow> \<forall>u \<ge> t. cs_get_state_at s u = cs_get_state_at s t
      | Some n \<Rightarrow> t < n \<and> (\<exists>w \<in> set (cs_windows s). n = cw_start_time w \<or> n = cw_end_time w) \<and>
          (\<forall>u. t \<le> u \<and> u < n \<longrightarrow> cs_get_state_at s u = cs_get_state_at s t)"
  proof (cases "next_change_in (cs_windows s) t")
    case None
    have start: "cw_start_time w < cw_end_time w" if "w \<in> set (cs_windows s)" for w
      using ok that by (simp add: windows_ok_def)
    have "\<not> cw_start_time w > t \<and> \<not> cw_end_time w > t" if "w \<in> set (cs_windows s)" for w
      using next_change_none [OF ok None] start [OF that] that by fastforce
    then have "cs_get_state_at s u = cs_get_state_at s t" if "t \<le> u" for u
      unfolding cs_get_state_at_def by (intro state_in_constant [OF ok that]) blast
    then show ?thesis unfolding cs_get_next_state_change_def None option.case by blast
  next
    case (Some n)
    note b = next_change_bounds [OF ok Some]
    have "cs_get_state_at s u = cs_get_state_at s t" if "t \<le> u" "u < n" for u
      unfolding cs_get_state_at_def
    proof (rule state_in_constant [OF ok that(1)], intro ballI conjI impI)
      fix w
      assume w: "w \<in> set (cs_windows s)"
      note bw = bspec [OF conjunct2 [OF conjunct2 [OF b]] w]
      show "t < cw_start_time w \<Longrightarrow> u < cw_start_time w" "t < cw_end_time w \<Longrightarrow> u < cw_end_time w"
        using bw that(2) by simp_all
    qed
    with b show ?thesis unfolding cs_get_next_state_change_def Some option.case by blast
  qed
  then show ?thesis
    unfolding Let_def s_def [symmetric]
    using state_in_member [OF ok] state_in_none [of "cs_windows s" t]
    by (simp add: cs_get_state_at_def cs_default_state_def)
qed

lemma contact_schedule_exact_witness:
  "let s = run_ops cs_step (cs_init None) [AddWindow 50 60 BLACKOUT, AddWindow 10 20 NO_CONTACT] in
     cs_get_state_at s 49 = cs_get_state_at s 20"
proof -
  define s where "s = run_ops cs_step (cs_init None) [AddWindow 50 60 BLACKOUT, AddWindow 10 20 NO_CONTACT]"
  have n: "cs_get_next_state_change s 20 = Some 50" unfolding s_def by code_simp
  from contact_schedule_exact [of None "[AddWindow 50 60 BLACKOUT, AddWindow 10 20 NO_CONTACT]" 20]
  have "\<forall>u. 20 \<le> u \<and> u < 50 \<longrightarrow> cs_get_state_at s u = cs_get_state_at s 20"
    unfolding Let_def s_def [symmetric] n option.case by blast
  then have "cs_get_state_at s 49 = cs_get_state_at s 20" by (elim allE [of _ 49]) simp
  then show ?thesis unfolding Let_def s_def [symmetric] .
qed

text \<open>
  The transmission time of a frame is the least number of nanoseconds in which the link
  carries its bits: not one bit is sent faster than the bit rate allows, and no nanosecond
  is wasted.
\<close>

theorem tx_duration_least:
  assumes "bp_validate p = Inr ()" and "compute_tx_duration_ns p bits = Inr d"
  shows "bits * 10 ^ 9 \<le> e * bp_bitrate_bps p \<longleftrightarrow> d \<le> e"
proof -
  let ?r = "bp_bitrate_bps p"
  have r: "0 < ?r" using assms(1) by (simp add: bp_validate_def split: if_splits)
  have d: "d = (bits * 10 ^ 9 + ?r - 1) div ?r" using assms(2) r by (simp add: compute_tx_duration_ns_def)
  have "d \<le> e \<longleftrightarrow> bits * 10 ^ 9 + ?r - 1 < (e + 1) * ?r"
    unfolding d by (rule floor_le_iff_less [OF r])
  also have "(e + 1) * ?r = e * ?r + ?r" by (simp add: algebra_simps)
  also have "bits * 10 ^ 9 + ?r - 1 < e * ?r + ?r \<longleftrightarrow> bits * 10 ^ 9 \<le> e * ?r" by linarith
  finally show ?thesis ..
qed

lemma tx_duration_least_witness:
  "(8192 :: int) * 10 ^ 9 \<le> 853333333 * 9600 \<longleftrightarrow> (853333334 :: int) \<le> 853333333"
  using tx_duration_least [of "\<lparr> bp_bitrate_bps = 9600 \<rparr>" 8192 853333334 853333333]
  by (simp add: bp_validate_def compute_tx_duration_ns_def)

end
