(* ===== verification/JsonText.thy ===== *)
theory JsonText
  imports CanonicalValues
begin

text \<open>
  \<^verbatim>\<open>json.loads\<close> of the standard library, on \<^verbatim>\<open>str\<close>: the reader of the control messages, of the
  session handshake and of the START metadata. Numbers with a fraction or an exponent are floats,
  of which only finiteness is kept; a repeated key keeps its place and takes the last value.
\<close>

section \<open>Scanning\<close>

definition json_error :: pyerr where
  "json_error = ValueError ''JSONDecodeError''"

definition is_ws :: "nat \<Rightarrow> bool" where
  "is_ws c \<longleftrightarrow> c = 32 \<or> c = 9 \<or> c = 10 \<or> c = 13"

definition skip_ws :: "ustr \<Rightarrow> ustr" where
  "skip_ws cs = dropWhile is_ws cs"

definition hex_code :: "nat \<Rightarrow> nat option" where
  "hex_code c =
     (if 48 \<le> c \<and> c \<le> 57 then Some (c - 48)
      else if 97 \<le> c \<and> c \<le> 102 then Some (c - 87)
      else if 65 \<le> c \<and> c \<le> 70 then Some (c - 55) else None)"

fun unhex4 :: "ustr \<Rightarrow> (nat \<times> ustr) option" where
  "unhex4 (a # b # c # d # rest) =
     (case (hex_code a, hex_code b, hex_code c, hex_code d) of
        (Some a, Some b, Some c, Some d) \<Rightarrow> Some (((a * 16 + b) * 16 + c) * 16 + d, rest)
      | _ \<Rightarrow> None)"
| "unhex4 _ = None"

definition unescape :: "nat \<Rightarrow> nat option" where
  "unescape c =
     (if c = 34 \<or> c = 92 \<or> c = 47 then Some c
      else if c = 98 then Some 8 else if c = 102 then Some 12 else if c = 110 then Some 10
      else if c = 114 then Some 13 else if c = 116 then Some 9 else None)"

text \<open>The next character of a string: \<open>Some None\<close> is the closing quote.\<close>

definition json_next :: "ustr \<Rightarrow> (nat option \<times> ustr) option" where
  "json_next cs =
     (case cs of
        [] \<Rightarrow> None
      | c # rest \<Rightarrow>
          if c = 34 then Some (None, rest)
          else if c < 32 then None
          else if c \<noteq> 92 then Some (Some c, rest)
          else case rest of
            [] \<Rightarrow> None
          | e # rest \<Rightarrow>
              if e \<noteq> 117 then map_option (\<lambda>u. (Some u, rest)) (unescape e)
              else case unhex4 rest of
                None \<Rightarrow> None
              | Some (u, rest) \<Rightarrow>
                  if 0xD800 \<le> u \<and> u \<le> 0xDBFF \<and> take 2 rest = [92, 117]
                  then case unhex4 (drop 2 rest) of
                         None \<Rightarrow> None
                       | Some (l, rest') \<Rightarrow>
                           if 0xDC00 \<le> l \<and> l \<le> 0xDFFF
                           then Some (Some (0x10000 + (u - 0xD800) * 1024 + (l - 0xDC00)), rest')
                           else Some (Some u, rest)
                  else Some (Some u, rest))"

lemma unhex4_shorter: "unhex4 cs = Some (u, rest) \<Longrightarrow> length rest < length cs"
  by (induction cs rule: unhex4.induct) (auto split: option.splits)

lemma json_next_shorter: "json_next cs = Some (c, rest) \<Longrightarrow> length rest < length cs"
  by (auto simp: json_next_def split: list.splits if_splits option.splits prod.splits dest!: unhex4_shorter)

function json_chars :: "ustr \<Rightarrow> (ustr \<times> ustr) res" where
  "json_chars cs =
     (case json_next cs of
        None \<Rightarrow> Inl json_error
      | Some (None, rest) \<Rightarrow> Inr ([], rest)
      | Some (Some c, rest) \<Rightarrow> rbind (json_chars rest) (\<lambda>(s, rest). Inr (c # s, rest)))"
  by auto
termination
  by (relation "measure length") (auto dest: json_next_shorter)

declare json_chars.simps [simp del]

section \<open>Numbers\<close>

definition is_digit :: "nat \<Rightarrow> bool" where
  "is_digit c \<longleftrightarrow> 48 \<le> c \<and> c \<le> 57"

definition dec_val :: "ustr \<Rightarrow> nat" where
  "dec_val ds = foldl (\<lambda>a d. a * 10 + (d - 48)) 0 ds"

text \<open>Whether \<open>m * 10 ^ e\<close> rounds to a finite double.\<close>

definition float_finite :: "nat \<Rightarrow> int \<Rightarrow> bool" where
  "float_finite m e \<longleftrightarrow>
     (if 0 \<le> e then int m * 10 ^ nat e < 2 ^ 1024 - 2 ^ 970 else int m < (2 ^ 1024 - 2 ^ 970) * 10 ^ nat (- e))"

definition json_fraction :: "ustr \<Rightarrow> ustr \<times> ustr" where
  "json_fraction cs =
     (case cs of
        [] \<Rightarrow> ([], [])
      | c # rest \<Rightarrow> if c = 46 \<and> takeWhile is_digit rest \<noteq> []
                    then (takeWhile is_digit rest, dropWhile is_digit rest) else ([], cs))"

definition json_exponent :: "ustr \<Rightarrow> int option \<times> ustr" where
  "json_exponent cs =
     (case cs of
        [] \<Rightarrow> (None, [])
      | c # rest \<Rightarrow>
          if c \<noteq> 101 \<and> c \<noteq> 69 then (None, cs)
          else
            let signed = rest \<noteq> [] \<and> (hd rest = 43 \<or> hd rest = 45);
                digits = (if signed then tl rest else rest);
                ds = takeWhile is_digit digits
            in if ds = [] then (None, cs)
               else (Some (if signed \<and> hd rest = 45 then - int (dec_val ds) else int (dec_val ds)),
                     dropWhile is_digit digits))"

definition json_number :: "ustr \<Rightarrow> (py_value \<times> ustr) res" where
  "json_number cs =
     (let negative = (cs \<noteq> [] \<and> hd cs = 45);
          body = (if negative then tl cs else cs);
          ds = takeWhile is_digit body
      in if ds = [] then Inl json_error
         else
           let int_digits = (if hd ds = 48 then [48] else ds);
               (fraction, rest) = json_fraction (drop (length int_digits) body);
               (exponent, rest) = json_exponent rest
           in if fraction = [] \<and> exponent = None
              then if length int_digits > 4300
                   then Inl (ValueError ''Exceeds the limit (4300 digits) for integer string conversion'')
                   else Inr (PInt (if negative then - int (dec_val int_digits) else int (dec_val int_digits)), rest)
              else Inr (PFloat (float_finite (dec_val (int_digits @ fraction))
                     ((case exponent of None \<Rightarrow> 0 | Some e \<Rightarrow> e) - int (length fraction))), rest))"

section \<open>Values\<close>

definition json_literals :: "(ustr \<times> py_value) list" where
  "json_literals =
     [(ustr ''null'', PNone), (ustr ''true'', PBool True), (ustr ''false'', PBool False),
      (ustr ''NaN'', PFloat False), (ustr ''Infinity'', PFloat False), (ustr ''-Infinity'', PFloat False)]"

definition json_literal :: "ustr \<Rightarrow> (py_value \<times> ustr) option" where
  "json_literal cs =
     map_option (\<lambda>(text, v). (v, drop (length text) cs))
       (find (\<lambda>(text, v). take (length text) cs = text) json_literals)"

text \<open>The first argument bounds the calls that are nested.\<close>

fun json_value :: "nat \<Rightarrow> ustr \<Rightarrow> (py_value \<times> ustr) res"
  and json_elements :: "nat \<Rightarrow> ustr \<Rightarrow> (py_value list \<times> ustr) res"
  and json_members :: "nat \<Rightarrow> (py_value \<times> py_value) list \<Rightarrow> ustr \<Rightarrow> ((py_value \<times> py_value) list \<times> ustr) res" where
  "json_value 0 cs = Inl (RuntimeError ''maximum recursion depth exceeded'')"
| "json_value (Suc n) cs =
     (if cs = [] then Inl json_error
      else if hd cs = 34 then rbind (json_chars (tl cs)) (\<lambda>(s, rest). Inr (PStr s, rest))
      else if hd cs = 123 then
        let rest = skip_ws (tl cs) in
        if rest \<noteq> [] \<and> hd rest = 125 then Inr (PDict [], tl rest)
        else rbind (json_members n [] rest) (\<lambda>(es, rest). Inr (PDict es, rest))
      else if hd cs = 91 then
        let rest = skip_ws (tl cs) in
        if rest \<noteq> [] \<and> hd rest = 93 then Inr (PList [], tl rest)
        else rbind (json_elements n rest) (\<lambda>(xs, rest). Inr (PList xs, rest))
      else case json_literal cs of
        Some (v, rest) \<Rightarrow> Inr (v, rest)
      | None \<Rightarrow> json_number cs)"
| "json_elements 0 cs = Inl (RuntimeError ''maximum recursion depth exceeded'')"
| "json_elements (Suc n) cs =
     rbind (json_value n cs) (\<lambda>(v, rest).
       case skip_ws rest of
         [] \<Rightarrow> Inl json_error
       | c # rest \<Rightarrow>
           if c = 93 then Inr ([v], rest)
           else if c \<noteq> 44 then Inl json_error
           else rbind (json_elements n (skip_ws rest)) (\<lambda>(vs, rest). Inr (v # vs, rest)))"
| "json_members 0 es cs = Inl (RuntimeError ''maximum recursion depth exceeded'')"
| "json_members (Suc n) es cs =
     (if cs = [] \<or> hd cs \<noteq> 34 then Inl json_error
      else rbind (json_chars (tl cs)) (\<lambda>(k, rest).
        case skip_ws rest of
          [] \<Rightarrow> Inl json_error
        | c # rest \<Rightarrow>
            if c \<noteq> 58 then Inl json_error
            else rbind (json_value n (skip_ws rest)) (\<lambda>(v, rest).
              case skip_ws rest of
                [] \<Rightarrow> Inl json_error
              | c # rest \<Rightarrow>
                  if c = 125 then Inr (dput (PStr k) v es, rest)
                  else if c \<noteq> 44 then Inl json_error
                  else json_members n (dput (PStr k) v es) (skip_ws rest))))"

definition json_loads :: "ustr \<Rightarrow> py_value res" where
  "json_loads cs =
     (if cs \<noteq> [] \<and> hd cs = 0xFEFF then Inl json_error
      else rbind (json_value (2 * length cs + 2) (skip_ws cs)) (\<lambda>(v, rest).
        if skip_ws rest \<noteq> [] then Inl json_error else Inr v))"

section \<open>Reading back what was written\<close>

text \<open>The values whose text is read back: no floats, no bytes, scalar characters, distinct keys.\<close>

definition int_readable :: "int \<Rightarrow> bool" where
  "int_readable i \<longleftrightarrow> length (nat_text (nat \<bar>i\<bar>)) \<le> 4300"

fun json_ok :: "py_value \<Rightarrow> bool" where
  "json_ok PNone = True"
| "json_ok (PBool _) = True"
| "json_ok (PInt i) = int_readable i"
| "json_ok (PFloat _) = False"
| "json_ok (PStr s) = list_all is_scalar s"
| "json_ok (PBytes _) = False"
| "json_ok (PList xs) = list_all json_ok xs"
| "json_ok (PDict es) = (distinct (map fst es) \<and> list_all (\<lambda>(k, v). is_str k \<and> json_ok k \<and> json_ok v) es)"

fun json_norm :: "py_value \<Rightarrow> py_value" where
  "json_norm (PList xs) = PList (map json_norm xs)"
| "json_norm (PDict es) = PDict (map (\<lambda>(k, v). (k, json_norm v)) (sort_key (\<lambda>(k, _). str_of k) es))"
| "json_norm v = v"

lemma hex_code_digit: "d < 16 \<Longrightarrow> hex_code (of_char (hex_digit d)) = Some d"
proof -
  have "\<forall>d \<in> set [0..<16]. hex_code (of_char (hex_digit d)) = Some d" by code_simp
  then show "d < 16 \<Longrightarrow> ?thesis" by simp
qed

lemma unhex4_pad: "v < 65536 \<Longrightarrow> unhex4 (ustr (hex_pad 4 v) @ rest) = Some (v, rest)"
proof -
  assume v: "v < 65536"
  define a b c d where "a = v div 16 div 16 div 16 mod 16" "b = v div 16 div 16 mod 16" "c = v div 16 mod 16" "d = v mod 16"
  note abcd = this
  have "hex_pad 4 v = hex_pad (Suc (Suc (Suc (Suc 0)))) v" by (rule arg_cong [where f = "\<lambda>n. hex_pad n v"]) simp
  then have "ustr (hex_pad 4 v) = map of_char [hex_digit a, hex_digit b, hex_digit c, hex_digit d]"
    by (simp only: hex_pad.simps append.simps ustr_def abcd)
  moreover have "((a * 16 + b) * 16 + c) * 16 + d = v"
  proof -
    have "v div 16 < 4096" using v by (intro less_mult_imp_div_less) simp
    then have "v div 16 div 16 < 256" by (intro less_mult_imp_div_less) simp
    then have "v div 16 div 16 div 16 < 16" by (intro less_mult_imp_div_less) simp
    then have "a = v div 16 div 16 div 16" by (simp only: abcd mod_less)
    then show ?thesis by (simp only: abcd div_mult_mod_eq)
  qed
  moreover have "a < 16" "b < 16" "c < 16" "d < 16" by (simp_all add: abcd)
  ultimately show ?thesis by (simp add: hex_code_digit)
qed

lemma json_next_u: "v < 65536 \<Longrightarrow> \<not> (0xD800 \<le> v \<and> v \<le> 0xDBFF) \<Longrightarrow> json_next (hex4 v @ rest) = Some (Some v, rest)"
  using unhex4_pad [of v rest] by (auto simp: json_next_def hex4_def)

lemma json_next_pair:
  assumes "0x10000 \<le> c" "c < 0x110000"
  shows "json_next (hex4 (0xD800 + (c - 0x10000) div 1024) @ hex4 (0xDC00 + (c - 0x10000) mod 1024) @ rest) = Some (Some c, rest)"
proof -
  define h l where "h = (c - 0x10000) div 1024" "l = (c - 0x10000) mod 1024"
  note hl = this
  have b: "h < 1024" "l < 1024" using assms by (simp_all add: hl)
  have c: "0x10000 + h * 1024 + l = c" using assms by (simp add: hl)
  have "unhex4 (ustr (hex_pad 4 (0xD800 + h)) @ hex4 (0xDC00 + l) @ rest) = Some (0xD800 + h, hex4 (0xDC00 + l) @ rest)"
    using b by (intro unhex4_pad) simp
  moreover have "unhex4 (drop 2 (hex4 (0xDC00 + l) @ rest)) = Some (0xDC00 + l, rest)"
    using b unhex4_pad [of "0xDC00 + l" rest] by (simp add: hex4_def)
  moreover have "take 2 (hex4 (0xDC00 + l) @ rest) = [92, 117]" by (simp add: hex4_def)
  ultimately show ?thesis using b c unfolding hl [symmetric]
    by (simp add: json_next_def hex4_def [of "0xD800 + h"])
qed

lemma json_next_char:
  assumes "is_scalar c"
  shows "json_next (json_char_ascii c @ rest) = Some (Some c, rest)"
proof (cases "json_escape c")
  case (Some e)
  show ?thesis
  proof (cases "c \<in> {34, 92, 8, 12, 10, 13, 9}")
    case True
    then show ?thesis by (auto simp: json_char_ascii_def json_escape_def json_next_def unescape_def)
  next
    case False
    with Some have "e = hex4 c" "c < 32" by (auto simp: json_escape_def split: if_split_asm)
    with Some show ?thesis by (simp add: json_char_ascii_def json_next_u)
  qed
next
  case None
  then have c: "c \<noteq> 34" "c \<noteq> 92" "32 \<le> c" by (auto simp: json_escape_def split: if_split_asm)
  consider "c < 127" | "127 \<le> c" "c < 0x10000" | "0x10000 \<le> c" by linarith
  then show ?thesis
  proof cases
    case 1
    with c None show ?thesis by (simp add: json_char_ascii_def json_next_def)
  next
    case 2
    moreover have "\<not> (0xD800 \<le> c \<and> c \<le> 0xDBFF)" using assms by (auto simp: is_scalar_def is_surrogate_def)
    ultimately show ?thesis using None json_next_u [of c rest] by (simp add: json_char_ascii_def)
  next
    case 3
    with None assms show ?thesis
      by (simp add: json_char_ascii_def json_next_pair is_scalar_def)
  qed
qed

lemma json_chars_string: "list_all is_scalar s \<Longrightarrow> json_chars (concat (map json_char_ascii s) @ 34 # rest) = Inr (s, rest)"
proof (induction s)
  case Nil
  show ?case by (subst json_chars.simps) (simp add: json_next_def)
next
  case (Cons c s)
  then have "json_next (json_char_ascii c @ concat (map json_char_ascii s) @ 34 # rest) =
      Some (Some c, concat (map json_char_ascii s) @ 34 # rest)"
    by (intro json_next_char) simp
  with Cons show ?case by (subst json_chars.simps) simp
qed

lemma json_string_read:
  "list_all is_scalar s \<Longrightarrow> json_string json_char_ascii s @ rest = 34 # concat (map json_char_ascii s) @ 34 # rest"
  by (simp add: json_string_def)

text \<open>Numbers.\<close>

definition json_stop :: "ustr \<Rightarrow> bool" where
  "json_stop cs \<longleftrightarrow> cs = [] \<or> hd cs = 44 \<or> hd cs = 93 \<or> hd cs = 125"

lemma nat_text_digits: "list_all is_digit (nat_text n)" and nat_text_nonempty: "nat_text n \<noteq> []"
proof (induction n rule: nat_text.induct)
  case (1 n)
  have "is_digit (48 + n mod 10)" "n < 10 \<Longrightarrow> is_digit (48 + n)" by (simp_all add: is_digit_def)
  with 1 show "list_all is_digit (nat_text n)" "nat_text n \<noteq> []" by (subst nat_text.simps, simp)+
qed

lemma nat_text_hd: "0 < n \<Longrightarrow> hd (nat_text n) \<noteq> 48"
proof (induction n rule: nat_text.induct)
  case (1 n)
  then show ?case by (subst nat_text.simps) (simp add: nat_text_nonempty)
qed

lemma dec_val_nat_text: "dec_val (nat_text n) = n"
proof (induction n rule: nat_text.induct)
  case (1 n)
  then show ?case by (subst nat_text.simps) (simp add: dec_val_def)
qed

lemma json_stop_not_digit: "json_stop rest \<Longrightarrow> rest = [] \<or> \<not> is_digit (hd rest)"
  by (auto simp: json_stop_def is_digit_def)

lemma takeWhile_digits: "list_all P ds \<Longrightarrow> rest = [] \<or> \<not> P (hd rest) \<Longrightarrow> takeWhile P (ds @ rest) = ds"
  by (cases rest) (auto simp: list_all_iff)

lemma json_number_nat:
  assumes "json_stop rest" "length (nat_text n) \<le> 4300" "cs = (if neg then 45 # nat_text n @ rest else nat_text n @ rest)"
  shows "json_number cs = Inr (PInt (if neg then - int n else int n), rest)"
proof -
  let ?ds = "nat_text n"
  obtain d ds where d: "?ds = d # ds" "is_digit d"
    using nat_text_digits [of n] nat_text_nonempty [of n] by (cases ?ds) auto
  have neg: "(cs \<noteq> [] \<and> hd cs = 45) = neg" and body: "(if neg then tl cs else cs) = ?ds @ rest"
    using assms(3) d by (auto simp: is_digit_def)
  have ds: "takeWhile is_digit (?ds @ rest) = ?ds"
    by (rule takeWhile_digits [OF nat_text_digits json_stop_not_digit [OF assms(1)]])
  have "nat_text 0 = [48]" by (subst nat_text.simps) simp
  then have int_digits: "(if hd ?ds = 48 then [48] else ?ds) = ?ds" using nat_text_hd [of n] by (cases "n = 0") auto
  have "json_fraction rest = ([], rest)" "json_exponent rest = (None, rest)"
    using assms(1) by (auto simp: json_fraction_def json_exponent_def json_stop_def split: list.split)
  then show ?thesis
    unfolding json_number_def Let_def neg body ds int_digits
    using assms(2) by (simp add: nat_text_nonempty dec_val_nat_text)
qed

lemma json_number_int:
  assumes "int_readable i" "json_stop rest"
  shows "json_number (int_text i @ rest) = Inr (PInt i, rest)"
proof (cases "i < 0")
  case True
  then show ?thesis
    using json_number_nat [of rest "nat (- i)" "45 # nat_text (nat (- i)) @ rest" True] assms
    by (simp add: int_readable_def int_text_def)
next
  case False
  then show ?thesis
    using json_number_nat [of rest "nat i" "nat_text (nat i) @ rest" False] assms
    by (simp add: int_readable_def int_text_def)
qed

lemma int_text_hd: "int_text i \<noteq> [] \<and> (hd (int_text i) = 45 \<and> i < 0 \<or> is_digit (hd (int_text i)))"
  using nat_text_digits [of "nat i"] nat_text_nonempty [of "nat i"]
  by (cases "nat_text (nat i)") (auto simp: int_text_def)

text \<open>Literals and the first character of a text.\<close>

definition json_lead :: "nat \<Rightarrow> bool" where
  "json_lead c \<longleftrightarrow> c = 34 \<or> c = 123 \<or> c = 91 \<or> c = 110 \<or> c = 116 \<or> c = 102 \<or> c = 45 \<or> is_digit c"

lemma json_literal_read:
  "json_literal (ustr ''null'' @ rest) = Some (PNone, rest)"
  "json_literal (ustr ''true'' @ rest) = Some (PBool True, rest)"
  "json_literal (ustr ''false'' @ rest) = Some (PBool False, rest)"
  by (simp_all add: json_literal_def json_literals_def ustr_def)

lemma json_literal_digit: "is_digit c \<Longrightarrow> json_literal (c # rest) = None"
  by (auto simp: json_literal_def json_literals_def ustr_def is_digit_def)

lemma json_literal_int: "json_literal (int_text i @ rest) = None"
proof -
  obtain d ds where d: "nat_text (nat \<bar>i\<bar>) = d # ds" "is_digit d"
    using nat_text_digits [of "nat \<bar>i\<bar>"] nat_text_nonempty [of "nat \<bar>i\<bar>"] by (cases "nat_text (nat \<bar>i\<bar>)") auto
  show ?thesis
  proof (cases "i < 0")
    case True
    with d have "int_text i @ rest = 45 # d # ds @ rest" by (simp add: int_text_def)
    with d(2) show ?thesis by (auto simp: json_literal_def json_literals_def ustr_def is_digit_def)
  next
    case False
    with d have "int_text i @ rest = d # ds @ rest" by (simp add: int_text_def)
    with d(2) show ?thesis by (simp add: json_literal_digit)
  qed
qed

lemma json_text_lead: "json_ok v \<Longrightarrow> \<exists>c cs. json_text v = c # cs \<and> json_lead c"
proof (cases v)
  case (PInt i)
  assume "json_ok v"
  show ?thesis using int_text_hd [of i] PInt by (cases "int_text i") (auto simp: json_lead_def)
qed (auto simp: json_lead_def json_string_def ustr_def split: if_splits)

lemma skip_ws_lead: "json_lead c \<Longrightarrow> skip_ws (c # cs) = c # cs"
  by (auto simp: skip_ws_def is_ws_def json_lead_def is_digit_def)

lemma skip_ws_text: "json_ok v \<Longrightarrow> skip_ws (json_text v @ rest) = json_text v @ rest"
  using json_text_lead [of v] skip_ws_lead by force

lemma skip_ws_mark: "\<not> is_ws c \<Longrightarrow> skip_ws (c # cs) = c # cs"
  by (simp add: skip_ws_def)

lemma is_ws_marks [simp]: "\<not> is_ws 34" "\<not> is_ws 44" "\<not> is_ws 58" "\<not> is_ws 91" "\<not> is_ws 93" "\<not> is_ws 123" "\<not> is_ws 125"
  by (simp_all add: is_ws_def)

lemma json_stop_marks [simp]: "json_stop []" "json_stop (44 # cs)" "json_stop (93 # cs)" "json_stop (125 # cs)"
  by (simp_all add: json_stop_def)

text \<open>Reading a value, with enough calls allowed.\<close>

definition reads_back :: "py_value \<Rightarrow> bool" where
  "reads_back v \<longleftrightarrow> json_ok v \<and> (\<forall>n rest. 2 * length (json_text v) \<le> n \<longrightarrow> json_stop rest \<longrightarrow>
     json_value n (json_text v @ rest) = Inr (json_norm v, rest))"

lemma reads_back_scalar:
  assumes "json_ok v" "\<And>n rest. json_stop rest \<Longrightarrow> json_value (Suc n) (json_text v @ rest) = Inr (json_norm v, rest)"
  shows "reads_back v"
proof -
  have "json_text v \<noteq> []" using json_text_lead [OF assms(1)] by auto
  then show ?thesis unfolding reads_back_def using assms by (metis Suc_pred length_greater_0_conv less_le_trans mult_2 trans_less_add1)
qed

lemma json_elements_back:
  "list_all reads_back xs \<Longrightarrow> xs \<noteq> [] \<Longrightarrow> 2 * length (join 44 (map json_text xs)) + 1 \<le> n \<Longrightarrow>
   json_elements n (join 44 (map json_text xs) @ 93 # rest) = Inr (map json_norm xs, rest)"
proof (induction xs arbitrary: n)
  case (Cons x xs)
  note step = Cons
  from step(3,4) obtain m where n: "n = Suc m" by (cases n) auto
  show ?case
  proof (cases xs)
    case Nil
    then show ?thesis using step(2-4) n by (simp add: reads_back_def skip_ws_mark)
  next
    case (Cons y ys)
    let ?tail = "join 44 (map json_text xs)"
    have shape: "join 44 (map json_text (x # xs)) = json_text x @ 44 # ?tail" using Cons by simp
    have "json_ok y" using step(2-4) Cons by (simp add: reads_back_def)
    moreover have "?tail @ 93 # rest = json_text y @ (case ys of [] \<Rightarrow> 93 # rest | _ \<Rightarrow> 44 # join 44 (map json_text ys) @ 93 # rest)"
      using Cons by (cases ys) simp_all
    ultimately have skip: "skip_ws (?tail @ 93 # rest) = ?tail @ 93 # rest" by (simp only: skip_ws_text)
    have "json_value m (json_text x @ 44 # ?tail @ 93 # rest) = Inr (json_norm x, 44 # ?tail @ 93 # rest)"
      using step(2-4) n shape by (simp add: reads_back_def)
    moreover have "json_elements m (?tail @ 93 # rest) = Inr (map json_norm xs, rest)"
      using step(2-4) n shape Cons by (intro step(1)) simp_all
    ultimately show ?thesis unfolding n shape by (simp add: skip_ws_mark skip)
  qed
qed simp

definition member_text :: "py_value \<times> py_value \<Rightarrow> ustr" where
  "member_text = (\<lambda>(k, v). json_string json_char_ascii (str_of k) @ 58 # json_text v)"

definition member_back :: "py_value \<times> py_value \<Rightarrow> bool" where
  "member_back = (\<lambda>(k, v). is_str k \<and> json_ok k \<and> reads_back v)"

definition member_norm :: "py_value \<times> py_value \<Rightarrow> py_value \<times> py_value" where
  "member_norm = (\<lambda>(k, v). (k, json_norm v))"

lemma member_textE:
  assumes "member_back e"
  obtains s v where "e = (PStr s, v)" "list_all is_scalar s" "reads_back v"
    "\<And>rest. member_text e @ rest = 34 # concat (map json_char_ascii s) @ 34 # 58 # json_text v @ rest"
  using assms by (cases e; cases "fst e")
    (auto simp: member_back_def is_str_def member_text_def str_of_def json_string_def)

lemma member_text_length: "member_back (PStr s, v) \<Longrightarrow> length (json_text v) + 3 \<le> length (member_text (PStr s, v))"
  by (simp add: member_text_def json_string_def str_of_def)

lemma json_members_step:
  assumes e: "member_back (k, v)" and n: "2 * length (member_text (k, v)) \<le> Suc n"
    and c: "c = 44 \<or> c = 125"
  shows "json_members (Suc n) acc (member_text (k, v) @ c # rest) =
    (if c = 125 then Inr (dput k (json_norm v) acc, rest) else json_members n (dput k (json_norm v) acc) (skip_ws rest))"
proof -
  obtain s where k: "k = PStr s" "list_all is_scalar s" and v: "reads_back v"
    and shape: "member_text (k, v) @ c # rest = 34 # concat (map json_char_ascii s) @ 34 # 58 # json_text v @ c # rest"
    using e by (rule member_textE) auto
  have "2 * length (json_text v) \<le> n" "json_stop (c # rest)"
    using member_text_length [of s v] e n k c by auto
  then have "json_value n (json_text v @ c # rest) = Inr (json_norm v, c # rest)"
    using v by (simp add: reads_back_def)
  moreover have "json_ok v" using v by (simp add: reads_back_def)
  ultimately show ?thesis unfolding shape using k c
    by (auto simp: json_chars_string skip_ws_mark skip_ws_text)
qed

lemma dput_last: "k \<notin> fst ` set acc \<Longrightarrow> dput k v acc = acc @ [(k, v)]"
  by (rule dput_new) (simp add: map_of_eq_None_iff)

lemma json_members_back:
  "list_all member_back es \<Longrightarrow> es \<noteq> [] \<Longrightarrow> distinct (map fst (acc @ es)) \<Longrightarrow>
   2 * length (join 44 (map member_text es)) + 1 \<le> n \<Longrightarrow>
   json_members n acc (join 44 (map member_text es) @ 125 # rest) = Inr (acc @ map member_norm es, rest)"
proof (induction es arbitrary: n acc)
  case (Cons e es)
  note step = Cons
  obtain k v where e: "e = (k, v)" by (cases e)
  from step(5) obtain m where n: "n = Suc m" by (cases n) auto
  have new: "dput k (json_norm v) acc = acc @ [(k, json_norm v)]"
    using step(4) e by (intro dput_last) auto
  show ?case
  proof (cases es)
    case Nil
    then show ?thesis using step(2-5) n json_members_step [of k v m 125 acc rest] new
      by (simp add: e member_norm_def)
  next
    case (Cons e2 es2)
    let ?tail = "join 44 (map member_text es)"
    have shape: "join 44 (map member_text (e # es)) = member_text e @ 44 # ?tail" using Cons by simp
    obtain x cs where "?tail @ 125 # rest = x # cs" "x = 34"
      using Cons step(2) by (cases es2) (auto elim!: member_textE)
    then have skip: "skip_ws (?tail @ 125 # rest) = ?tail @ 125 # rest" by (simp add: skip_ws_mark)
    have "json_members m (acc @ [(k, json_norm v)]) (?tail @ 125 # rest) = Inr ((acc @ [(k, json_norm v)]) @ map member_norm es, rest)"
      using step(2-5) n shape Cons e by (intro step(1)) auto
    moreover have "json_members n acc (member_text (k, v) @ 44 # ?tail @ 125 # rest) =
        json_members m (acc @ [(k, json_norm v)]) (skip_ws (?tail @ 125 # rest))"
      unfolding n new [symmetric] using step(2-5) n shape e by (subst json_members_step) auto
    ultimately show ?thesis unfolding shape by (simp add: skip e member_norm_def)
  qed
qed simp

lemma json_list_back: "list_all reads_back xs \<Longrightarrow> reads_back (PList xs)"
proof -
  assume xs: "list_all reads_back xs"
  then have ok: "json_ok (PList xs)" by (simp add: reads_back_def list_all_iff)
  have "json_value n (json_text (PList xs) @ rest) = Inr (json_norm (PList xs), rest)"
    if n: "2 * length (json_text (PList xs)) \<le> n" for n rest
  proof (cases xs)
    case Nil
    with n obtain m where "n = Suc m" by (cases n) auto
    with Nil show ?thesis by (simp add: skip_ws_mark json_literal_def)
  next
    case (Cons y ys)
    let ?body = "join 44 (map json_text xs)"
    from n obtain m where m: "n = Suc m" by (cases n) auto
    have y: "json_ok y" using xs Cons by (simp add: reads_back_def)
    obtain c cs where c: "json_text y = c # cs" "json_lead c" using json_text_lead [OF y] by blast
    then obtain ds where body: "?body @ 93 # rest = c # ds" using Cons by (cases ys) auto
    have "c \<noteq> 93" using c by (auto simp: json_lead_def is_digit_def)
    moreover have "json_elements m (?body @ 93 # rest) = Inr (map json_norm xs, rest)"
      using xs Cons n m by (intro json_elements_back) auto
    ultimately show ?thesis using m c body by (simp add: skip_ws_lead)
  qed
  with ok show ?thesis by (simp add: reads_back_def)
qed

lemma json_dict_back:
  assumes "distinct (map fst es)" "list_all member_back es"
  shows "reads_back (PDict es)"
proof -
  let ?es = "sort_key (\<lambda>(k, _). str_of k) es"
  have ok: "json_ok (PDict es)" using assms by (auto simp: member_back_def reads_back_def list_all_iff)
  have d: "distinct (map fst ?es)" and b: "list_all member_back ?es"
    using assms by (simp_all add: list_all_iff distinct_map)
  have shape: "json_text (PDict es) = 123 # join 44 (map member_text ?es) @ [125]"
    by (simp add: member_text_def)
  have norm: "json_norm (PDict es) = PDict (map member_norm ?es)" by (simp add: member_norm_def)
  have "json_value n (json_text (PDict es) @ rest) = Inr (json_norm (PDict es), rest)"
    if n: "2 * length (json_text (PDict es)) \<le> n" for n rest
  proof (cases ?es)
    case Nil
    with n obtain m where "n = Suc m" unfolding shape by (cases n) auto
    then show ?thesis unfolding shape norm Nil by (simp add: skip_ws_mark)
  next
    case (Cons e es')
    let ?body = "join 44 (map member_text ?es)"
    from n obtain m where m: "n = Suc m" unfolding shape by (cases n) auto
    obtain ds where body: "?body @ 125 # rest = 34 # ds"
      using Cons b by (cases es') (auto elim!: member_textE)
    have "json_members m [] (?body @ 125 # rest) = Inr ([] @ map member_norm ?es, rest)"
      using Cons b d n m unfolding shape by (intro json_members_back) auto
    with m body show ?thesis unfolding shape norm by (simp add: skip_ws_mark)
  qed
  with ok show ?thesis by (simp add: reads_back_def)
qed

lemma json_reads_back: "json_ok v \<Longrightarrow> reads_back v"
proof (induction v rule: json_text.induct)
  case (1)
  show ?case by (rule reads_back_scalar) (use json_literal_read in \<open>simp_all add: ustr_def\<close>)
next
  case (2 b)
  show ?case by (rule reads_back_scalar) (use json_literal_read in \<open>simp_all add: ustr_def\<close>)
next
  case (3 i)
  show ?case
  proof (rule reads_back_scalar)
    fix n rest assume "json_stop rest"
    moreover have "int_text i @ rest \<noteq> []" "hd (int_text i @ rest) \<notin> {34, 123, 91}"
      using int_text_hd [of i] by (auto simp: is_digit_def)
    ultimately show "json_value (Suc n) (json_text (PInt i) @ rest) = Inr (json_norm (PInt i), rest)"
      using 3 by (simp add: json_literal_int json_number_int)
  qed (use 3 in simp)
next
  case (4 s)
  then show ?case by (intro reads_back_scalar) (simp_all add: json_string_read json_chars_string)
next
  case (5 xs)
  then show ?case by (intro json_list_back) (simp add: list_all_iff)
next
  case (6 es)
  then have "list_all member_back es" by (force simp: list_all_iff member_back_def)
  with 6 show ?case by (intro json_dict_back) simp_all
qed simp_all

lemma json_loads_text: "json_ok v \<Longrightarrow> json_loads (json_text v) = Inr (json_norm v)"
proof -
  assume v: "json_ok v"
  obtain c cs where c: "json_text v = c # cs" "json_lead c" using json_text_lead [OF v] by blast
  then have "c \<noteq> 0xFEFF" by (auto simp: json_lead_def is_digit_def)
  moreover have "json_value (2 * length (json_text v) + 2) (json_text v @ []) = Inr (json_norm v, [])"
    using json_reads_back [OF v] unfolding reads_back_def by (metis json_stop_marks(1) le_add1)
  ultimately show ?thesis using c by (simp add: json_loads_def skip_ws_lead) (simp add: skip_ws_def)
qed

section \<open>Canonical texts are read back\<close>

lemma res_map_valid: "list_all (\<lambda>x. f x = Inr ()) xs \<Longrightarrow> is_ok (res_map f xs)"
  by (induction xs) (auto simp: is_ok_def split: sum.splits)

lemma json_ok_valid: "json_ok v \<Longrightarrow> cj_validate v = Inr ()"
proof (induction v rule: json_ok.induct)
  case (7 xs)
  then have "is_ok (res_map cj_validate xs)" by (intro res_map_valid) (simp add: list_all_iff)
  then show ?case by (cases "res_map cj_validate xs") simp_all
next
  case (8 es)
  then have "is_ok (res_map (\<lambda>(_, child). cj_validate child) es)" by (intro res_map_valid) (auto simp: list_all_iff)
  moreover have "\<not> list_ex (\<lambda>(k, _). \<not> is_str k) es" using 8 by (auto simp: list_ex_iff list_all_iff)
  ultimately show ?case by (cases "res_map (\<lambda>(_, child). cj_validate child) es") simp_all
qed simp_all

text \<open>Sorting the keys changes neither the text nor what can be read.\<close>

lemma sort_member_norm:
  "sort_key (\<lambda>(k, _). str_of k) (map member_norm (sort_key (\<lambda>(k, _). str_of k) es)) =
     map member_norm (sort_key (\<lambda>(k, _). str_of k) es)"
proof (rule sort_key_id_if_sorted)
  have "(\<lambda>(k, _). str_of k) \<circ> member_norm = (\<lambda>(k, _). str_of k)" by (auto simp: member_norm_def)
  then show "sorted (map (\<lambda>(k, _). str_of k) (map member_norm (sort_key (\<lambda>(k, _). str_of k) es)))"
    by simp
qed

lemma json_norm_dict: "json_norm (PDict es) = PDict (map member_norm (sort_key (\<lambda>(k, _). str_of k) es))"
  by (simp add: member_norm_def)

lemma json_text_norm: "json_text (json_norm v) = json_text v"
proof (induction v rule: json_norm.induct)
  case (1 xs)
  then show ?case by (simp add: comp_def cong: map_cong)
next
  case (2 es)
  have "member_text (member_norm e) = member_text e" if "e \<in> set es" for e
    using 2 that by (cases e) (auto simp: member_text_def member_norm_def)
  then have eq: "map (member_text \<circ> member_norm) (sort_key (\<lambda>(k, _). str_of k) es) = map member_text (sort_key (\<lambda>(k, _). str_of k) es)"
    by (intro map_cong) auto
  show ?case unfolding json_norm_dict json_text.simps sort_member_norm member_text_def [symmetric] map_map eq ..
qed simp_all

lemma json_ok_norm: "json_ok v \<Longrightarrow> json_ok (json_norm v)"
proof (induction v rule: json_norm.induct)
  case (2 es)
  have "fst \<circ> member_norm = fst" by (auto simp: member_norm_def)
  moreover have "list_all (\<lambda>(k, v). is_str k \<and> json_ok k \<and> json_ok v) (map member_norm es)"
    using 2 by (auto simp: list_all_iff member_norm_def)
  ultimately show ?case using 2(2) unfolding json_norm_dict by (auto simp: list_all_iff distinct_map)
qed (auto simp: list_all_iff)

lemma json_norm_lookup:
  assumes "distinct (map fst es)"
  shows "map_of (map member_norm (sort_key f es)) k = map_option json_norm (map_of es k)"
proof -
  have "map_of (sort_key f es) = map_of es"
    using assms by (subst map_of_inject_set) (simp_all add: distinct_map)
  then show ?thesis by (simp add: member_norm_def map_of_map)
qed

lemma utf8_decode_printable: "list_all printable s \<Longrightarrow> utf8_decode (map word_of_nat s) = Inr s"
proof -
  assume s: "list_all printable s"
  then have "list_all is_scalar s" by (auto simp: list_all_iff printable_def is_scalar_def is_surrogate_def)
  then show ?thesis using utf8_ascii [OF s] by (rule utf8.roundtrip)
qed

lemma canonical_read_back:
  assumes "json_ok v"
  obtains b where "canonical_json v = Inr b" "rbind (utf8_decode b) json_loads = Inr (json_norm v)"
    "canonical_json (json_norm v) = Inr b"
proof (rule that)
  show "canonical_json v = Inr (map word_of_nat (json_text v))"
    by (rule canonical_json_ok [OF json_ok_valid [OF assms]])
  show "rbind (utf8_decode (map word_of_nat (json_text v))) json_loads = Inr (json_norm v)"
    by (simp add: utf8_decode_printable json_text_printable json_loads_text assms)
  show "canonical_json (json_norm v) = Inr (map word_of_nat (json_text v))"
    using canonical_json_ok [OF json_ok_valid [OF json_ok_norm [OF assms]]] by (simp add: json_text_norm)
qed

end
