(* ===== verification/Transport.thy ===== *)
theory Transport
  imports CanonicalValues
begin

text \<open>
  \<^verbatim>\<open>link_sim/transport.py\<close>: the sideband envelope that carries a frame to and from the link, its
  two wire versions and the checks of both directions, the session handshake datagrams as they
  are written, and the in-memory transport. Sockets are not modelled.
\<close>

section \<open>Fixed-width records\<close>

text \<open>\<^verbatim>\<open>struct.pack\<close> and \<^verbatim>\<open>struct.unpack\<close> of unsigned big-endian fields of the given widths.\<close>

fun struct_pack :: "nat list \<Rightarrow> int list \<Rightarrow> bytes res" where
  "struct_pack [] [] = Inr []"
| "struct_pack (w # ws) (v # vs) = rbind (pack_uint w v) (\<lambda>b. rbind (struct_pack ws vs) (\<lambda>bs. Inr (b @ bs)))"
| "struct_pack _ _ = Inl StructError"

fun struct_fields :: "nat list \<Rightarrow> bytes \<Rightarrow> int list" where
  "struct_fields [] data = []"
| "struct_fields (w # ws) data = int (be_val (take w data)) # struct_fields ws (drop w data)"

definition struct_unpack :: "nat list \<Rightarrow> bytes \<Rightarrow> int list res" where
  "struct_unpack ws data = (if length data \<noteq> sum_list ws then Inl StructError else Inr (struct_fields ws data))"

lemma struct_pack_length: "struct_pack ws vs = Inr b \<Longrightarrow> length b = sum_list ws \<and> length vs = length ws"
  by (induction ws vs arbitrary: b rule: struct_pack.induct) (auto simp: rbind_Inr_iff pack_uint_def)

lemma struct_pack_fields: "struct_pack ws vs = Inr b \<Longrightarrow> struct_fields ws (b @ rest) = vs"
  by (induction ws vs arbitrary: b rule: struct_pack.induct)
    (auto simp: rbind_Inr_iff pack_uint_def int_be_val_be_bytes)

lemma struct_unpack_pack: "struct_pack ws vs = Inr b \<Longrightarrow> struct_unpack ws b = Inr vs"
  using struct_pack_length [of ws vs b] struct_pack_fields [of ws vs b "[]"] by (simp add: struct_unpack_def)

lemma struct_pack_unpack: "struct_unpack ws b = Inr vs \<Longrightarrow> struct_pack ws vs = Inr b"
proof -
  have fields: "length b = sum_list ws \<Longrightarrow> struct_pack ws (struct_fields ws b) = Inr b" for b
  proof (induction ws arbitrary: b)
    case (Cons w ws)
    have "length (take w b) = w" "length (drop w b) = sum_list ws" using Cons.prems by simp_all
    moreover have "pack_uint w (int (be_val (take w b))) = Inr (take w b)"
    proof -
      have "be_val (take w b) < 256 ^ w" using be_val_less [of "take w b"] \<open>length (take w b) = w\<close> by simp
      then have "int (be_val (take w b)) < 256 ^ w" by (metis of_nat_less_iff of_nat_numeral of_nat_power)
      with be_bytes_be_val' [of "take w b" w] \<open>length (take w b) = w\<close> show ?thesis
        by (simp add: pack_uint_def del: be_bytes.simps)
    qed
    ultimately show ?case using Cons.IH [of "drop w b"] by simp
  qed simp
  assume "struct_unpack ws b = Inr vs"
  then have "length b = sum_list ws" "vs = struct_fields ws b"
    by (simp_all add: struct_unpack_def split: if_split_asm)
  with fields show "struct_pack ws vs = Inr b" by blast
qed

interpretation record_fields: strict_codec "\<lambda>_. True" "struct_pack ws" "struct_unpack ws" for ws
  by unfold_locales (auto intro: struct_unpack_pack struct_pack_unpack)

section \<open>The envelope\<close>

datatype direction = INGRESS | EGRESS

fun direction_value :: "direction \<Rightarrow> int" where
  "direction_value INGRESS = 0"
| "direction_value EGRESS = 1"

definition direction_of :: "int \<Rightarrow> direction res" where
  "direction_of n =
     (if n = 0 then Inr INGRESS else if n = 1 then Inr EGRESS
      else Inl (ValueError ''not a valid Direction''))"

record sideband_envelope =
  env_magic :: int
  env_version :: int
  env_direction :: direction
  env_reserved :: int
  env_spacecraft_instance_id :: int
  env_sender_boot_id :: int
  env_link_session_id :: int
  env_sender_frame_id :: int
  env_link_frame_id :: int
  env_file_epoch_id :: int
  env_frame_length :: int
  env_copy_index :: int

definition ENVELOPE_MAGIC :: int where "ENVELOPE_MAGIC = 0x43534c31"
definition STRUCT_FORMAT :: "nat list" where "STRUCT_FORMAT = [4, 1, 1, 2, 8, 4, 8, 8, 8, 8, 2]"
definition HEADER_SIZE :: nat where "HEADER_SIZE = sum_list STRUCT_FORMAT"
definition HEADER_SIZE_WITH_COPY_INDEX :: nat where
  "HEADER_SIZE_WITH_COPY_INDEX = sum_list (STRUCT_FORMAT @ [4])"

definition header_size_for_version :: "int \<Rightarrow> nat res" where
  "header_size_for_version version =
     (if version = 1 then Inr HEADER_SIZE
      else if version = 2 then Inr HEADER_SIZE_WITH_COPY_INDEX
      else Inl (ValueError ''Unsupported version''))"

definition header_size_from_bytes :: "bytes \<Rightarrow> nat res" where
  "header_size_from_bytes data =
     (if length data < 5 then Inl (ValueError ''Envelope too short to read magic and version'')
      else rbind (struct_unpack [4, 1] (take 5 data)) (\<lambda>fields.
        if fields ! 0 \<noteq> ENVELOPE_MAGIC then Inl (ValueError ''Invalid magic'')
        else header_size_for_version (fields ! 1)))"

definition env_from_bytes :: "bytes \<Rightarrow> sideband_envelope res" where
  "env_from_bytes data =
     rbind (header_size_from_bytes data) (\<lambda>header_size.
     if length data < header_size then Inl (ValueError ''Envelope too short'')
     else
       let version = uint (data ! 4);
           format_string = (if version = 1 then STRUCT_FORMAT else STRUCT_FORMAT @ [4])
       in rbind (struct_unpack format_string (take header_size data)) (\<lambda>fields.
          let copy_index = (if version = 1 then 0 else last fields) in
          rbind (direction_of (fields ! 2)) (\<lambda>direction. Inr
            \<lparr> env_magic = fields ! 0, env_version = fields ! 1, env_direction = direction,
              env_reserved = fields ! 3, env_spacecraft_instance_id = fields ! 4,
              env_sender_boot_id = fields ! 5, env_link_session_id = fields ! 6,
              env_sender_frame_id = fields ! 7, env_link_frame_id = fields ! 8,
              env_file_epoch_id = fields ! 9, env_frame_length = fields ! 10,
              env_copy_index = copy_index \<rparr>)))"

definition env_fields :: "sideband_envelope \<Rightarrow> int list" where
  "env_fields e =
     [env_magic e, env_version e, direction_value (env_direction e), env_reserved e,
      env_spacecraft_instance_id e, env_sender_boot_id e, env_link_session_id e, env_sender_frame_id e,
      env_link_frame_id e, env_file_epoch_id e, env_frame_length e]"

definition env_to_bytes :: "sideband_envelope \<Rightarrow> bytes res" where
  "env_to_bytes e =
     (if env_version e = 1 then
        if env_copy_index e \<noteq> 0 then Inl (ValueError ''version 1 envelope cannot serialize copy_index'')
        else struct_pack STRUCT_FORMAT (env_fields e)
      else if env_version e \<noteq> 2 then Inl (ValueError ''Unsupported version'')
      else struct_pack (STRUCT_FORMAT @ [4]) (env_fields e @ [env_copy_index e]))"

section \<open>The checks\<close>

definition env_validate_common :: "sideband_envelope \<Rightarrow> unit res" where
  "env_validate_common e =
     (if env_magic e \<noteq> ENVELOPE_MAGIC then Inl (ValueError ''Invalid magic'')
      else if env_version e \<noteq> 1 \<and> env_version e \<noteq> 2 then Inl (ValueError ''Unsupported version'')
      else if \<not> (0 \<le> env_copy_index e \<and> env_copy_index e \<le> 0xFFFFFFFF)
      then Inl (ValueError ''copy_index must fit U32'')
      else if env_version e = 1 \<and> env_copy_index e \<noteq> 0
      then Inl (ValueError ''version 1 envelope cannot carry copy_index'')
      else if env_reserved e \<noteq> 0 then Inl (ValueError ''Reserved field must be 0'')
      else Inr ())"

definition validate_ingress :: "sideband_envelope \<Rightarrow> unit res" where
  "validate_ingress e =
     rbind (env_validate_common e) (\<lambda>_.
     if env_direction e \<noteq> INGRESS then Inl (ValueError ''Ingress must have direction=0'')
     else if env_sender_boot_id e \<noteq> 0 then Inl (ValueError ''Ingress sender_boot_id must be 0'')
     else if env_link_frame_id e \<noteq> 0 then Inl (ValueError ''Ingress link_frame_id must be 0'')
     else if env_file_epoch_id e \<noteq> 0 then Inl (ValueError ''Ingress file_epoch_id must be 0'')
     else if env_spacecraft_instance_id e = 0 then Inl (ValueError ''Ingress spacecraft_instance_id must be > 0'')
     else if env_link_session_id e = 0 then Inl (ValueError ''Ingress link_session_id must be > 0'')
     else if env_sender_frame_id e = 0 then Inl (ValueError ''Ingress sender_frame_id must be > 0'')
     else if \<not> (0 < env_frame_length e \<and> env_frame_length e \<le> 0xFFFF)
     then Inl (ValueError ''Ingress frame_length must be in [1, 65535]'')
     else Inr ())"

text \<open>An expectation that is not supplied is \<open>None\<close>.\<close>

definition expects :: "int option \<Rightarrow> int \<Rightarrow> bool" where
  "expects expected actual \<longleftrightarrow> (case expected of None \<Rightarrow> True | Some v \<Rightarrow> actual = v)"

definition validate_egress ::
  "sideband_envelope \<Rightarrow> int option \<Rightarrow> int option \<Rightarrow> int option \<Rightarrow> unit res" where
  "validate_egress e expected_instance expected_boot expected_session =
     rbind (env_validate_common e) (\<lambda>_.
     if env_direction e \<noteq> EGRESS then Inl (ValueError ''Egress must have direction=1'')
     else if env_link_frame_id e = 0 then Inl (ValueError ''Egress link_frame_id must be > 0'')
     else if env_spacecraft_instance_id e = 0 then Inl (ValueError ''Egress spacecraft_instance_id must be > 0'')
     else if env_link_session_id e = 0 then Inl (ValueError ''Egress link_session_id must be > 0'')
     else if env_sender_frame_id e = 0 then Inl (ValueError ''Egress sender_frame_id must be > 0'')
     else if \<not> (0 < env_frame_length e \<and> env_frame_length e \<le> 0xFFFF)
     then Inl (ValueError ''Egress frame_length must be in [1, 65535]'')
     else if \<not> expects expected_instance (env_spacecraft_instance_id e)
     then Inl (ValueError ''Egress spacecraft_instance_id does not match binding'')
     else if \<not> expects expected_boot (env_sender_boot_id e)
     then Inl (ValueError ''Egress sender_boot_id does not match binding'')
     else if \<not> expects expected_session (env_link_session_id e)
     then Inl (ValueError ''Egress link_session_id does not match binding'')
     else Inr ())"

record transport_frame =
  tf_envelope :: sideband_envelope
  tf_frame_bytes :: bytes
  tf_copy_index :: int

definition new_transport_frame :: "sideband_envelope \<Rightarrow> bytes \<Rightarrow> int \<Rightarrow> transport_frame res" where
  "new_transport_frame e frame copy_index =
     (if \<not> (0 \<le> copy_index \<and> copy_index \<le> 0xFFFFFFFF) then Inl (ValueError ''copy_index must fit U32'')
      else if int (length frame) \<noteq> env_frame_length e then Inl (ValueError ''Frame length mismatch'')
      else Inr \<lparr> tf_envelope = e, tf_frame_bytes = frame, tf_copy_index = copy_index \<rparr>)"

section \<open>The in-memory transport\<close>

definition mt_send_transport_frame :: "transport_frame \<Rightarrow> transport_frame list \<Rightarrow> transport_frame list" where
  "mt_send_transport_frame frame queue = queue @ [frame]"

definition mt_send ::
  "sideband_envelope \<Rightarrow> bytes \<Rightarrow> transport_frame list \<Rightarrow> transport_frame list \<times> unit res" where
  "mt_send e frame queue =
     (case new_transport_frame e frame 0 of
        Inl err \<Rightarrow> (queue, Inl err)
      | Inr tf \<Rightarrow> (mt_send_transport_frame tf queue, Inr ()))"

definition mt_receive :: "transport_frame list \<Rightarrow> transport_frame list \<times> transport_frame option" where
  "mt_receive queue = (case queue of [] \<Rightarrow> ([], None) | tf # rest \<Rightarrow> (rest, Some tf))"

section \<open>Handshake datagrams\<close>

definition SESSION_CONTROL_MAGIC :: bytes where
  "SESSION_CONTROL_MAGIC = map (\<lambda>ch. of_char ch) ''CSH2''"

definition SESSION_REPLY_MAGIC :: bytes where
  "SESSION_REPLY_MAGIC = map (\<lambda>ch. of_char ch) ''CSH2!''"

definition bounded_int :: "int \<Rightarrow> int \<Rightarrow> bool \<Rightarrow> int res" where
  "bounded_int value maximum allow_zero =
     (if value < (if allow_zero then 0 else 1) \<or> value > maximum
      then Inl (ValueError ''must be in range'') else Inr value)"

definition json_body :: "(string \<times> py_value) list \<Rightarrow> bytes res" where
  "json_body body = utf8_encode (json_text (PDict (map (\<lambda>(k, v). (PStr (ustr k), v)) body)))"

definition encode_session_hello :: "string \<Rightarrow> int \<Rightarrow> int option \<Rightarrow> bytes res" where
  "encode_session_hello role spacecraft_instance_id sender_boot_id =
     (if role \<notin> {''gds'', ''satellite''} then Inl (ValueError ''session HELLO role must be gds or satellite'')
      else rbind (bounded_int spacecraft_instance_id 0xFFFFFFFFFFFFFFFF False) (\<lambda>inst.
        rbind (case sender_boot_id of
            None \<Rightarrow> if role \<noteq> ''gds'' then Inl (ValueError ''satellite HELLO requires sender_boot_id'') else Inr PNone
          | Some b \<Rightarrow> rbind (bounded_int b 0xFFFFFFFF True) (\<lambda>b. Inr (PInt b))) (\<lambda>boot.
        rbind (json_body [(''kind'', PStr (ustr ''HELLO'')), (''role'', PStr (ustr role)),
          (''sender_boot_id'', boot), (''spacecraft_instance_id'', PInt inst)]) (\<lambda>body.
        Inr (SESSION_CONTROL_MAGIC @ body)))))"

definition encode_session_binding :: "int \<Rightarrow> int \<Rightarrow> int \<Rightarrow> int \<Rightarrow> bytes res" where
  "encode_session_binding spacecraft_instance_id sender_boot_id link_session_id link_generation =
     rbind (bounded_int link_generation 0xFFFFFFFFFFFFFFFF False) (\<lambda>generation.
     rbind (bounded_int link_session_id 0xFFFFFFFFFFFFFFFF False) (\<lambda>session.
     rbind (bounded_int sender_boot_id 0xFFFFFFFF True) (\<lambda>boot.
     rbind (bounded_int spacecraft_instance_id 0xFFFFFFFFFFFFFFFF False) (\<lambda>inst.
     rbind (json_body [(''kind'', PStr (ustr ''SESSION'')), (''link_generation'', PInt generation),
       (''link_session_id'', PInt session), (''sender_boot_id'', PInt boot),
       (''spacecraft_instance_id'', PInt inst)]) (\<lambda>body.
     Inr (SESSION_REPLY_MAGIC @ body))))))"

section \<open>The envelope codec\<close>

lemma STRUCT_FORMAT_simps [simp]: "HEADER_SIZE = 54" "HEADER_SIZE_WITH_COPY_INDEX = 58"
  by (simp_all add: HEADER_SIZE_def HEADER_SIZE_WITH_COPY_INDEX_def STRUCT_FORMAT_def)

lemma struct_fields_take: "sum_list ws \<le> n \<Longrightarrow> struct_fields ws (take n data) = struct_fields ws data"
proof (induction ws arbitrary: n data)
  case (Cons w ws)
  have "take w (take n data) = take w data" using Cons.prems by (simp add: min_def)
  moreover have "drop w (take n data) = take (n - w) (drop w data)" by (simp add: drop_take)
  moreover have "sum_list ws \<le> n - w" using Cons.prems by simp
  ultimately show ?case using Cons.IH [of "n - w" "drop w data"] by simp
qed simp

lemma version_byte: "4 < length data \<Longrightarrow> struct_fields (4 # 1 # ws) data ! 1 = uint (data ! 4)"
proof -
  assume "4 < length data"
  from Cons_nth_drop_Suc [OF this] have "drop 4 data = data ! 4 # drop (Suc 4) data" by (rule sym)
  then show ?thesis by (simp only: struct_fields.simps nth_Cons_Suc One_nat_def nth_Cons_0 take_Suc_Cons take_0
      be_val_single uint_nat)
qed

lemma header_from_fields:
  assumes "struct_fields (4 # 1 # ws) data = m # v # vs" "5 \<le> length data"
  shows "struct_unpack [4, 1] (take 5 data) = Inr [m, v]" "uint (data ! 4) = v"
proof -
  have "struct_fields [4, 1] (take 5 data) = struct_fields [4, 1] data" by (rule struct_fields_take) simp
  with assms show "struct_unpack [4, 1] (take 5 data) = Inr [m, v]" by (simp add: struct_unpack_def)
  show "uint (data ! 4) = v" using version_byte [of data ws] assms by simp
qed

lemma direction_of_value [simp]: "direction_of (direction_value d) = Inr d"
  by (cases d) (simp_all add: direction_of_def)

lemma direction_of_Inr: "direction_of n = Inr d \<longleftrightarrow> n = direction_value d"
  by (cases d) (auto simp: direction_of_def)

lemma env_fields_nth [simp]:
  "env_fields e ! 0 = env_magic e" "env_fields e ! 1 = env_version e" "env_fields e ! 2 = direction_value (env_direction e)"
  "env_fields e ! 3 = env_reserved e" "env_fields e ! 4 = env_spacecraft_instance_id e"
  "env_fields e ! 5 = env_sender_boot_id e" "env_fields e ! 6 = env_link_session_id e"
  "env_fields e ! 7 = env_sender_frame_id e" "env_fields e ! 8 = env_link_frame_id e"
  "env_fields e ! 9 = env_file_epoch_id e" "env_fields e ! 10 = env_frame_length e" "length (env_fields e) = 11" "env_fields e ! Suc 0 = env_version e"
  by (simp_all add: env_fields_def)

lemma env_fields_append: "n < 11 \<Longrightarrow> (env_fields e @ xs) ! n = env_fields e ! n"
  by (simp add: nth_append)

lemma env_from_fields:
  assumes "env_fields e = take 11 vals" "length vals = (if env_version e = 1 then 11 else 12)"
    and "env_version e = 1 \<longrightarrow> env_copy_index e = 0" "env_version e \<noteq> 1 \<longrightarrow> env_copy_index e = last vals"
  shows "(let copy_index = (if env_version e = 1 then 0 else last vals) in
      rbind (direction_of (vals ! 2)) (\<lambda>direction. Inr
        \<lparr> env_magic = vals ! 0, env_version = vals ! 1, env_direction = direction,
          env_reserved = vals ! 3, env_spacecraft_instance_id = vals ! 4,
          env_sender_boot_id = vals ! 5, env_link_session_id = vals ! 6,
          env_sender_frame_id = vals ! 7, env_link_frame_id = vals ! 8,
          env_file_epoch_id = vals ! 9, env_frame_length = vals ! 10,
          env_copy_index = copy_index \<rparr>)) = Inr e"
proof -
  have n: "n < 11 \<Longrightarrow> vals ! n = env_fields e ! n" for n using assms(1) by simp
  show ?thesis using assms(3,4)
    by (cases "env_version e = 1") (auto simp: n Let_def intro!: sideband_envelope.equality)
qed

lemma env_to_from:
  assumes b: "env_to_bytes e = Inr b" and m: "env_magic e = ENVELOPE_MAGIC"
  shows "env_from_bytes (b @ rest) = Inr e"
proof -
  let ?fmt = "if env_version e = 1 then STRUCT_FORMAT else STRUCT_FORMAT @ [4]"
  define vals where "vals = (if env_version e = 1 then env_fields e else env_fields e @ [env_copy_index e])"
  have v: "env_version e = 1 \<and> env_copy_index e = 0 \<or> env_version e = 2" and p: "struct_pack ?fmt vals = Inr b"
    using b by (auto simp: env_to_bytes_def vals_def split: if_split_asm)
  define hs where "hs = sum_list ?fmt"
  have len: "length b = hs" using struct_pack_length [OF p] by (simp add: hs_def)
  have hs: "header_size_for_version (env_version e) = Inr hs"
    using v by (auto simp: header_size_for_version_def STRUCT_FORMAT_def hs_def)
  have "5 \<le> hs" by (simp add: hs_def STRUCT_FORMAT_def)
  then have long: "5 \<le> length (b @ rest)" using len by simp
  obtain ws where ws: "?fmt = 4 # 1 # ws" by (rule that [of "drop 2 ?fmt"]) (simp add: STRUCT_FORMAT_def)
  obtain vs where vs: "vals = env_magic e # env_version e # vs"
    by (rule that [of "drop 2 vals"]) (simp add: vals_def env_fields_def)
  have "struct_fields (4 # 1 # ws) (b @ rest) = env_magic e # env_version e # vs"
    using struct_pack_fields [OF p, of rest] by (simp only: ws vs)
  note h = header_from_fields [OF this long]
  have "header_size_from_bytes (b @ rest) = Inr hs"
    using long h(1) hs m by (simp add: header_size_from_bytes_def del: length_append)
  moreover have "struct_unpack ?fmt (take hs (b @ rest)) = Inr vals"
    using struct_unpack_pack [OF p] len by simp
  moreover have "(let copy_index = (if env_version e = 1 then 0 else last vals) in
      rbind (direction_of (vals ! 2)) (\<lambda>direction. Inr
        \<lparr> env_magic = vals ! 0, env_version = vals ! 1, env_direction = direction,
          env_reserved = vals ! 3, env_spacecraft_instance_id = vals ! 4,
          env_sender_boot_id = vals ! 5, env_link_session_id = vals ! 6,
          env_sender_frame_id = vals ! 7, env_link_frame_id = vals ! 8,
          env_file_epoch_id = vals ! 9, env_frame_length = vals ! 10,
          env_copy_index = copy_index \<rparr>)) = Inr e"
    by (rule env_from_fields) (use v in \<open>auto simp: vals_def\<close>)
  ultimately show ?thesis using len unfolding env_from_bytes_def by (simp add: h(2) Let_def)
qed

lemma env_from_to:
  assumes "env_from_bytes data = Inr e"
  shows "env_magic e = ENVELOPE_MAGIC \<and> (\<exists>b rest. data = b @ rest \<and> env_to_bytes e = Inr b)"
proof -
  obtain hs vals where h: "header_size_from_bytes data = Inr hs" "hs \<le> length data"
    and f: "struct_unpack (if uint (data ! 4) = 1 then STRUCT_FORMAT else STRUCT_FORMAT @ [4]) (take hs data) = Inr vals"
      (is "struct_unpack ?fmt _ = _")
    and e: "(let copy_index = (if uint (data ! 4) = 1 then 0 else last vals) in
      rbind (direction_of (vals ! 2)) (\<lambda>direction. Inr
        \<lparr> env_magic = vals ! 0, env_version = vals ! 1, env_direction = direction,
          env_reserved = vals ! 3, env_spacecraft_instance_id = vals ! 4,
          env_sender_boot_id = vals ! 5, env_link_session_id = vals ! 6,
          env_sender_frame_id = vals ! 7, env_link_frame_id = vals ! 8,
          env_file_epoch_id = vals ! 9, env_frame_length = vals ! 10,
          env_copy_index = copy_index \<rparr>)) = Inr e"
    using assms unfolding env_from_bytes_def by (auto simp: rbind_Inr_iff not_less Let_def)
  have p: "struct_pack ?fmt vals = Inr (take hs data)" by (rule struct_pack_unpack [OF f])
  have lf: "length vals = length ?fmt" using struct_pack_length [OF p] by simp
  have ff: "struct_fields ?fmt data = vals"
    using struct_pack_fields [OF p, of "drop hs data"] by simp
  obtain ws where ws: "?fmt = 4 # 1 # ws" by (rule that [of "drop 2 ?fmt"]) (simp add: STRUCT_FORMAT_def)
  have long: "5 \<le> length data" using h(1) by (simp add: header_size_from_bytes_def split: if_split_asm)
  have hd: "struct_fields (4 # 1 # ws) data = vals ! 0 # vals ! 1 # drop 2 vals"
    using ff by (auto simp: ws)
  note hf = header_from_fields [OF hd long]
  have m: "vals ! 0 = ENVELOPE_MAGIC" and hv: "header_size_for_version (vals ! 1) = Inr hs"
    using h(1) long hf(1) by (simp_all add: header_size_from_bytes_def split: if_split_asm)
  then have v: "vals ! 1 = 1 \<or> vals ! 1 = 2" by (auto simp: header_size_for_version_def split: if_split_asm)
  obtain d where d: "vals ! 2 = direction_value d" and e': "e = \<lparr> env_magic = vals ! 0, env_version = vals ! 1, env_direction = d,
          env_reserved = vals ! 3, env_spacecraft_instance_id = vals ! 4,
          env_sender_boot_id = vals ! 5, env_link_session_id = vals ! 6,
          env_sender_frame_id = vals ! 7, env_link_frame_id = vals ! 8,
          env_file_epoch_id = vals ! 9, env_frame_length = vals ! 10,
          env_copy_index = (if uint (data ! 4) = 1 then 0 else last vals) \<rparr>"
    using e by (auto simp: rbind_Inr_iff direction_of_Inr Let_def)
  have len: "length vals = (if vals ! 1 = 1 then 11 else 12)" using lf hf(2) by (simp add: STRUCT_FORMAT_def)
  have take: "env_fields e = take 11 vals"
    by (rule nth_equalityI) (use len in \<open>auto simp: e' env_fields_def d [unfolded numeral_2_eq_2] less_Suc_eq numeral_eq_Suc nth_Cons' split: if_split_asm\<close>)
  have "env_to_bytes e = Inr (take hs data)"
  proof (cases "vals ! 1 = 1")
    case True
    then show ?thesis using p take len hf(2) by (simp add: env_to_bytes_def e')
  next
    case False
    have "vals = take 11 vals @ [last vals]"
      using len False append_butlast_last_id [of vals] by (cases "vals = []") (auto simp: butlast_conv_take)
    with False v p take hf(2) show ?thesis by (simp add: env_to_bytes_def e')
  qed
  then show ?thesis using m by (metis append_take_drop_id e' sideband_envelope.select_convs(1))
qed

section \<open>Property\<close>

text \<open>
  C15: The sideband envelope codec is exact. \<^verbatim>\<open>from_bytes\<close> accepts a datagram exactly when it starts
  with the encoding of an envelope with the right magic, of version 1 without a copy index or of
  version 2 with one, and returns that envelope; so an envelope survives the wire with whatever
  frame follows it, and no two encodings are read as the same envelope.
\<close>

theorem envelope_codec:
  "env_from_bytes data = Inr e \<longleftrightarrow>
     env_magic e = ENVELOPE_MAGIC \<and> (\<exists>b rest. data = b @ rest \<and> env_to_bytes e = Inr b)"
  using env_to_from env_from_to [of data e] by blast

end
