(* ===== verification/ControlMessages.thy ===== *)
theory ControlMessages
  imports JsonText Transport
begin

text \<open>
  The two JSON control planes of the link: the handshake datagrams of
  \<^verbatim>\<open>link_sim/transport.py\<close> as they are read, and the LinkControl messages of
  \<^verbatim>\<open>link_sim/control.py\<close>. \<^verbatim>\<open>str\<close> of a value that is not a string is a parameter.
\<close>

section \<open>Reading JSON bytes\<close>

text \<open>
  \<^verbatim>\<open>json.loads(raw.decode("utf-8"))\<close> where the caller turns a decoding error into its own
  \<^verbatim>\<open>ValueError\<close>; every other exception passes.
\<close>

definition loads_or :: "string \<Rightarrow> bytes \<Rightarrow> py_value res" where
  "loads_or message raw =
     (case rbind (utf8_decode raw) json_loads of
        Inr value \<Rightarrow> Inr value
      | Inl e \<Rightarrow> Inl (if e = json_error \<or> e = ValueError ''invalid UTF-8'' then ValueError message else e))"

definition dget :: "string \<Rightarrow> (py_value \<times> py_value) list \<Rightarrow> py_value option" where
  "dget key es = map_of es (PStr (ustr key))"

definition dict_body :: "(string \<times> py_value) list \<Rightarrow> (py_value \<times> py_value) list" where
  "dict_body = map (\<lambda>(k, v). (PStr (ustr k), v))"

section \<open>Handshake datagrams\<close>

definition bounded_value :: "py_value option \<Rightarrow> int \<Rightarrow> bool \<Rightarrow> py_value res" where
  "bounded_value value maximum allow_zero =
     (case value of
        Some (PInt i) \<Rightarrow> rbind (bounded_int i maximum allow_zero) (\<lambda>i. Inr (PInt i))
      | _ \<Rightarrow> Inl (ValueError ''must be an integer''))"

definition set_bounded ::
  "string \<Rightarrow> int \<Rightarrow> bool \<Rightarrow> (py_value \<times> py_value) list \<Rightarrow> (py_value \<times> py_value) list res" where
  "set_bounded key maximum allow_zero body =
     rbind (bounded_value (dget key body) maximum allow_zero) (\<lambda>v. Inr (dput (PStr (ustr key)) v body))"

text \<open>\<^verbatim>\<open>value in {...}\<close> of strings: a value that cannot be hashed raises.\<close>

definition in_str_set :: "py_value option \<Rightarrow> string list \<Rightarrow> bool res" where
  "in_str_set value strings =
     (case value of
        Some (PList _) \<Rightarrow> Inl (TypeError ''unhashable type: list'')
      | Some (PDict _) \<Rightarrow> Inl (TypeError ''unhashable type: dict'')
      | Some (PStr s) \<Rightarrow> Inr (s \<in> ustr ` set strings)
      | _ \<Rightarrow> Inr False)"

definition decode_hello :: "(py_value \<times> py_value) list \<Rightarrow> (py_value \<times> py_value) list res" where
  "decode_hello body =
     rbind (in_str_set (dget ''role'' body) [''gds'', ''satellite'']) (\<lambda>known.
     if \<not> known then Inl (ValueError ''session HELLO role is invalid'')
     else if dget ''role'' body = Some (PStr (ustr ''satellite'')) \<or>
             dget ''sender_boot_id'' body \<notin> {None, Some PNone}
     then set_bounded ''sender_boot_id'' 0xFFFFFFFF True body
     else Inr body)"

definition decode_binding :: "(py_value \<times> py_value) list \<Rightarrow> (py_value \<times> py_value) list res" where
  "decode_binding body =
     rbind (set_bounded ''sender_boot_id'' 0xFFFFFFFF True body) (\<lambda>body.
     rbind (set_bounded ''link_session_id'' 0xFFFFFFFFFFFFFFFF False body) (\<lambda>body.
     set_bounded ''link_generation'' 0xFFFFFFFFFFFFFFFF False body))"

definition decode_session_control :: "bytes \<Rightarrow> (py_value \<times> py_value) list option res" where
  "decode_session_control data =
     (let reply = (take (length SESSION_REPLY_MAGIC) data = SESSION_REPLY_MAGIC);
          hello = (take (length SESSION_CONTROL_MAGIC) data = SESSION_CONTROL_MAGIC)
      in if \<not> reply \<and> \<not> hello then Inr None
         else
           let prefix = (if reply then SESSION_REPLY_MAGIC else SESSION_CONTROL_MAGIC);
               expected_kind = (if reply then ''SESSION'' else ''HELLO'')
           in rbind (loads_or ''session control payload is not valid JSON'' (drop (length prefix) data)) (\<lambda>body.
              case body of
                PDict es \<Rightarrow>
                  if dget ''kind'' es \<noteq> Some (PStr (ustr expected_kind))
                  then Inl (ValueError ''session control kind is invalid'')
                  else rbind (set_bounded ''spacecraft_instance_id'' 0xFFFFFFFFFFFFFFFF False es) (\<lambda>es.
                    rbind (if reply then decode_binding es else decode_hello es) (\<lambda>es. Inr (Some es)))
              | _ \<Rightarrow> Inl (ValueError ''session control kind is invalid'')))"

section \<open>LinkControl messages\<close>

datatype link_control_type =
    OPEN_SESSION | SESSION_READY | FRAME_ACCEPTED | FRAME_CONSUMED | ABORT_FILE_EPOCH | SESSION_RESET

fun lc_type_value :: "link_control_type \<Rightarrow> string" where
  "lc_type_value OPEN_SESSION = ''OPEN_SESSION''"
| "lc_type_value SESSION_READY = ''SESSION_READY''"
| "lc_type_value FRAME_ACCEPTED = ''FRAME_ACCEPTED''"
| "lc_type_value FRAME_CONSUMED = ''FRAME_CONSUMED''"
| "lc_type_value ABORT_FILE_EPOCH = ''ABORT_FILE_EPOCH''"
| "lc_type_value SESSION_RESET = ''SESSION_RESET''"

definition lc_type_of :: "py_value \<Rightarrow> link_control_type res" where
  "lc_type_of v =
     (case find (\<lambda>t. v = PStr (ustr (lc_type_value t)))
         [OPEN_SESSION, SESSION_READY, FRAME_ACCEPTED, FRAME_CONSUMED, ABORT_FILE_EPOCH, SESSION_RESET] of
        None \<Rightarrow> Inl (ValueError ''not a valid LinkControlType'')
      | Some t \<Rightarrow> Inr t)"

record link_control =
  lc_message_type :: link_control_type
  lc_spacecraft_instance_id :: int
  lc_sender_boot_id :: int
  lc_link_session_id :: int
  lc_link_generation :: int
  lc_link_frame_id :: int
  lc_file_epoch_id :: int
  lc_copy_index :: int
  lc_status :: "ustr option"
  lc_reason :: "ustr option"

definition lc_post_init :: "link_control \<Rightarrow> link_control res" where
  "lc_post_init m =
     rbind (checked_u64 (lc_spacecraft_instance_id m)) (\<lambda>_.
     rbind (checked_u32 (lc_sender_boot_id m)) (\<lambda>_.
     rbind (checked_u64 (lc_link_session_id m)) (\<lambda>_.
     rbind (checked_u64 (lc_link_generation m)) (\<lambda>_.
     rbind (checked_u64 (lc_link_frame_id m)) (\<lambda>_.
     rbind (checked_u64 (lc_file_epoch_id m)) (\<lambda>_.
     rbind (checked_u32 (lc_copy_index m)) (\<lambda>_.
     if lc_message_type m \<in> {FRAME_ACCEPTED, FRAME_CONSUMED} \<and> lc_link_frame_id m = 0
     then Inl (ValueError ''frame lifecycle controls require link_frame_id'')
     else if lc_message_type m = ABORT_FILE_EPOCH \<and> lc_file_epoch_id m = 0
     then Inl (ValueError ''ABORT_FILE_EPOCH requires file_epoch_id'')
     else Inr m)))))))"

definition text_value :: "ustr option \<Rightarrow> py_value" where
  "text_value t = (case t of None \<Rightarrow> PNone | Some s \<Rightarrow> PStr s)"

definition lc_as_dict :: "link_control \<Rightarrow> (string \<times> py_value) list" where
  "lc_as_dict m =
     [(''message_type'', PStr (ustr (lc_type_value (lc_message_type m)))),
      (''spacecraft_instance_id'', PInt (lc_spacecraft_instance_id m)),
      (''sender_boot_id'', PInt (lc_sender_boot_id m)),
      (''link_session_id'', PInt (lc_link_session_id m)),
      (''link_generation'', PInt (lc_link_generation m)),
      (''link_frame_id'', PInt (lc_link_frame_id m)),
      (''file_epoch_id'', PInt (lc_file_epoch_id m)),
      (''copy_index'', PInt (lc_copy_index m)),
      (''status'', text_value (lc_status m)),
      (''reason'', text_value (lc_reason m))]"

definition lc_encode :: "link_control \<Rightarrow> bytes res" where
  "lc_encode m = canonical_json (PDict (dict_body (lc_as_dict m)))"

text \<open>Fields of a dictionary: a missing one raises or takes its default; an identifier is a plain integer.\<close>

definition required :: "string \<Rightarrow> (py_value \<times> py_value) list \<Rightarrow> py_value res" where
  "required key es = (case dget key es of None \<Rightarrow> Inl KeyError | Some v \<Rightarrow> Inr v)"

definition integer_field :: "py_value \<Rightarrow> int res" where
  "integer_field v = (case v of PInt i \<Rightarrow> Inr i | _ \<Rightarrow> Inl (TypeError ''must be an integer''))"

definition optional_id :: "string \<Rightarrow> (py_value \<times> py_value) list \<Rightarrow> int res" where
  "optional_id key es = (case dget key es of None \<Rightarrow> Inr 0 | Some v \<Rightarrow> integer_field v)"

definition optional_text :: "(py_value \<Rightarrow> ustr) \<Rightarrow> string \<Rightarrow> (py_value \<times> py_value) list \<Rightarrow> ustr option" where
  "optional_text str key es =
     (case dget key es of
        None \<Rightarrow> None
      | Some PNone \<Rightarrow> None
      | Some (PStr s) \<Rightarrow> Some s
      | Some v \<Rightarrow> Some (str v))"

definition lc_fields :: "(py_value \<Rightarrow> ustr) \<Rightarrow> (py_value \<times> py_value) list \<Rightarrow> link_control res" where
  "lc_fields str es =
     rbind (rbind (required ''message_type'' es) lc_type_of) (\<lambda>message_type.
     rbind (rbind (required ''spacecraft_instance_id'' es) integer_field) (\<lambda>inst.
     rbind (rbind (required ''sender_boot_id'' es) integer_field) (\<lambda>boot.
     rbind (optional_id ''link_session_id'' es) (\<lambda>session.
     rbind (optional_id ''link_generation'' es) (\<lambda>generation.
     rbind (optional_id ''link_frame_id'' es) (\<lambda>frame_id.
     rbind (optional_id ''file_epoch_id'' es) (\<lambda>epoch.
     rbind (optional_id ''copy_index'' es) (\<lambda>copy.
     lc_post_init
       \<lparr> lc_message_type = message_type, lc_spacecraft_instance_id = inst, lc_sender_boot_id = boot,
         lc_link_session_id = session, lc_link_generation = generation, lc_link_frame_id = frame_id,
         lc_file_epoch_id = epoch, lc_copy_index = copy,
         lc_status = optional_text str ''status'' es, lc_reason = optional_text str ''reason'' es \<rparr>))))))))"

definition lc_from_mapping :: "(py_value \<Rightarrow> ustr) \<Rightarrow> (py_value \<times> py_value) list \<Rightarrow> link_control res" where
  "lc_from_mapping str es =
     (case lc_fields str es of
        Inl _ \<Rightarrow> Inl (ValueError ''invalid LinkControl fields'')
      | Inr m \<Rightarrow> Inr m)"

definition lc_decode :: "(py_value \<Rightarrow> ustr) \<Rightarrow> bytes \<Rightarrow> link_control res" where
  "lc_decode str raw =
     rbind (loads_or ''invalid LinkControl payload'' raw) (\<lambda>value.
     case value of
       PDict es \<Rightarrow>
         rbind (canonical_json value) (\<lambda>again.
           if again \<noteq> raw then Inl (ValueError ''invalid LinkControl payload'') else lc_from_mapping str es)
     | _ \<Rightarrow> Inl (ValueError ''LinkControl payload must be an object''))"

section \<open>A dictionary that is written and read back\<close>

definition body_ok :: "(string \<times> py_value) list \<Rightarrow> bool" where
  "body_ok kvs \<longleftrightarrow> distinct (map fst kvs) \<and>
     list_all (\<lambda>(k, v). json_ok v \<and> json_norm v = v \<and> list_all (\<lambda>c. of_char c < (128 :: nat)) k) kvs"

lemma ustr_scalar: "list_all (\<lambda>c. of_char c < (128 :: nat)) k \<Longrightarrow> list_all is_scalar (ustr k)"
  by (auto simp: ustr_def list_all_iff is_scalar_def is_surrogate_def)

lemma dict_body_ok: "body_ok kvs \<Longrightarrow> json_ok (PDict (dict_body kvs))"
proof -
  assume ok: "body_ok kvs"
  have "map fst (dict_body kvs) = map (PStr \<circ> ustr) (map fst kvs)" by (simp add: dict_body_def split_def)
  moreover have "inj (PStr \<circ> ustr)" by (auto simp: inj_def ustr_inj)
  ultimately have "distinct (map fst (dict_body kvs))"
    using ok by (simp only: distinct_map body_ok_def) (meson inj_on_subset subset_UNIV)
  moreover have "list_all is_scalar (ustr k) \<and> json_ok v" if "(k, v) \<in> set kvs" for k v
    using ok that ustr_scalar [of k] by (auto simp: body_ok_def list_all_iff [of _ kvs])
  ultimately show ?thesis by (auto simp: dict_body_def list_all_iff [of _ "map _ _"] is_str_def)
qed

lemma dget_dict_body: "dget k (dict_body kvs) = map_of kvs k"
  by (induction kvs) (auto simp: dget_def dict_body_def ustr_inj)

lemma dget_read_back:
  assumes "body_ok kvs" "json_norm (PDict (dict_body kvs)) = PDict es"
  shows "dget k es = map_of kvs k"
proof -
  have d: "distinct (map fst (dict_body kvs))" using dict_body_ok [OF assms(1)] by simp
  have es: "es = map member_norm (sort_key (\<lambda>(k, _). str_of k) (dict_body kvs))"
    using assms(2) unfolding json_norm_dict by simp
  have "dget k es = map_option json_norm (map_of kvs k)"
    using json_norm_lookup [OF d, of "\<lambda>(k, _). str_of k" "PStr (ustr k)"] dget_dict_body [of k kvs]
    by (simp only: es dget_def)
  moreover have "json_norm v = v" if "map_of kvs k = Some v" for v
    using assms(1) map_of_SomeD [OF that] by (auto simp: body_ok_def list_all_iff)
  ultimately show ?thesis by (cases "map_of kvs k") simp_all
qed

lemma int_readable_u64: "0 \<le> i \<Longrightarrow> i < 18446744073709551616 \<Longrightarrow> int_readable i"
proof -
  assume i: "0 \<le> i" "i < 18446744073709551616"
  then have "nat \<bar>i\<bar> < 10 ^ 20" by simp
  then have "length (nat_text (nat \<bar>i\<bar>)) \<le> 20" by (rule nat_text_length) simp
  then show ?thesis by (simp add: int_readable_def)
qed

lemma loads_or_read_back:
  assumes "json_ok v" "b = map word_of_nat (json_text v)"
  shows "loads_or message b = Inr (json_norm v)"
  using assms by (simp add: loads_or_def utf8_decode_printable json_text_printable json_loads_text)

section \<open>LinkControl\<close>

lemma lc_type_of_value [simp]: "lc_type_of (PStr (ustr (lc_type_value t))) = Inr t"
  by (cases t) (simp_all add: lc_type_of_def ustr_inj)

definition text_ok :: "ustr option \<Rightarrow> bool" where
  "text_ok t \<longleftrightarrow> (case t of None \<Rightarrow> True | Some s \<Rightarrow> list_all is_scalar s)"

lemma lc_post_init_Inr:
  "lc_post_init m = Inr m' \<longleftrightarrow> m' = m \<and>
     0 \<le> lc_spacecraft_instance_id m \<and> lc_spacecraft_instance_id m < 18446744073709551616 \<and>
     0 \<le> lc_sender_boot_id m \<and> lc_sender_boot_id m < 4294967296 \<and>
     0 \<le> lc_link_session_id m \<and> lc_link_session_id m < 18446744073709551616 \<and>
     0 \<le> lc_link_generation m \<and> lc_link_generation m < 18446744073709551616 \<and>
     0 \<le> lc_link_frame_id m \<and> lc_link_frame_id m < 18446744073709551616 \<and>
     0 \<le> lc_file_epoch_id m \<and> lc_file_epoch_id m < 18446744073709551616 \<and>
     0 \<le> lc_copy_index m \<and> lc_copy_index m < 4294967296 \<and>
     \<not> (lc_message_type m \<in> {FRAME_ACCEPTED, FRAME_CONSUMED} \<and> lc_link_frame_id m = 0) \<and>
     \<not> (lc_message_type m = ABORT_FILE_EPOCH \<and> lc_file_epoch_id m = 0)"
  by (auto simp: lc_post_init_def rbind_Inr_iff)

lemma text_value_ok: "text_ok t \<Longrightarrow> json_ok (text_value t) \<and> json_norm (text_value t) = text_value t"
  by (cases t) (simp_all add: text_value_def text_ok_def)

lemma lc_body_ok:
  assumes "lc_post_init m = Inr m" "text_ok (lc_status m)" "text_ok (lc_reason m)"
  shows "body_ok (lc_as_dict m)"
proof -
  have "list_all (\<lambda>c. of_char c < (128 :: nat)) (lc_type_value t)" for t
    by (cases t) simp_all
  then have "list_all is_scalar (ustr (lc_type_value t))" for t by (rule ustr_scalar)
  with assms show ?thesis
    by (simp add: body_ok_def lc_as_dict_def lc_post_init_Inr int_readable_u64 text_value_ok)
qed

text \<open>
  C7: A LinkControl message survives its encoding: a message the constructor accepts, with text
  of Unicode scalar values, is encoded, and decoding the bytes gives back the same message;
  whatever \<^verbatim>\<open>str\<close> does to other values, since none is met.
\<close>

theorem control_codec:
  assumes m: "lc_post_init m = Inr m'" and t: "text_ok (lc_status m)" "text_ok (lc_reason m)"
  shows "\<exists>b. lc_encode m = Inr b \<and> lc_decode str b = Inr m'"
proof -
  have m': "m' = m" and m: "lc_post_init m = Inr m" using m by (simp_all add: lc_post_init_Inr)
  note ok = lc_body_ok [OF m t]
  let ?v = "PDict (dict_body (lc_as_dict m))"
  have v: "json_ok ?v" by (rule dict_body_ok [OF ok])
  obtain es where es: "json_norm ?v = PDict es" unfolding json_norm_dict by blast
  note get = dget_read_back [OF ok es]
  let ?b = "map word_of_nat (json_text ?v)"
  have "lc_encode m = Inr ?b" "canonical_json (PDict es) = Inr ?b"
    using canonical_json_ok [OF json_ok_valid [OF v]]
      canonical_json_ok [OF json_ok_valid [OF json_ok_norm [OF v]]] json_text_norm [of ?v]
    unfolding es by (simp_all only: lc_encode_def)
  moreover have "lc_fields str es = lc_post_init m"
    unfolding lc_fields_def required_def optional_id_def optional_text_def get
    by (cases m) (simp add: lc_as_dict_def integer_field_def text_value_def split: option.split)
  ultimately show ?thesis
    using m m' loads_or_read_back [OF v refl] unfolding es
    by (simp add: lc_decode_def lc_from_mapping_def)
qed

definition demo_control :: link_control where
  "demo_control = \<lparr> lc_message_type = FRAME_CONSUMED, lc_spacecraft_instance_id = 1, lc_sender_boot_id = 7,
     lc_link_session_id = 3, lc_link_generation = 2, lc_link_frame_id = 9, lc_file_epoch_id = 0,
     lc_copy_index = 1, lc_status = Some (ustr ''FRAME_LOST''), lc_reason = None \<rparr>"

lemma control_codec_witness:
  "\<exists>b. lc_encode demo_control = Inr b \<and> lc_decode (\<lambda>_. []) b = Inr demo_control"
  by (rule control_codec [of demo_control demo_control "\<lambda>_. []"])
    (simp_all add: demo_control_def lc_post_init_Inr text_ok_def ustr_def is_scalar_def is_surrogate_def)

section \<open>The handshake\<close>

lemma json_body_dict: "json_body kvs = Inr (map word_of_nat (json_text (PDict (dict_body kvs))))"
  unfolding json_body_def dict_body_def by (rule utf8_ascii [OF json_text_printable])

lemma dget_dput: "dget k (dput (PStr (ustr j)) v es) = (if k = j then Some v else dget k es)"
  by (simp add: dget_def ustr_inj)

lemma set_bounded_Inr:
  assumes "dget key es = Some (PInt i)" "bounded_int i maximum zero = Inr j"
  shows "set_bounded key maximum zero es = Inr (dput (PStr (ustr key)) (PInt i) es)"
  using assms by (auto simp: set_bounded_def bounded_value_def bounded_int_def split: if_splits)

lemma bounded_readable: "bounded_int i maximum zero = Inr j \<Longrightarrow> maximum < 18446744073709551616 \<Longrightarrow> int_readable i"
  by (rule int_readable_u64) (auto simp: bounded_int_def split: if_splits)

lemma decode_reply:
  assumes "loads_or ''session control payload is not valid JSON'' body = Inr (PDict es)"
    and "dget ''kind'' es = Some (PStr (ustr ''SESSION''))"
  shows "decode_session_control (SESSION_REPLY_MAGIC @ body) =
    rbind (set_bounded ''spacecraft_instance_id'' 0xFFFFFFFFFFFFFFFF False es) (\<lambda>es.
      rbind (decode_binding es) (\<lambda>es. Inr (Some es)))"
  using assms by (simp add: decode_session_control_def)

text \<open>A JSON object does not start with the mark that tells the two prefixes apart.\<close>

lemma decode_request:
  assumes "loads_or ''session control payload is not valid JSON'' (123 # body) = Inr (PDict es)"
    and "dget ''kind'' es = Some (PStr (ustr ''HELLO''))"
  shows "decode_session_control (SESSION_CONTROL_MAGIC @ 123 # body) =
    rbind (set_bounded ''spacecraft_instance_id'' 0xFFFFFFFFFFFFFFFF False es) (\<lambda>es.
      rbind (decode_hello es) (\<lambda>es. Inr (Some es)))"
proof -
  have "take (length SESSION_REPLY_MAGIC) (SESSION_CONTROL_MAGIC @ 123 # body) \<noteq> SESSION_REPLY_MAGIC"
    by (simp add: SESSION_CONTROL_MAGIC_def SESSION_REPLY_MAGIC_def)
  with assms show ?thesis by (simp add: decode_session_control_def)
qed

lemma binding_read_back:
  assumes "encode_session_binding inst boot session generation = Inr d"
  obtains es where "decode_session_control d = Inr (Some es)" "dget ''kind'' es = Some (PStr (ustr ''SESSION''))"
    "dget ''spacecraft_instance_id'' es = Some (PInt inst)" "dget ''sender_boot_id'' es = Some (PInt boot)"
    "dget ''link_session_id'' es = Some (PInt session)" "dget ''link_generation'' es = Some (PInt generation)"
proof -
  define kvs where "kvs = [(''kind'', PStr (ustr ''SESSION'')), (''link_generation'', PInt generation),
       (''link_session_id'', PInt session), (''sender_boot_id'', PInt boot), (''spacecraft_instance_id'', PInt inst)]"
  have b: "bounded_int generation 0xFFFFFFFFFFFFFFFF False = Inr generation"
    "bounded_int session 0xFFFFFFFFFFFFFFFF False = Inr session" "bounded_int boot 0xFFFFFFFF True = Inr boot"
    "bounded_int inst 0xFFFFFFFFFFFFFFFF False = Inr inst"
    and d: "d = SESSION_REPLY_MAGIC @ map word_of_nat (json_text (PDict (dict_body kvs)))"
    using assms by (auto simp: encode_session_binding_def rbind_Inr_iff json_body_dict kvs_def bounded_int_def split: if_splits)
  have "list_all is_scalar (ustr ''SESSION'')" by (rule ustr_scalar) simp
  then have ok: "body_ok kvs" using b [THEN bounded_readable] by (simp add: body_ok_def kvs_def)
  obtain es where es: "json_norm (PDict (dict_body kvs)) = PDict es" unfolding json_norm_dict by blast
  note get = dget_read_back [OF ok es]
  note ld = loads_or_read_back [OF dict_body_ok [OF ok] refl, unfolded es]
  note put = set_bounded_Inr [OF _ b(4)] set_bounded_Inr [OF _ b(3)] set_bounded_Inr [OF _ b(2)] set_bounded_Inr [OF _ b(1)]
  have kv: "dget ''kind'' es = Some (PStr (ustr ''SESSION''))" "dget ''spacecraft_instance_id'' es = Some (PInt inst)"
    "dget ''sender_boot_id'' es = Some (PInt boot)" "dget ''link_session_id'' es = Some (PInt session)"
    "dget ''link_generation'' es = Some (PInt generation)"
    by (simp_all add: get kvs_def)
  show ?thesis
    by (rule that [of "dput (PStr (ustr ''link_generation'')) (PInt generation)
        (dput (PStr (ustr ''link_session_id'')) (PInt session) (dput (PStr (ustr ''sender_boot_id'')) (PInt boot)
        (dput (PStr (ustr ''spacecraft_instance_id'')) (PInt inst) es)))"])
      (simp_all add: d decode_reply [OF ld kv(1)] put decode_binding_def dget_dput kv del: json_text.simps)
qed

lemma hello_read_back:
  assumes "encode_session_hello role inst boot = Inr d"
  obtains es where "decode_session_control d = Inr (Some es)" "dget ''kind'' es = Some (PStr (ustr ''HELLO''))"
    "dget ''role'' es = Some (PStr (ustr role))" "dget ''spacecraft_instance_id'' es = Some (PInt inst)"
    "dget ''sender_boot_id'' es = Some (case boot of None \<Rightarrow> PNone | Some b \<Rightarrow> PInt b)"
proof -
  define boot_value where "boot_value = (case boot of None \<Rightarrow> PNone | Some b \<Rightarrow> PInt b)"
  define kvs where "kvs = [(''kind'', PStr (ustr ''HELLO'')), (''role'', PStr (ustr role)),
      (''sender_boot_id'', boot_value), (''spacecraft_instance_id'', PInt inst)]"
  have role: "role = ''gds'' \<or> role = ''satellite''" and i: "bounded_int inst 0xFFFFFFFFFFFFFFFF False = Inr inst"
    and b: "case boot of None \<Rightarrow> role = ''gds'' | Some b \<Rightarrow> bounded_int b 0xFFFFFFFF True = Inr b"
    and d: "d = SESSION_CONTROL_MAGIC @ map word_of_nat (json_text (PDict (dict_body kvs)))"
    using assms by (auto simp: encode_session_hello_def rbind_Inr_iff json_body_dict kvs_def bounded_int_def boot_value_def
        split: if_splits option.splits)
  have sc: "list_all is_scalar (ustr ''HELLO'')" "list_all is_scalar (ustr role)"
    using role by (auto intro!: ustr_scalar)
  have bv: "json_ok boot_value" "json_norm boot_value = boot_value"
    using b by (auto simp: boot_value_def dest: bounded_readable split: option.splits)
  have ok: "body_ok kvs" using i [THEN bounded_readable] sc bv by (simp add: body_ok_def kvs_def)
  obtain es where es: "json_norm (PDict (dict_body kvs)) = PDict es" unfolding json_norm_dict by blast
  note get = dget_read_back [OF ok es]
  have kv: "dget ''kind'' es = Some (PStr (ustr ''HELLO''))" "dget ''role'' es = Some (PStr (ustr role))"
    "dget ''sender_boot_id'' es = Some boot_value" "dget ''spacecraft_instance_id'' es = Some (PInt inst)"
    by (simp_all add: get kvs_def)
  obtain r where r: "map word_of_nat (json_text (PDict (dict_body kvs))) = (123 :: byte) # r" by simp
  note ld = loads_or_read_back [OF dict_body_ok [OF ok] r [symmetric], unfolded es]
  note put = set_bounded_Inr [OF _ i]
  let ?es = "dput (PStr (ustr ''spacecraft_instance_id'')) (PInt inst) es"
  let ?es' = "case boot of None \<Rightarrow> ?es | Some b \<Rightarrow> dput (PStr (ustr ''sender_boot_id'')) (PInt b) ?es"
  have "decode_hello ?es = Inr ?es'"
    using b role kv set_bounded_Inr [of "''sender_boot_id''" ?es]
    by (cases boot) (auto simp: decode_hello_def in_str_set_def dget_dput boot_value_def ustr_inj)
  then have "decode_session_control d = Inr (Some ?es')"
    by (simp add: d r decode_request [OF ld kv(1)] put kv del: json_text.simps)
  then show ?thesis
    by (rule that) (use kv in \<open>simp_all add: dget_dput boot_value_def split: option.split\<close>)
qed

text \<open>
  C8: The handshake is read as it is written. A HELLO that \<^verbatim>\<open>encode_session_hello\<close> produces is
  read as a HELLO with the same role, spacecraft and boot, and a binding that
  \<^verbatim>\<open>encode_session_binding\<close> produces as a SESSION with the same identifiers; so neither is taken
  for the other, nor for a mission frame, although one prefix is the start of the other.
\<close>

theorem handshake_codec:
  "(encode_session_hello role inst boot = Inr hello \<longrightarrow>
      (\<exists>es. decode_session_control hello = Inr (Some es) \<and>
        dget ''kind'' es = Some (PStr (ustr ''HELLO'')) \<and> dget ''role'' es = Some (PStr (ustr role)) \<and>
        dget ''spacecraft_instance_id'' es = Some (PInt inst) \<and>
        dget ''sender_boot_id'' es = Some (case boot of None \<Rightarrow> PNone | Some b \<Rightarrow> PInt b))) \<and>
   (encode_session_binding inst' boot' session generation = Inr binding \<longrightarrow>
      (\<exists>es. decode_session_control binding = Inr (Some es) \<and>
        dget ''kind'' es = Some (PStr (ustr ''SESSION'')) \<and>
        dget ''spacecraft_instance_id'' es = Some (PInt inst') \<and> dget ''sender_boot_id'' es = Some (PInt boot') \<and>
        dget ''link_session_id'' es = Some (PInt session) \<and>
        dget ''link_generation'' es = Some (PInt generation)))"
proof -
  have "encode_session_hello role inst boot = Inr hello \<Longrightarrow>
      \<exists>es. decode_session_control hello = Inr (Some es) \<and>
        dget ''kind'' es = Some (PStr (ustr ''HELLO'')) \<and> dget ''role'' es = Some (PStr (ustr role)) \<and>
        dget ''spacecraft_instance_id'' es = Some (PInt inst) \<and>
        dget ''sender_boot_id'' es = Some (case boot of None \<Rightarrow> PNone | Some b \<Rightarrow> PInt b)"
    by (erule hello_read_back) blast
  moreover have "encode_session_binding inst' boot' session generation = Inr binding \<Longrightarrow>
      \<exists>es. decode_session_control binding = Inr (Some es) \<and>
        dget ''kind'' es = Some (PStr (ustr ''SESSION'')) \<and>
        dget ''spacecraft_instance_id'' es = Some (PInt inst') \<and> dget ''sender_boot_id'' es = Some (PInt boot') \<and>
        dget ''link_session_id'' es = Some (PInt session) \<and>
        dget ''link_generation'' es = Some (PInt generation)"
    by (erule binding_read_back) blast
  ultimately show ?thesis by blast
qed

lemma handshake_codec_witness:
  "\<exists>es. (\<exists>hello. encode_session_hello ''satellite'' 1 (Some 7) = Inr hello \<and>
        decode_session_control hello = Inr (Some es)) \<and>
      dget ''role'' es = Some (PStr (ustr ''satellite'')) \<and> dget ''sender_boot_id'' es = Some (PInt 7)"
proof -
  obtain hello where h: "encode_session_hello ''satellite'' 1 (Some 7) = Inr hello"
    by (simp add: encode_session_hello_def json_body_dict bounded_int_def)
  from handshake_codec [of "''satellite''" 1 "Some 7" hello 1 7 1 1 "[]"] h show ?thesis by auto
qed

end
