(* ===== verification/FaultModel.thy ===== *)
theory FaultModel
  imports Interfaces
begin

text \<open>
  \<^verbatim>\<open>link_sim/fault_model.py\<close>: the deterministic fault injection. SHA-256 is a parameter, a
  function from bytes to bytes; nothing is assumed of it. The loop that draws distinct bit
  offsets ends because its counter is packed as 32 bits: \<^verbatim>\<open>struct.pack\<close> raises when it
  overflows, which is the termination measure here.
\<close>

section \<open>Profile and decision\<close>

datatype fault_stage = LOSS | DUPLICATE | CORRUPT_DECISION | CORRUPT_BIT | JITTER | REORDER

fun stage_code :: "fault_stage \<Rightarrow> int" where
  "stage_code LOSS = 1"
| "stage_code DUPLICATE = 2"
| "stage_code CORRUPT_DECISION = 3"
| "stage_code CORRUPT_BIT = 4"
| "stage_code JITTER = 5"
| "stage_code REORDER = 6"

record fault_profile =
  fp_schema_version :: int
  fp_profile_revision :: int
  fp_base_latency_ns :: int
  fp_jitter_abs_ns :: int
  fp_frame_loss_rate_ppm :: int
  fp_frame_duplicate_rate_ppm :: int
  fp_corrupt_frame_rate_ppm :: int
  fp_bits_per_corrupt_frame :: int
  fp_reorder_window_slots :: int
  fp_reorder_slot_ns :: int
  fp_bitrate_bps :: int

definition fault_profile_validate :: "fault_profile \<Rightarrow> unit res" where
  "fault_profile_validate p =
     (if \<not> (0 \<le> fp_frame_loss_rate_ppm p \<and> fp_frame_loss_rate_ppm p \<le> 1000000)
      then Inl (ValueError ''Invalid loss rate'')
      else if \<not> (0 \<le> fp_frame_duplicate_rate_ppm p \<and> fp_frame_duplicate_rate_ppm p \<le> 1000000)
      then Inl (ValueError ''Invalid duplicate rate'')
      else if \<not> (0 \<le> fp_corrupt_frame_rate_ppm p \<and> fp_corrupt_frame_rate_ppm p \<le> 1000000)
      then Inl (ValueError ''Invalid corrupt rate'')
      else if fp_bits_per_corrupt_frame p < 0
      then Inl (ValueError ''Invalid bits_per_corrupt_frame'')
      else if fp_base_latency_ns p < fp_jitter_abs_ns p
      then Inl (ValueError ''base_latency_ns must be >= jitter_abs_ns'')
      else if fp_bitrate_bps p \<le> 0 then Inl (ValueError ''bitrate_bps must be > 0'')
      else if fp_reorder_window_slots p < 0
      then Inl (ValueError ''Invalid reorder_window_slots'')
      else if fp_reorder_slot_ns p < 0 then Inl (ValueError ''Invalid reorder_slot_ns'')
      else Inr ())"

record fault_decision =
  fd_is_lost :: bool
  fd_has_duplicate :: bool
  fd_is_corrupted :: bool
  fd_corrupted_bits :: "int list"
  fd_latency_ns :: int
  fd_jitter_ns :: int
  fd_reorder_slots :: int
  fd_due_ns :: int
  fd_tx_start_ns :: int
  fd_tx_duration_ns :: int
  fd_release_ns :: int

record fault_model =
  fm_seed :: int
  fm_simulation_run_id :: int

section \<open>The counter PRF\<close>

definition PRF_DOMAIN :: bytes where
  "PRF_DOMAIN = [108, 105, 110, 107, 45, 102, 97, 117, 108, 116, 45, 118, 49]"

text \<open>What a draw is about: all but seed and run.\<close>

record draw_key =
  dk_profile_revision :: int
  dk_direction :: int
  dk_link_frame_id :: int
  dk_copy_index :: int
  dk_stage_code :: int

text \<open>
  The packed input, \<^verbatim>\<open>">8sQQIBQHBI"\<close>: the format takes eight bytes of the domain, an unsigned
  integer that does not fit its field raises.
\<close>

definition prf_input :: "fault_model \<Rightarrow> draw_key \<Rightarrow> int \<Rightarrow> bytes res" where
  "prf_input m k draw_index =
     rbind (pack_uint 8 (fm_seed m)) (\<lambda>seed.
     rbind (pack_uint 8 (fm_simulation_run_id m)) (\<lambda>run.
     rbind (pack_uint 4 (dk_profile_revision k)) (\<lambda>revision.
     rbind (pack_uint 1 (dk_direction k)) (\<lambda>direction.
     rbind (pack_uint 8 (dk_link_frame_id k)) (\<lambda>frame_id.
     rbind (pack_uint 2 (dk_copy_index k)) (\<lambda>copy.
     rbind (pack_uint 1 (dk_stage_code k)) (\<lambda>stage.
     rbind (pack_uint 4 draw_index) (\<lambda>draw.
       Inr (take 8 PRF_DOMAIN @ seed @ run @ revision @ direction @ frame_id @ copy @ stage @ draw)))))))))"

definition prf_u64 :: "(bytes \<Rightarrow> bytes) \<Rightarrow> fault_model \<Rightarrow> draw_key \<Rightarrow> int \<Rightarrow> int res" where
  "prf_u64 sha256 m k draw_index =
     rbind (prf_input m k draw_index) (\<lambda>data. Inr (int (be_val (take 8 (sha256 data)))))"

definition draw_bool :: "(bytes \<Rightarrow> bytes) \<Rightarrow> fault_model \<Rightarrow> int \<Rightarrow> draw_key \<Rightarrow> int \<Rightarrow> bool res" where
  "draw_bool sha256 m rate_ppm k draw_index =
     (if rate_ppm = 0 then Inr False
      else if rate_ppm = 1000000 then Inr True
      else rbind (prf_u64 sha256 m k draw_index) (\<lambda>draw.
        let threshold = (rate_ppm * 2 ^ 64) div 1000000 in Inr (draw < threshold)))"

definition draw_bounded :: "(bytes \<Rightarrow> bytes) \<Rightarrow> fault_model \<Rightarrow> int \<Rightarrow> draw_key \<Rightarrow> int \<Rightarrow> int res" where
  "draw_bounded sha256 m upper_bound k draw_index =
     (if upper_bound \<le> 0 then Inl (ValueError ''upper_bound must be > 0'')
      else rbind (prf_u64 sha256 m k draw_index) (\<lambda>draw. Inr ((draw * upper_bound) div 2 ^ 64)))"

lemma pack_uint_Inr: "pack_uint n v = Inr b \<longleftrightarrow> 0 \<le> v \<and> v < 256 ^ n \<and> b = be_bytes n (nat v)"
  by (auto simp: pack_uint_def)

lemma draw_bounded_index: "draw_bounded sha256 m n k i = Inr v \<Longrightarrow> 0 \<le> i \<and> i < 2 ^ 32"
  by (auto simp: draw_bounded_def prf_u64_def prf_input_def rbind_Inr_iff pack_uint_Inr
      simp del: be_bytes.simps split: if_splits)

section \<open>Applying the profile\<close>

text \<open>The loop of stage 4: draw until there are enough distinct offsets.\<close>

function select_bits ::
  "(bytes \<Rightarrow> bytes) \<Rightarrow> fault_model \<Rightarrow> int \<Rightarrow> int \<Rightarrow> draw_key \<Rightarrow> int list \<Rightarrow> int \<Rightarrow> int list res" where
  "select_bits sha256 m frame_bits want k bits draw_index =
     (if int (length bits) < want then
        rbind (draw_bounded sha256 m frame_bits k draw_index) (\<lambda>bit_offset.
          select_bits sha256 m frame_bits want k
            (if bit_offset \<notin> set bits then bits @ [bit_offset] else bits) (draw_index + 1))
      else Inr bits)"
  by pat_completeness auto
termination
  by (relation "measure (\<lambda>(sha256, m, frame_bits, want, k, bits, i). nat (2 ^ 32 - i))")
    (auto dest!: draw_bounded_index)

declare select_bits.simps [simp del]

definition fm_key :: "fault_profile \<Rightarrow> int \<Rightarrow> int \<Rightarrow> int \<Rightarrow> fault_stage \<Rightarrow> draw_key" where
  "fm_key p direction link_frame_id copy_index stage =
     \<lparr> dk_profile_revision = fp_profile_revision p, dk_direction = direction,
       dk_link_frame_id = link_frame_id, dk_copy_index = copy_index,
       dk_stage_code = stage_code stage \<rparr>"

text \<open>Stages 3 and 4, 5, 6, and the times that follow from them.\<close>

definition corruption_offsets ::
  "(bytes \<Rightarrow> bytes) \<Rightarrow> fault_model \<Rightarrow> fault_profile \<Rightarrow> int \<Rightarrow> draw_key \<Rightarrow> bool \<Rightarrow> int list res" where
  "corruption_offsets sha256 m p frame_bits k is_corrupted =
     (if is_corrupted \<and> fp_bits_per_corrupt_frame p > 0
      then if fp_bits_per_corrupt_frame p > frame_bits
        then Inl (ValueError ''bits_per_corrupt_frame > frame_bits'')
        else select_bits sha256 m frame_bits (fp_bits_per_corrupt_frame p) k [] 0
      else Inr [])"

definition draw_jitter :: "(bytes \<Rightarrow> bytes) \<Rightarrow> fault_model \<Rightarrow> fault_profile \<Rightarrow> draw_key \<Rightarrow> int res" where
  "draw_jitter sha256 m p k =
     (if fp_jitter_abs_ns p > 0
      then rbind (draw_bounded sha256 m (2 * fp_jitter_abs_ns p + 1) k 0)
        (\<lambda>jitter_unsigned. Inr (jitter_unsigned - fp_jitter_abs_ns p))
      else Inr 0)"

definition draw_reorder :: "(bytes \<Rightarrow> bytes) \<Rightarrow> fault_model \<Rightarrow> fault_profile \<Rightarrow> draw_key \<Rightarrow> int res" where
  "draw_reorder sha256 m p k =
     (if fp_reorder_window_slots p > 0
      then draw_bounded sha256 m (fp_reorder_window_slots p + 1) k 0 else Inr 0)"

record frame_times =
  ft_due_ns :: int
  ft_tx_start_ns :: int
  ft_tx_duration_ns :: int
  ft_release_ns :: int

definition schedule_frame :: "fault_profile \<Rightarrow> int \<Rightarrow> int \<Rightarrow> int \<Rightarrow> int \<Rightarrow> int \<Rightarrow> frame_times res" where
  "schedule_frame p frame_bits ingress_time_ns link_available_ns jitter_ns reorder_slots =
     (let due_ns = ingress_time_ns + fp_base_latency_ns p + jitter_ns + reorder_slots * fp_reorder_slot_ns p in
      if due_ns < 0 \<or> due_ns > 2 ^ 64 - 1 then Inl (OverflowError ''due_ns overflow'')
      else
      let tx_start_ns = max due_ns link_available_ns;
          tx_duration_ns = (frame_bits * 10 ^ 9 + fp_bitrate_bps p - 1) div fp_bitrate_bps p;
          release_ns = tx_start_ns + tx_duration_ns in
      if release_ns < 0 \<or> release_ns > 2 ^ 64 - 1 then Inl (OverflowError ''release_ns overflow'')
      else Inr \<lparr> ft_due_ns = due_ns, ft_tx_start_ns = tx_start_ns,
        ft_tx_duration_ns = tx_duration_ns, ft_release_ns = release_ns \<rparr>)"

definition apply_faults ::
  "(bytes \<Rightarrow> bytes) \<Rightarrow> fault_model \<Rightarrow> fault_profile \<Rightarrow> int \<Rightarrow> int \<Rightarrow> int \<Rightarrow> int \<Rightarrow> int \<Rightarrow> int \<Rightarrow> bool \<Rightarrow>
     fault_decision res" where
  "apply_faults sha256 m p direction link_frame_id frame_bits ingress_time_ns link_available_ns
       copy_index include_duplicate =
     rbind (fault_profile_validate p) (\<lambda>_.
     if \<not> (0 \<le> copy_index \<and> copy_index \<le> 0xFFFF)
     then Inl (ValueError ''copy_index must fit U16'')
     else
     let key = fm_key p direction link_frame_id copy_index in
     rbind (draw_bool sha256 m (fp_frame_loss_rate_ppm p) (key LOSS) 0) (\<lambda>is_lost.
     rbind (if include_duplicate
            then draw_bool sha256 m (fp_frame_duplicate_rate_ppm p) (key DUPLICATE) 0
            else Inr False) (\<lambda>has_duplicate.
     rbind (draw_bool sha256 m (fp_corrupt_frame_rate_ppm p) (key CORRUPT_DECISION) 0) (\<lambda>is_corrupted.
     rbind (corruption_offsets sha256 m p frame_bits (key CORRUPT_BIT) is_corrupted) (\<lambda>corrupted_bits.
     rbind (draw_jitter sha256 m p (key JITTER)) (\<lambda>jitter_ns.
     rbind (draw_reorder sha256 m p (key REORDER)) (\<lambda>reorder_slots.
     rbind (schedule_frame p frame_bits ingress_time_ns link_available_ns jitter_ns reorder_slots) (\<lambda>t.
     Inr \<lparr> fd_is_lost = is_lost, fd_has_duplicate = has_duplicate,
       fd_is_corrupted = is_corrupted, fd_corrupted_bits = sort corrupted_bits,
       fd_latency_ns = fp_base_latency_ns p, fd_jitter_ns = jitter_ns,
       fd_reorder_slots = reorder_slots, fd_due_ns = ft_due_ns t,
       fd_tx_start_ns = ft_tx_start_ns t, fd_tx_duration_ns = ft_tx_duration_ns t,
       fd_release_ns = ft_release_ns t \<rparr>))))))))"

text \<open>Flipping bits: offset 0 is the most significant bit of the first byte.\<close>

fun corrupt_frame :: "bytes \<Rightarrow> int list \<Rightarrow> bytes res" where
  "corrupt_frame frame [] = Inr frame"
| "corrupt_frame frame (bit_offset # bit_offsets) =
     (if bit_offset < 0 \<or> bit_offset \<ge> int (length frame) * 8
      then Inl (ValueError ''Bit offset out of range'')
      else
        let byte_index = nat (bit_offset div 8);
            bit_index = nat (bit_offset mod 8);
            mask = push_bit (7 - bit_index) 1
        in corrupt_frame (frame[byte_index := (frame ! byte_index) XOR mask]) bit_offsets)"

section \<open>Facts about draws\<close>

lemma draw_range: "prf_u64 sha256 m k i = Inr v \<Longrightarrow> 0 \<le> v \<and> v < 2 ^ 64"
proof -
  assume "prf_u64 sha256 m k i = Inr v"
  then obtain data where v: "v = int (be_val (take 8 (sha256 data)))"
    by (auto simp: prf_u64_def rbind_Inr_iff)
  have "be_val (take 8 (sha256 data)) < 256 ^ length (take 8 (sha256 data))" by (rule be_val_less)
  also have "\<dots> \<le> 256 ^ 8" by (rule power_increasing) simp_all
  finally show ?thesis by (simp add: v)
qed

lemma draw_bounded_range:
  assumes "draw_bounded sha256 m n k i = Inr v"
  shows "0 \<le> v \<and> v < n"
proof -
  from assms obtain u where n: "0 < n" and u: "prf_u64 sha256 m k i = Inr u" and v: "v = (u * n) div 2 ^ 64"
    by (auto simp: draw_bounded_def rbind_Inr_iff split: if_splits)
  from draw_range [OF u] have r: "0 \<le> u" "u < 2 ^ 64" by auto
  have "u * n < 2 ^ 64 * n" using r n by (intro mult_strict_right_mono) simp_all
  then have "u * n < n * 2 ^ 64" by (simp add: mult.commute)
  then have "v < n" unfolding v using floor_le_iff_less [of "2 ^ 64" "u * n" "n - 1"] by simp
  then show ?thesis using r n by (simp add: v pos_imp_zdiv_nonneg_iff)
qed

lemma select_bits_spec:
  "select_bits sha256 m n want k bits i = Inr out \<Longrightarrow> distinct bits \<Longrightarrow>
   \<forall>b \<in> set bits. 0 \<le> b \<and> b < n \<Longrightarrow> int (length bits) \<le> want \<Longrightarrow>
   distinct out \<and> (\<forall>b \<in> set out. 0 \<le> b \<and> b < n) \<and> int (length out) = want"
proof (induction sha256 m n want k bits i rule: select_bits.induct)
  case (1 sha256 m n want k bits i)
  show ?case
  proof (cases "int (length bits) < want")
    case False
    with 1 show ?thesis by (simp add: select_bits.simps [of sha256 m n want k bits])
  next
    case True
    with 1 obtain b where b: "draw_bounded sha256 m n k i = Inr b"
      and out: "select_bits sha256 m n want k (if b \<notin> set bits then bits @ [b] else bits) (i + 1) = Inr out"
      by (auto simp: select_bits.simps [of sha256 m n want k bits] rbind_Inr_iff)
    from draw_bounded_range [OF b] True 1(3-5)
    show ?thesis by (intro 1(1) [OF True b out]) (auto split: if_splits)
  qed
qed

lemma fault_profile_valid:
  assumes "fault_profile_validate p = Inr ()"
  shows "0 \<le> fp_bits_per_corrupt_frame p" "fp_jitter_abs_ns p \<le> fp_base_latency_ns p"
    "0 \<le> fp_reorder_window_slots p" "0 \<le> fp_reorder_slot_ns p" "0 < fp_bitrate_bps p"
  using assms by (simp_all add: fault_profile_validate_def not_less)

lemma corruption_offsets_spec:
  assumes "corruption_offsets sha256 m p n k c = Inr bits" "0 \<le> fp_bits_per_corrupt_frame p"
  shows "distinct bits \<and> (\<forall>b \<in> set bits. 0 \<le> b \<and> b < n) \<and>
      int (length bits) = (if c then fp_bits_per_corrupt_frame p else 0)"
proof (cases "c \<and> fp_bits_per_corrupt_frame p > 0")
  case True
  then have "select_bits sha256 m n (fp_bits_per_corrupt_frame p) k [] 0 = Inr bits"
    using assms(1) by (simp add: corruption_offsets_def)
  from select_bits_spec [OF this] True show ?thesis by simp
next
  case False
  then show ?thesis using assms by (auto simp: corruption_offsets_def)
qed

lemma draw_jitter_spec:
  assumes "draw_jitter sha256 m p k = Inr j"
  shows "\<bar>j\<bar> \<le> max 0 (fp_jitter_abs_ns p)"
proof (cases "fp_jitter_abs_ns p > 0")
  case True
  then obtain u where "draw_bounded sha256 m (2 * fp_jitter_abs_ns p + 1) k 0 = Inr u"
    "j = u - fp_jitter_abs_ns p"
    using assms by (auto simp: draw_jitter_def rbind_Inr_iff)
  from draw_bounded_range [OF this(1)] this(2) True show ?thesis by linarith
next
  case False
  then show ?thesis using assms by (simp add: draw_jitter_def)
qed

lemma draw_reorder_spec:
  assumes "draw_reorder sha256 m p k = Inr r" "0 \<le> fp_reorder_window_slots p"
  shows "0 \<le> r \<and> r \<le> fp_reorder_window_slots p"
proof (cases "fp_reorder_window_slots p > 0")
  case True
  then have "draw_bounded sha256 m (fp_reorder_window_slots p + 1) k 0 = Inr r"
    using assms by (simp add: draw_reorder_def)
  from draw_bounded_range [OF this] show ?thesis by simp
next
  case False
  then show ?thesis using assms by (simp add: draw_reorder_def)
qed

lemma schedule_frame_spec:
  assumes "schedule_frame p n ingress avail j r = Inr t"
  shows "ft_due_ns t = ingress + fp_base_latency_ns p + j + r * fp_reorder_slot_ns p \<and>
    ft_tx_start_ns t = max (ft_due_ns t) avail \<and>
    ft_release_ns t = ft_tx_start_ns t + ft_tx_duration_ns t \<and>
    ft_tx_duration_ns t = (n * 10 ^ 9 + fp_bitrate_bps p - 1) div fp_bitrate_bps p \<and>
    0 \<le> ft_due_ns t \<and> ft_due_ns t < 2 ^ 64 \<and> ft_release_ns t < 2 ^ 64"
  using assms by (auto simp: schedule_frame_def Let_def split: if_splits)

section \<open>Properties\<close>

text \<open>
  C25: Every decision \<^verbatim>\<open>apply_faults\<close> returns is within its profile, whatever the hash
  function: a corrupted frame has exactly the configured number of distinct bit offsets, all
  inside the frame and in order, an uncorrupted one has none; the jitter is at most the
  configured one either way, the reorder slots are within the window; the transmission does
  not start before the link is free nor before the due time, and both times fit U64.
\<close>

theorem fault_decision_bounds:
  assumes "apply_faults sha256 m p direction frame_id frame_bits ingress avail copy dup = Inr d"
  shows "sorted (fd_corrupted_bits d) \<and> distinct (fd_corrupted_bits d) \<and>
    (\<forall>b \<in> set (fd_corrupted_bits d). 0 \<le> b \<and> b < frame_bits) \<and>
    int (length (fd_corrupted_bits d)) = (if fd_is_corrupted d then fp_bits_per_corrupt_frame p else 0) \<and>
    \<bar>fd_jitter_ns d\<bar> \<le> max 0 (fp_jitter_abs_ns p) \<and>
    0 \<le> fd_reorder_slots d \<and> fd_reorder_slots d \<le> fp_reorder_window_slots p \<and>
    fd_tx_start_ns d = max (fd_due_ns d) avail \<and>
    fd_release_ns d = fd_tx_start_ns d + fd_tx_duration_ns d \<and>
    (0 \<le> fp_jitter_abs_ns p \<longrightarrow> ingress \<le> fd_due_ns d) \<and>
    0 \<le> fd_due_ns d \<and> fd_due_ns d < 2 ^ 64 \<and> fd_release_ns d < 2 ^ 64"
proof -
  let ?k = "fm_key p direction frame_id copy"
  from assms obtain bits j r c t where
    val: "fault_profile_validate p = Inr ()" and
    cb: "corruption_offsets sha256 m p frame_bits (?k CORRUPT_BIT) c = Inr bits" and
    j: "draw_jitter sha256 m p (?k JITTER) = Inr j" and
    r: "draw_reorder sha256 m p (?k REORDER) = Inr r" and
    t: "schedule_frame p frame_bits ingress avail j r = Inr t" and
    d: "fd_corrupted_bits d = sort bits" "fd_is_corrupted d = c" "fd_jitter_ns d = j"
      "fd_reorder_slots d = r" "fd_due_ns d = ft_due_ns t" "fd_tx_start_ns d = ft_tx_start_ns t"
      "fd_tx_duration_ns d = ft_tx_duration_ns t" "fd_release_ns d = ft_release_ns t"
    unfolding apply_faults_def Let_def by (auto simp: rbind_Inr_iff)
  note v = fault_profile_valid [OF val]
  note s = schedule_frame_spec [OF t]
  have "ft_due_ns t \<ge> ingress" if "0 \<le> fp_jitter_abs_ns p"
  proof -
    have "0 \<le> r * fp_reorder_slot_ns p" using draw_reorder_spec [OF r v(3)] v(4) by simp
    with draw_jitter_spec [OF j] v(2) that s show ?thesis by linarith
  qed
  moreover have "sorted (sort bits) \<and> distinct (sort bits) \<and>
      (\<forall>b \<in> set (sort bits). 0 \<le> b \<and> b < frame_bits) \<and>
      int (length (sort bits)) = (if c then fp_bits_per_corrupt_frame p else 0)"
    using corruption_offsets_spec [OF cb v(1)] by simp
  ultimately show ?thesis
    unfolding d using draw_jitter_spec [OF j] draw_reorder_spec [OF r v(3)] s by blast
qed

definition demo_fault_profile :: fault_profile where
  "demo_fault_profile = \<lparr> fp_schema_version = 1, fp_profile_revision = 0, fp_base_latency_ns = 1000,
     fp_jitter_abs_ns = 100, fp_frame_loss_rate_ppm = 0, fp_frame_duplicate_rate_ppm = 0,
     fp_corrupt_frame_rate_ppm = 1000000, fp_bits_per_corrupt_frame = 1,
     fp_reorder_window_slots = 0, fp_reorder_slot_ns = 0, fp_bitrate_bps = 1000000000 \<rparr>"

definition demo_hash :: "bytes \<Rightarrow> bytes" where
  "demo_hash data = [0x80, 0, 0, 0, 0, 0, 0, 0, 0]"

definition demo_decision :: fault_decision where
  "demo_decision = \<lparr> fd_is_lost = False, fd_has_duplicate = False, fd_is_corrupted = True,
     fd_corrupted_bits = [4], fd_latency_ns = 1000, fd_jitter_ns = 0, fd_reorder_slots = 0,
     fd_due_ns = 6000, fd_tx_start_ns = 7000, fd_tx_duration_ns = 8, fd_release_ns = 7008 \<rparr>"

lemma demo_hash_val: "be_val (take 8 (demo_hash data)) = 2 ^ 63"
  by (simp add: demo_hash_def be_val_def)

lemma demo_prf:
  "0 \<le> dk_profile_revision k \<and> dk_profile_revision k < 2 ^ 32 \<Longrightarrow> 0 \<le> dk_direction k \<and> dk_direction k < 256 \<Longrightarrow>
   0 \<le> dk_link_frame_id k \<and> dk_link_frame_id k < 2 ^ 64 \<Longrightarrow> 0 \<le> dk_copy_index k \<and> dk_copy_index k < 65536 \<Longrightarrow>
   0 \<le> dk_stage_code k \<and> dk_stage_code k < 256 \<Longrightarrow> 0 \<le> i \<and> i < 2 ^ 32 \<Longrightarrow>
   prf_u64 demo_hash \<lparr> fm_seed = 1, fm_simulation_run_id = 2 \<rparr> k i = Inr (2 ^ 63)"
  by (simp add: prf_u64_def prf_input_def pack_uint_ok demo_hash_val del: be_bytes.simps One_nat_def)

lemma demo_apply:
  "apply_faults demo_hash \<lparr> fm_seed = 1, fm_simulation_run_id = 2 \<rparr> demo_fault_profile 1 9 8 5000 7000 0 True =
     Inr demo_decision"
  by (simp add: apply_faults_def fault_profile_validate_def demo_fault_profile_def draw_bool_def
      corruption_offsets_def select_bits.simps draw_bounded_def demo_prf fm_key_def draw_jitter_def
      draw_reorder_def schedule_frame_def demo_decision_def)

lemma fault_decision_bounds_witness:
  "fd_corrupted_bits demo_decision = [4] \<and> distinct (fd_corrupted_bits demo_decision) \<and>
   5000 \<le> fd_due_ns demo_decision"
proof -
  have "fd_corrupted_bits demo_decision = [4]" by (simp add: demo_decision_def)
  moreover have "0 \<le> fp_jitter_abs_ns demo_fault_profile" by (simp add: demo_fault_profile_def)
  ultimately show ?thesis using fault_decision_bounds [OF demo_apply] by blast
qed

text \<open>
  A fault rate is monotone and exact at its ends: with the same seed, run and frame, a
  frame that is hit at one rate is hit at every higher rate, none is hit at rate 0 and every
  frame at one million.
\<close>

theorem draw_bool_monotone:
  assumes "0 \<le> r1" "r1 \<le> r2" "r2 \<le> 1000000"
    and "draw_bool sha256 m r1 k i = Inr b1" and "draw_bool sha256 m r2 k i = Inr b2"
  shows "(b1 \<longrightarrow> b2) \<and> (r1 = 0 \<longrightarrow> \<not> b1) \<and> (r2 = 1000000 \<longrightarrow> b2)"
proof -
  have "(r1 * 2 ^ 64) div 1000000 \<le> (r2 * 2 ^ 64) div 1000000"
    using assms(2) by (intro zdiv_mono1) simp_all
  with assms(4,5) show ?thesis
    using assms(1-3) by (auto simp: draw_bool_def rbind_Inr_iff Let_def split: if_splits)
qed

lemma draw_bool_monotone_witness:
  "\<exists>b. draw_bool demo_hash \<lparr> fm_seed = 1, fm_simulation_run_id = 2 \<rparr> 700000
     \<lparr> dk_profile_revision = 0, dk_direction = 1, dk_link_frame_id = 9, dk_copy_index = 0, dk_stage_code = 1 \<rparr> 0 =
       Inr b \<and> b"
proof -
  let ?m = "\<lparr> fm_seed = 1, fm_simulation_run_id = 2 \<rparr>"
  let ?k = "\<lparr> dk_profile_revision = 0, dk_direction = 1, dk_link_frame_id = 9, dk_copy_index = 0, dk_stage_code = 1 \<rparr>"
  have low: "draw_bool demo_hash ?m 600000 ?k 0 = Inr True" by (simp add: draw_bool_def demo_prf)
  obtain b where b: "draw_bool demo_hash ?m 700000 ?k 0 = Inr b" by (simp add: draw_bool_def demo_prf)
  from draw_bool_monotone [OF _ _ _ low b] have b by simp
  with b show ?thesis by blast
qed

text \<open>
  C37: The inputs of the PRF are domain separated: two draws have the same input only if they
  agree in seed, run, profile revision, direction, frame, copy, stage and draw number. The
  input is 44 bytes and starts with the eight bytes link-fau: the format keeps only those of
  the thirteen bytes of the domain string.
\<close>

theorem prf_input_injective:
  assumes "prf_input m k i = Inr data" and "prf_input m' k' i' = Inr data"
  shows "m = m' \<and> k = k' \<and> i = i' \<and> length data = 44 \<and>
    take 8 data = [108, 105, 110, 107, 45, 102, 97, 117]"
proof -
  have inj: "v = w" if "0 \<le> v" "v < 256 ^ n" "0 \<le> w" "w < 256 ^ n" "be_bytes n (nat v) = be_bytes n (nat w)"
    for v w :: int and n
    using that int_be_val_be_bytes [of v n] int_be_val_be_bytes [of w n] by metis
  from assms(1) have
    a: "0 \<le> fm_seed m" "fm_seed m < 256 ^ 8" "0 \<le> fm_simulation_run_id m" "fm_simulation_run_id m < 256 ^ 8"
      "0 \<le> dk_profile_revision k" "dk_profile_revision k < 256 ^ 4" "0 \<le> dk_direction k" "dk_direction k < 256 ^ 1"
      "0 \<le> dk_link_frame_id k" "dk_link_frame_id k < 256 ^ 8" "0 \<le> dk_copy_index k" "dk_copy_index k < 256 ^ 2"
      "0 \<le> dk_stage_code k" "dk_stage_code k < 256 ^ 1" "0 \<le> i" "i < 256 ^ 4"
    and da: "data = take 8 PRF_DOMAIN @ be_bytes 8 (nat (fm_seed m)) @ be_bytes 8 (nat (fm_simulation_run_id m)) @
      be_bytes 4 (nat (dk_profile_revision k)) @ be_bytes 1 (nat (dk_direction k)) @
      be_bytes 8 (nat (dk_link_frame_id k)) @ be_bytes 2 (nat (dk_copy_index k)) @
      be_bytes 1 (nat (dk_stage_code k)) @ be_bytes 4 (nat i)"
    unfolding prf_input_def rbind_Inr_iff pack_uint_Inr by blast+
  from assms(2) have
    b: "0 \<le> fm_seed m'" "fm_seed m' < 256 ^ 8" "0 \<le> fm_simulation_run_id m'" "fm_simulation_run_id m' < 256 ^ 8"
      "0 \<le> dk_profile_revision k'" "dk_profile_revision k' < 256 ^ 4" "0 \<le> dk_direction k'" "dk_direction k' < 256 ^ 1"
      "0 \<le> dk_link_frame_id k'" "dk_link_frame_id k' < 256 ^ 8" "0 \<le> dk_copy_index k'" "dk_copy_index k' < 256 ^ 2"
      "0 \<le> dk_stage_code k'" "dk_stage_code k' < 256 ^ 1" "0 \<le> i'" "i' < 256 ^ 4"
    and db: "data = take 8 PRF_DOMAIN @ be_bytes 8 (nat (fm_seed m')) @ be_bytes 8 (nat (fm_simulation_run_id m')) @
      be_bytes 4 (nat (dk_profile_revision k')) @ be_bytes 1 (nat (dk_direction k')) @
      be_bytes 8 (nat (dk_link_frame_id k')) @ be_bytes 2 (nat (dk_copy_index k')) @
      be_bytes 1 (nat (dk_stage_code k')) @ be_bytes 4 (nat i')"
    unfolding prf_input_def rbind_Inr_iff pack_uint_Inr by blast+
  from da db have e: "be_bytes 8 (nat (fm_seed m)) = be_bytes 8 (nat (fm_seed m'))"
    "be_bytes 8 (nat (fm_simulation_run_id m)) = be_bytes 8 (nat (fm_simulation_run_id m'))"
    "be_bytes 4 (nat (dk_profile_revision k)) = be_bytes 4 (nat (dk_profile_revision k'))"
    "be_bytes 1 (nat (dk_direction k)) = be_bytes 1 (nat (dk_direction k'))"
    "be_bytes 8 (nat (dk_link_frame_id k)) = be_bytes 8 (nat (dk_link_frame_id k'))"
    "be_bytes 2 (nat (dk_copy_index k)) = be_bytes 2 (nat (dk_copy_index k'))"
    "be_bytes 1 (nat (dk_stage_code k)) = be_bytes 1 (nat (dk_stage_code k'))"
    "be_bytes 4 (nat i) = be_bytes 4 (nat i')"
    by (simp_all del: be_bytes.simps One_nat_def)
  have "m = m'"
    using inj [OF a(1,2) b(1,2) e(1)] inj [OF a(3,4) b(3,4) e(2)] by (cases m; cases m') simp
  moreover have "k = k'"
    using inj [OF a(5,6) b(5,6) e(3)] inj [OF a(7,8) b(7,8) e(4)] inj [OF a(9,10) b(9,10) e(5)]
      inj [OF a(11,12) b(11,12) e(6)] inj [OF a(13,14) b(13,14) e(7)] by (cases k; cases k') simp
  moreover have "i = i'" by (rule inj [OF a(15,16) b(15,16) e(8)])
  moreover have "length data = 44 \<and> take 8 data = [108, 105, 110, 107, 45, 102, 97, 117]"
    unfolding da by (simp add: PRF_DOMAIN_def del: be_bytes.simps One_nat_def)
  ultimately show ?thesis by simp
qed

lemma prf_input_injective_witness:
  "\<exists>data. prf_input \<lparr> fm_seed = 1, fm_simulation_run_id = 2 \<rparr>
     \<lparr> dk_profile_revision = 0, dk_direction = 1, dk_link_frame_id = 9, dk_copy_index = 0, dk_stage_code = 1 \<rparr> 0 =
       Inr data \<and> length data = 44"
proof -
  obtain data where d: "prf_input \<lparr> fm_seed = 1, fm_simulation_run_id = 2 \<rparr>
     \<lparr> dk_profile_revision = 0, dk_direction = 1, dk_link_frame_id = 9, dk_copy_index = 0, dk_stage_code = 1 \<rparr> 0 =
       Inr data"
    by (simp add: prf_input_def pack_uint_ok del: be_bytes.simps One_nat_def)
  from prf_input_injective [OF d d] d show ?thesis by blast
qed

section \<open>Flipping bits\<close>

definition frame_bit :: "bytes \<Rightarrow> int \<Rightarrow> bool" where
  "frame_bit frame k = bit (frame ! nat (k div 8)) (7 - nat (k mod 8))"

lemma bit_mask_byte: "i < 8 \<Longrightarrow> bit (2 ^ j :: byte) i \<longleftrightarrow> i = j"
  by (auto simp: bit_exp_iff)

lemma frame_bit_flip:
  assumes "0 \<le> k" "k < int (length f) * 8" "0 \<le> b" "b < int (length f) * 8"
  shows "frame_bit (f[nat (b div 8) := f ! nat (b div 8) XOR push_bit (7 - nat (b mod 8)) 1]) k =
    (if k = b then \<not> frame_bit f k else frame_bit f k)"
proof -
  have byte: "nat (b div 8) < length f"
    using assms(3,4) floor_le_iff_less [of 8 b "int (length f) - 1"]
    by (simp add: nat_less_iff pos_imp_zdiv_nonneg_iff)
  have m: "0 \<le> k mod 8" "k mod 8 < 8" "0 \<le> b mod 8" "b mod 8 < 8" by simp_all
  have eq: "k = b \<longleftrightarrow> nat (k div 8) = nat (b div 8) \<and> 7 - nat (k mod 8) = 7 - nat (b mod 8)"
  proof
    assume e: "nat (k div 8) = nat (b div 8) \<and> 7 - nat (k mod 8) = 7 - nat (b mod 8)"
    have "0 \<le> k div 8" "0 \<le> b div 8" using assms by (simp_all add: pos_imp_zdiv_nonneg_iff)
    with e have d: "k div 8 = b div 8" using eq_nat_nat_iff by blast
    have "nat (k mod 8) < 8" "nat (b mod 8) < 8" using m by simp_all
    moreover have "u = v" if "u < 8" "v < 8" "7 - u = 7 - v" for u v :: nat using that by arith
    ultimately have "nat (k mod 8) = nat (b mod 8)" using conjunct2 [OF e] by blast
    with m have "k mod 8 = b mod 8" using eq_nat_nat_iff by blast
    have "k = 8 * (k div 8) + k mod 8" "b = 8 * (b div 8) + b mod 8" by simp_all
    with d \<open>k mod 8 = b mod 8\<close> show "k = b" by (simp only:)
  qed simp
  show ?thesis
  proof (cases "nat (k div 8) = nat (b div 8)")
    case True
    have "7 - nat (k mod 8) < 8" by simp
    then show ?thesis
      using True byte eq by (simp add: frame_bit_def bit_xor_iff bit_mask_byte)
  next
    case False
    then show ?thesis using eq byte by (simp add: frame_bit_def)
  qed
qed

lemma corrupt_frame_bits:
  "corrupt_frame f bs = Inr g \<Longrightarrow> length g = length f \<and> (\<forall>b \<in> set bs. 0 \<le> b \<and> b < int (length f) * 8) \<and>
    (\<forall>k. 0 \<le> k \<longrightarrow> k < int (length f) * 8 \<longrightarrow> (frame_bit g k \<noteq> frame_bit f k) = odd (count_list bs k))"
proof (induction bs arbitrary: f)
  case Nil
  then show ?case by simp
next
  case (Cons b bs)
  let ?f = "f[nat (b div 8) := f ! nat (b div 8) XOR push_bit (7 - nat (b mod 8)) 1]"
  from Cons.prems have b: "0 \<le> b" "b < int (length f) * 8" and g: "corrupt_frame ?f bs = Inr g"
    by (auto simp: Let_def split: if_splits)
  from Cons.IH [OF g] have IH: "length g = length f" "\<forall>b \<in> set bs. 0 \<le> b \<and> b < int (length f) * 8"
    "\<And>k. 0 \<le> k \<Longrightarrow> k < int (length f) * 8 \<Longrightarrow> (frame_bit g k \<noteq> frame_bit ?f k) = odd (count_list bs k)"
    by simp_all
  have "(frame_bit g k \<noteq> frame_bit f k) = odd (count_list (b # bs) k)"
    if "0 \<le> k" "k < int (length f) * 8" for k
    using IH(3) [OF that] frame_bit_flip [OF that b] by (cases "k = b") auto
  with IH(1,2) b show ?case by simp
qed

lemma count_list_distinct: "distinct bs \<Longrightarrow> count_list bs k = of_bool (k \<in> set bs)"
  by (induction bs) auto

lemma frame_ext:
  assumes "length f = length g"
    and "\<And>k. 0 \<le> k \<Longrightarrow> k < int (length f) * 8 \<Longrightarrow> frame_bit f k = frame_bit g k"
  shows "f = g"
proof (rule nth_equalityI [OF assms(1)])
  fix i
  assume i: "i < length f"
  show "f ! i = g ! i"
  proof (rule bit_word_eqI)
    fix n
    assume "n < LENGTH(8)"
    then have n: "n < 8" by simp
    define r where "r = 7 - int n"
    let ?k = "int i * 8 + r"
    have r: "0 \<le> r" "r < 8" "nat r = 7 - n" using n by (simp_all add: r_def nat_diff_distrib)
    then have "?k div 8 = int i" "?k mod 8 = r" "0 \<le> ?k" "?k < int (length f) * 8"
      using i by simp_all
    with r(3) show "bit (f ! i) n = bit (g ! i) n"
      using assms(2) [of ?k] n by (simp add: frame_bit_def)
  qed
qed

lemma corrupt_frame_total:
  "\<forall>b \<in> set bs. 0 \<le> b \<and> b < int (length f) * 8 \<Longrightarrow> \<exists>g. corrupt_frame f bs = Inr g"
  by (induction bs arbitrary: f) (auto simp: Let_def)

text \<open>
  C35: \<^verbatim>\<open>corrupt_frame\<close> flips the bits it is told to and no other: it raises exactly when an
  offset is outside the frame; otherwise, for distinct offsets, the result has the same
  length and differs from the frame in just those bits; and applying the same offsets again
  restores the frame.
\<close>

theorem corrupt_frame_exact:
  assumes "distinct bs"
  shows "if \<forall>b \<in> set bs. 0 \<le> b \<and> b < int (length f) * 8
    then \<exists>g. corrupt_frame f bs = Inr g \<and> length g = length f \<and> corrupt_frame g bs = Inr f \<and>
      (\<forall>k \<in> {0 ..< int (length f) * 8}. (frame_bit g k \<noteq> frame_bit f k) = (k \<in> set bs))
    else \<exists>e. corrupt_frame f bs = Inl e"
proof (cases "\<forall>b \<in> set bs. 0 \<le> b \<and> b < int (length f) * 8")
  case True
  have odd: "odd (count_list bs k) = (k \<in> set bs)" for k
    using assms by (simp add: count_list_distinct)
  from True obtain g where g: "corrupt_frame f bs = Inr g" using corrupt_frame_total by blast
  note G = corrupt_frame_bits [OF g, unfolded odd]
  then obtain h where h: "corrupt_frame g bs = Inr h" using corrupt_frame_total [of bs g] by auto
  note H = corrupt_frame_bits [OF h, unfolded odd]
  have "h = f"
  proof (rule frame_ext)
    show "length h = length f" using G H by simp
    show "frame_bit h k = frame_bit f k" if "0 \<le> k" "k < int (length h) * 8" for k
      using G H that by metis
  qed
  with True g h G show ?thesis by auto
next
  case False
  then have "corrupt_frame f bs \<noteq> Inr g" for g using corrupt_frame_bits [of f bs g] by blast
  then have "\<exists>e. corrupt_frame f bs = Inl e" by (cases "corrupt_frame f bs") auto
  with False show ?thesis by (simp only: if_False)
qed

lemma corrupt_frame_exact_witness:
  "\<exists>g. corrupt_frame [0x0F, 0xA0] [0, 15, 8] = Inr g \<and> corrupt_frame g [0, 15, 8] = Inr [0x0F, 0xA0]"
  using corrupt_frame_exact [of "[0, 15, 8]" "[0x0F, 0xA0]"] by auto

end
