(* ===== verification/Schemas.thy ===== *)
theory Schemas
  imports CanonicalValues
begin

text \<open>
  \<^verbatim>\<open>protocol/schemas.py\<close>: the identities and the command wire contract. A payload is the
  dict the code passes around; the readers of \<^verbatim>\<open>decode_command\<close> keep the rest of the data
  in place of the offset into it.
\<close>

section \<open>Reading dicts\<close>

type_synonym py_dict = "(py_value \<times> py_value) list"

definition pkey :: "string \<Rightarrow> py_value" where
  "pkey s = PStr (ustr s)"

text \<open>\<^verbatim>\<open>d.get(key)\<close>.\<close>

definition pget :: "py_dict \<Rightarrow> string \<Rightarrow> py_value" where
  "pget d key = (case map_of d (pkey key) of None \<Rightarrow> PNone | Some v \<Rightarrow> v)"

definition require_mapping :: "py_value \<Rightarrow> py_dict res" where
  "require_mapping v = (case v of PDict d \<Rightarrow> Inr d | _ \<Rightarrow> Inl (ValueError ''must be an object''))"

text \<open>The checked integers on a value of any type.\<close>

definition checked_value :: "nat \<Rightarrow> py_value \<Rightarrow> int res" where
  "checked_value bits v =
     (case v of PInt i \<Rightarrow> checked_uint i bits | _ \<Rightarrow> Inl (TypeError ''must be an integer''))"

definition u64_from_value :: "py_value \<Rightarrow> int res" where
  "u64_from_value v =
     (case v of
        PStr s \<Rightarrow>
          if length s \<noteq> 16 then Inl (ValueError ''must be a 16-character lowercase hex string'')
          else if list_ex (\<lambda>c. c \<ge> 256) s then Inl (ValueError ''must be lowercase hexadecimal'')
          else u64_from_json (map char_of s)
      | _ \<Rightarrow> Inl (ValueError ''must be a 16-character lowercase hex string''))"

definition u64_to_value :: "int \<Rightarrow> py_value res" where
  "u64_to_value v = rbind (u64_to_json v) (\<lambda>s. Inr (PStr (ustr s)))"

section \<open>Identities\<close>

record request_key =
  rk_ground_instance_id :: int
  rk_request_id :: int

definition new_request_key :: "int \<Rightarrow> int \<Rightarrow> request_key res" where
  "new_request_key ground_instance_id request_id =
     rbind (checked_u64 ground_instance_id) (\<lambda>_. rbind (checked_u32 request_id) (\<lambda>_.
       Inr \<lparr> rk_ground_instance_id = ground_instance_id, rk_request_id = request_id \<rparr>))"

definition rk_as_wire :: "request_key \<Rightarrow> bytes" where
  "rk_as_wire k = be_bytes 8 (nat (rk_ground_instance_id k)) @ be_bytes 4 (nat (rk_request_id k))"

definition rk_as_dict :: "request_key \<Rightarrow> py_dict res" where
  "rk_as_dict k = rbind (u64_to_value (rk_ground_instance_id k)) (\<lambda>g.
     Inr [(pkey ''ground_instance_id'', g), (pkey ''request_id'', PInt (rk_request_id k))])"

definition rk_from_dict :: "py_value \<Rightarrow> request_key res" where
  "rk_from_dict v =
     rbind (require_mapping v) (\<lambda>d.
     rbind (u64_from_value (pget d ''ground_instance_id'')) (\<lambda>g.
     rbind (checked_value 32 (pget d ''request_id'')) (\<lambda>r. new_request_key g r)))"

record scene_ref =
  sr_catalog_epoch :: int
  sr_scene_id :: int
  sr_scene_revision :: int

definition new_scene_ref :: "int \<Rightarrow> int \<Rightarrow> int \<Rightarrow> scene_ref res" where
  "new_scene_ref catalog_epoch scene_id scene_revision =
     rbind (checked_u32 catalog_epoch) (\<lambda>_. rbind (checked_u32 scene_id) (\<lambda>_.
     rbind (checked_u32 scene_revision) (\<lambda>_.
       Inr \<lparr> sr_catalog_epoch = catalog_epoch, sr_scene_id = scene_id,
             sr_scene_revision = scene_revision \<rparr>)))"

definition sr_as_dict :: "scene_ref \<Rightarrow> py_dict" where
  "sr_as_dict s =
     [(pkey ''catalog_epoch'', PInt (sr_catalog_epoch s)), (pkey ''scene_id'', PInt (sr_scene_id s)),
      (pkey ''scene_revision'', PInt (sr_scene_revision s))]"

definition sr_as_wire :: "scene_ref \<Rightarrow> bytes" where
  "sr_as_wire s =
     concat (map (\<lambda>v. be_bytes 4 (nat v)) [sr_catalog_epoch s, sr_scene_id s, sr_scene_revision s])"

definition sr_from_dict :: "py_value \<Rightarrow> scene_ref res" where
  "sr_from_dict v =
     rbind (require_mapping v) (\<lambda>d.
     rbind (checked_value 32 (pget d ''catalog_epoch'')) (\<lambda>e.
     rbind (checked_value 32 (pget d ''scene_id'')) (\<lambda>i.
     rbind (checked_value 32 (pget d ''scene_revision'')) (\<lambda>r. new_scene_ref e i r))))"

record scoped_scene_ref =
  ss_spacecraft_instance_id :: int
  ss_scene_ref :: scene_ref

definition new_scoped_scene_ref :: "int \<Rightarrow> scene_ref \<Rightarrow> scoped_scene_ref res" where
  "new_scoped_scene_ref instance_id s =
     rbind (checked_u64 instance_id) (\<lambda>_.
       Inr \<lparr> ss_spacecraft_instance_id = instance_id, ss_scene_ref = s \<rparr>)"

definition ss_as_dict :: "scoped_scene_ref \<Rightarrow> py_dict res" where
  "ss_as_dict s = rbind (u64_to_value (ss_spacecraft_instance_id s)) (\<lambda>i.
     Inr [(pkey ''spacecraft_instance_id'', i), (pkey ''scene_ref'', PDict (sr_as_dict (ss_scene_ref s)))])"

record product_ref =
  pr_spacecraft_instance_id :: int
  pr_origin_boot_id :: int
  pr_product_id :: int

definition new_product_ref :: "int \<Rightarrow> int \<Rightarrow> int \<Rightarrow> product_ref res" where
  "new_product_ref instance_id origin_boot_id product_id =
     rbind (checked_u64 instance_id) (\<lambda>_. rbind (checked_u32 origin_boot_id) (\<lambda>_.
     rbind (checked_u32 product_id) (\<lambda>_.
       Inr \<lparr> pr_spacecraft_instance_id = instance_id, pr_origin_boot_id = origin_boot_id,
             pr_product_id = product_id \<rparr>)))"

definition pr_as_dict :: "product_ref \<Rightarrow> py_dict res" where
  "pr_as_dict p = rbind (u64_to_value (pr_spacecraft_instance_id p)) (\<lambda>i.
     Inr [(pkey ''spacecraft_instance_id'', i), (pkey ''origin_boot_id'', PInt (pr_origin_boot_id p)),
          (pkey ''product_id'', PInt (pr_product_id p))])"

definition pr_as_wire :: "product_ref \<Rightarrow> bytes" where
  "pr_as_wire p = be_bytes 8 (nat (pr_spacecraft_instance_id p)) @
     be_bytes 4 (nat (pr_origin_boot_id p)) @ be_bytes 4 (nat (pr_product_id p))"

definition pr_from_dict :: "py_value \<Rightarrow> product_ref res" where
  "pr_from_dict v =
     rbind (require_mapping v) (\<lambda>d.
     rbind (u64_from_value (pget d ''spacecraft_instance_id'')) (\<lambda>i.
     rbind (checked_value 32 (pget d ''origin_boot_id'')) (\<lambda>b.
     rbind (checked_value 32 (pget d ''product_id'')) (\<lambda>p. new_product_ref i b p))))"

record roi =
  roi_x :: int
  roi_y :: int
  roi_width :: int
  roi_height :: int

definition new_roi :: "int \<Rightarrow> int \<Rightarrow> int \<Rightarrow> int \<Rightarrow> roi res" where
  "new_roi x y width height =
     rbind (res_map checked_u32 [x, y, width, height]) (\<lambda>_.
       if width = 0 \<or> height = 0 then Inl (ValueError ''ROI width and height must be positive'')
       else rbind (checked_add_u64 x width) (\<lambda>_. rbind (checked_add_u64 y height) (\<lambda>_.
         Inr \<lparr> roi_x = x, roi_y = y, roi_width = width, roi_height = height \<rparr>)))"

definition roi_x_end :: "roi \<Rightarrow> int" where "roi_x_end r = roi_x r + roi_width r"
definition roi_y_end :: "roi \<Rightarrow> int" where "roi_y_end r = roi_y r + roi_height r"

definition roi_as_dict :: "roi \<Rightarrow> py_dict" where
  "roi_as_dict r =
     [(pkey ''x'', PInt (roi_x r)), (pkey ''y'', PInt (roi_y r)), (pkey ''width'', PInt (roi_width r)),
      (pkey ''height'', PInt (roi_height r))]"

definition roi_as_wire :: "roi \<Rightarrow> bytes" where
  "roi_as_wire r = concat (map (\<lambda>v. be_bytes 4 (nat v)) [roi_x r, roi_y r, roi_width r, roi_height r])"

definition roi_from_dict :: "py_value \<Rightarrow> roi res" where
  "roi_from_dict v =
     rbind (require_mapping v) (\<lambda>d.
     rbind (checked_value 32 (pget d ''x'')) (\<lambda>x.
     rbind (checked_value 32 (pget d ''y'')) (\<lambda>y.
     rbind (checked_value 32 (pget d ''width'')) (\<lambda>w.
     rbind (checked_value 32 (pget d ''height'')) (\<lambda>h. new_roi x y w h)))))"

record config_snapshot =
  cf_epoch :: int
  cf_revision :: int
  cf_model_threshold_bp :: int
  cf_coverage_limit_bp :: int

definition new_config_snapshot :: "int \<Rightarrow> int \<Rightarrow> int \<Rightarrow> int \<Rightarrow> config_snapshot res" where
  "new_config_snapshot epoch revision model_threshold_bp coverage_limit_bp =
     rbind (checked_u32 epoch) (\<lambda>_. rbind (checked_u32 revision) (\<lambda>_.
     rbind (checked_u16 model_threshold_bp) (\<lambda>_. rbind (checked_u16 coverage_limit_bp) (\<lambda>_.
       if model_threshold_bp > 10000 \<or> coverage_limit_bp > 10000
       then Inl (ValueError ''threshold basis points must be in [0, 10000]'')
       else Inr \<lparr> cf_epoch = epoch, cf_revision = revision, cf_model_threshold_bp = model_threshold_bp,
              cf_coverage_limit_bp = coverage_limit_bp \<rparr>))))"

definition cf_as_dict :: "config_snapshot \<Rightarrow> py_dict" where
  "cf_as_dict c =
     [(pkey ''config_epoch'', PInt (cf_epoch c)), (pkey ''config_revision'', PInt (cf_revision c)),
      (pkey ''model_threshold_bp'', PInt (cf_model_threshold_bp c)),
      (pkey ''coverage_limit_bp'', PInt (cf_coverage_limit_bp c))]"

definition cf_as_wire :: "config_snapshot \<Rightarrow> bytes" where
  "cf_as_wire c = be_bytes 4 (nat (cf_epoch c)) @ be_bytes 4 (nat (cf_revision c)) @
     be_bytes 2 (nat (cf_model_threshold_bp c)) @ be_bytes 2 (nat (cf_coverage_limit_bp c))"

section \<open>Commands\<close>

datatype opcode =
    CLOUD_SET_CONFIG
  | SCENE_REQUEST_CATALOG
  | SCENE_REQUEST_PREVIEW
  | SCENE_ANALYZE
  | ROI_REQUEST
  | JOB_GET_STATUS
  | JOB_CANCEL
  | PRODUCT_REQUEST_DOWNLINK
  | PRODUCT_CANCEL_DOWNLINK

definition opcodes :: "(opcode \<times> int) list" where
  "opcodes =
     [(CLOUD_SET_CONFIG, 0x00010001), (SCENE_REQUEST_CATALOG, 0x00010002),
      (SCENE_REQUEST_PREVIEW, 0x00010003), (SCENE_ANALYZE, 0x00010004), (ROI_REQUEST, 0x00010005),
      (JOB_GET_STATUS, 0x00010006), (JOB_CANCEL, 0x00010007),
      (PRODUCT_REQUEST_DOWNLINK, 0x00010008), (PRODUCT_CANCEL_DOWNLINK, 0x00010009)]"

definition opcode_value :: "opcode \<Rightarrow> int" where
  "opcode_value op = the (map_of opcodes op)"

definition opcode_of :: "int \<Rightarrow> opcode option" where
  "opcode_of n = map_of (map (\<lambda>(op, v). (v, op)) opcodes) n"

record command =
  cmd_opcode :: opcode
  cmd_target_spacecraft_instance_id :: int
  cmd_request_key :: request_key
  cmd_payload :: py_dict

definition new_command :: "opcode \<Rightarrow> int \<Rightarrow> request_key \<Rightarrow> py_dict \<Rightarrow> command res" where
  "new_command op target key payload =
     rbind (checked_u64 target) (\<lambda>_.
       Inr \<lparr> cmd_opcode = op, cmd_target_spacecraft_instance_id = target, cmd_request_key = key,
             cmd_payload = payload \<rparr>)"

definition cmd_semantic_dict :: "command \<Rightarrow> py_dict res" where
  "cmd_semantic_dict c =
     rbind (u64_to_value (cmd_target_spacecraft_instance_id c)) (\<lambda>target.
     rbind (rk_as_dict (cmd_request_key c)) (\<lambda>key.
       Inr [(pkey ''opcode'', PInt (opcode_value (cmd_opcode c))),
            (pkey ''target_spacecraft_instance_id'', target),
            (pkey ''request_key'', PDict key), (pkey ''payload'', PDict (cmd_payload c))]))"

definition config_from_payload :: "py_dict \<Rightarrow> (int \<times> int \<times> int \<times> int) res" where
  "config_from_payload payload =
     rbind (checked_value 32 (pget payload ''expected_config_epoch'')) (\<lambda>epoch.
     rbind (checked_value 32 (pget payload ''expected_config_revision'')) (\<lambda>revision.
     rbind (checked_value 16 (pget payload ''model_threshold_bp'')) (\<lambda>model_bp.
     rbind (checked_value 16 (pget payload ''coverage_limit_bp'')) (\<lambda>coverage_bp.
       Inr (epoch, revision, model_bp, coverage_bp)))))"

definition encode_payload :: "opcode \<Rightarrow> py_dict \<Rightarrow> bytes res" where
  "encode_payload op payload =
     (if op = CLOUD_SET_CONFIG then
        rbind (config_from_payload payload) (\<lambda>(epoch, revision, model_bp, coverage_bp).
          Inr (be_bytes 4 (nat epoch) @ be_bytes 4 (nat revision) @ be_bytes 2 (nat model_bp) @
               be_bytes 2 (nat coverage_bp)))
      else if op = SCENE_REQUEST_CATALOG then Inr []
      else if op \<in> {SCENE_REQUEST_PREVIEW, SCENE_ANALYZE, ROI_REQUEST} then
        rbind (sr_from_dict (pget payload ''scene_ref'')) (\<lambda>scene.
          if op = SCENE_REQUEST_PREVIEW then Inr (sr_as_wire scene)
          else rbind (config_from_payload payload) (\<lambda>(epoch, revision, model_bp, coverage_bp).
            rbind (if op = ROI_REQUEST
                   then rbind (roi_from_dict (pget payload ''roi'')) (\<lambda>r. Inr (roi_as_wire r))
                   else Inr []) (\<lambda>region.
              Inr (sr_as_wire scene @ be_bytes 4 (nat epoch) @ be_bytes 4 (nat revision) @ region @
                   be_bytes 2 (nat model_bp) @ be_bytes 2 (nat coverage_bp)))))
      else if op \<in> {JOB_GET_STATUS, JOB_CANCEL} then
        rbind (rk_from_dict (pget payload ''target_request_key'')) (\<lambda>k. Inr (rk_as_wire k))
      else if op = PRODUCT_REQUEST_DOWNLINK then
        rbind (rk_from_dict (pget payload ''origin_request_key'')) (\<lambda>k.
        rbind (pr_from_dict (pget payload ''product_ref'')) (\<lambda>p. Inr (rk_as_wire k @ pr_as_wire p)))
      else
        rbind (checked_value 32 (pget payload ''transfer_id'')) (\<lambda>t.
        rbind (pr_from_dict (pget payload ''product_ref'')) (\<lambda>p.
          Inr (pr_as_wire p @ be_bytes 4 (nat t)))))"

definition cmd_argument_bytes :: "command \<Rightarrow> bytes res" where
  "cmd_argument_bytes c =
     rbind (u64_to_bytes (cmd_target_spacecraft_instance_id c)) (\<lambda>target.
     rbind (encode_payload (cmd_opcode c) (cmd_payload c)) (\<lambda>payload.
       Inr (target @ rk_as_wire (cmd_request_key c) @ payload)))"

definition cmd_wire_bytes :: "command \<Rightarrow> bytes res" where
  "cmd_wire_bytes c =
     rbind (cmd_argument_bytes c) (\<lambda>arguments.
       Inr (be_bytes 4 (nat (opcode_value (cmd_opcode c))) @ arguments))"

definition encode_command :: "command \<Rightarrow> bytes res" where
  "encode_command c = cmd_wire_bytes c"

section \<open>Decoding a command\<close>

text \<open>\<^verbatim>\<open>_read_u16\<close>, \<^verbatim>\<open>_read_u32\<close> and \<^verbatim>\<open>_read_u64\<close>, by the number of bytes.\<close>

definition read_uint :: "nat \<Rightarrow> bytes \<Rightarrow> (int \<times> bytes) res" where
  "read_uint n data =
     (if n > length data then Inl (ValueError ''truncated command field'')
      else Inr (int (be_val (take n data)), drop n data))"

text \<open>The loops that read one number per label.\<close>

primrec read_uints :: "nat \<Rightarrow> nat \<Rightarrow> bytes \<Rightarrow> (int list \<times> bytes) res" where
  "read_uints n 0 data = Inr ([], data)"
| "read_uints n (Suc k) data =
     rbind (read_uint n data) (\<lambda>(v, data). rbind (read_uints n k data) (\<lambda>(vs, data). Inr (v # vs, data)))"

definition read_request_key :: "bytes \<Rightarrow> (request_key \<times> bytes) res" where
  "read_request_key data =
     rbind (read_uint 8 data) (\<lambda>(ground, data).
     rbind (read_uint 4 data) (\<lambda>(request_id, data).
     rbind (new_request_key ground request_id) (\<lambda>k. Inr (k, data))))"

definition read_product_ref :: "bytes \<Rightarrow> ((int \<times> int \<times> int) \<times> bytes) res" where
  "read_product_ref data =
     rbind (read_uint 8 data) (\<lambda>(instance_id, data).
     rbind (read_uint 4 data) (\<lambda>(boot, data).
     rbind (read_uint 4 data) (\<lambda>(product_id, data). Inr ((instance_id, boot, product_id), data))))"

definition decode_payload :: "opcode \<Rightarrow> bytes \<Rightarrow> (py_dict \<times> bytes) res" where
  "decode_payload op data =
     (if op = CLOUD_SET_CONFIG then
        rbind (read_uint 4 data) (\<lambda>(epoch, data).
        rbind (read_uint 4 data) (\<lambda>(revision, data).
        rbind (read_uint 2 data) (\<lambda>(model_bp, data).
        rbind (read_uint 2 data) (\<lambda>(coverage_bp, data).
          Inr ([(pkey ''expected_config_epoch'', PInt epoch), (pkey ''expected_config_revision'', PInt revision),
                (pkey ''model_threshold_bp'', PInt model_bp), (pkey ''coverage_limit_bp'', PInt coverage_bp)],
               data)))))
      else if op = SCENE_REQUEST_CATALOG then Inr ([], data)
      else if op \<in> {SCENE_REQUEST_PREVIEW, SCENE_ANALYZE, ROI_REQUEST} then
        rbind (read_uints 4 3 data) (\<lambda>(values, data).
        rbind (new_scene_ref (values ! 0) (values ! 1) (values ! 2)) (\<lambda>scene.
          let scene_entry = (pkey ''scene_ref'', PDict (sr_as_dict scene)) in
          if op = SCENE_REQUEST_PREVIEW then Inr ([scene_entry], data)
          else
            rbind (read_uint 4 data) (\<lambda>(epoch, data).
            rbind (read_uint 4 data) (\<lambda>(revision, data).
            rbind (if op = ROI_REQUEST
                   then rbind (read_uints 4 4 data) (\<lambda>(values, data).
                     rbind (new_roi (values ! 0) (values ! 1) (values ! 2) (values ! 3)) (\<lambda>r.
                       Inr ([(pkey ''roi'', PDict (roi_as_dict r))], data)))
                   else Inr ([], data)) (\<lambda>(region, data).
            rbind (read_uint 2 data) (\<lambda>(model_bp, data).
            rbind (read_uint 2 data) (\<lambda>(coverage_bp, data).
              Inr ([scene_entry, (pkey ''expected_config_epoch'', PInt epoch),
                    (pkey ''expected_config_revision'', PInt revision)] @ region @
                   [(pkey ''model_threshold_bp'', PInt model_bp), (pkey ''coverage_limit_bp'', PInt coverage_bp)],
                   data))))))))
      else if op \<in> {JOB_GET_STATUS, JOB_CANCEL} then
        rbind (read_request_key data) (\<lambda>(k, data).
        rbind (rk_as_dict k) (\<lambda>d. Inr ([(pkey ''target_request_key'', PDict d)], data)))
      else if op = PRODUCT_REQUEST_DOWNLINK then
        rbind (read_request_key data) (\<lambda>(k, data).
        rbind (rk_as_dict k) (\<lambda>kd.
        rbind (read_product_ref data) (\<lambda>((instance_id, boot, product_id), data).
        rbind (new_product_ref instance_id boot product_id) (\<lambda>p.
        rbind (pr_as_dict p) (\<lambda>pd.
          Inr ([(pkey ''origin_request_key'', PDict kd), (pkey ''product_ref'', PDict pd)], data))))))
      else
        rbind (read_product_ref data) (\<lambda>((instance_id, boot, product_id), data).
        rbind (read_uint 4 data) (\<lambda>(transfer_id, data).
        rbind (new_product_ref instance_id boot product_id) (\<lambda>p.
        rbind (pr_as_dict p) (\<lambda>pd.
          Inr ([(pkey ''product_ref'', PDict pd), (pkey ''transfer_id'', PInt transfer_id)], data))))))"

definition decode_command :: "bytes \<Rightarrow> command res" where
  "decode_command data =
     rbind (read_uint 4 data) (\<lambda>(value, data).
       case opcode_of value of
         None \<Rightarrow> Inl (ValueError ''unknown command opcode'')
       | Some op \<Rightarrow>
           rbind (read_uint 8 data) (\<lambda>(target, data).
           rbind (read_uint 8 data) (\<lambda>(ground, data).
           rbind (read_uint 4 data) (\<lambda>(request_id, data).
           rbind (new_request_key ground request_id) (\<lambda>key.
           rbind (decode_payload op data) (\<lambda>(payload, data).
             if data \<noteq> [] then Inl (ValueError ''trailing bytes in command'')
             else new_command op target key payload))))))"

text \<open>The bytes the mission digest hashes.\<close>

definition PROTOCOL_SCHEMA_VERSION :: nat where "PROTOCOL_SCHEMA_VERSION = 1"

definition mission_digest :: "(bytes \<Rightarrow> string) \<Rightarrow> command \<Rightarrow> string res" where
  "mission_digest sha256 c =
     rbind (cmd_argument_bytes c) (\<lambda>arguments.
     rbind (pack_uint 4 (int (length arguments))) (\<lambda>len.
       Inr (sha256 (map (\<lambda>ch. of_char ch) ''mission-command-v1'' @ [0] @
         be_bytes 2 PROTOCOL_SCHEMA_VERSION @ be_bytes 4 (nat (opcode_value (cmd_opcode c))) @
         len @ arguments))))"

section \<open>Dicts and identities round trip\<close>


lemma pkey_eq [simp]: "pkey s = pkey t \<longleftrightarrow> s = t"
  by (simp add: pkey_def)

lemma pget_simps [simp]:
  "pget [] key = PNone"
  "pget ((pkey k, v) # d) key = (if k = key then v else pget d key)"
  by (auto simp: pget_def)

lemma u64_value_roundtrip: "u64_to_value v = Inr x \<Longrightarrow> u64_from_value x = Inr v"
proof -
  assume "u64_to_value v = Inr x"
  then obtain s where s: "u64_to_json v = Inr s" "x = PStr (ustr s)"
    by (auto simp: u64_to_value_def rbind_Inr_iff)
  have v: "is_u64 v" using s(1) by (auto simp: u64_to_json_def is_u64_def rbind_Inr_iff)
  have d: "u64_from_json s = Inr v" by (rule u64_json.roundtrip [OF v s(1)])
  have "length s = 16" using d by (auto simp: u64_from_json_def split: if_splits)
  moreover have "\<not> list_ex (\<lambda>c. c \<ge> 256) (ustr s)"
    by (auto simp: ustr_def list_ex_iff not_le)
  moreover have "map char_of (ustr s) = s" by (simp add: ustr_def comp_def)
  ultimately show "u64_from_value x = Inr v" using d by (simp add: s(2) u64_from_value_def ustr_def)
qed

lemma u64_to_value_ok: "0 \<le> v \<Longrightarrow> v < 18446744073709551616 \<Longrightarrow> \<exists>x. u64_to_value v = Inr x"
  by (auto simp: u64_to_value_def u64_to_json_def rbind_Inr_iff)

lemma checked_value_PInt [simp]: "checked_value bits (PInt i) = checked_uint i bits"
  by (simp add: checked_value_def)

lemma request_key_Inr:
  "new_request_key g r = Inr k \<longleftrightarrow> 0 \<le> g \<and> g < 18446744073709551616 \<and> 0 \<le> r \<and> r < 4294967296 \<and>
     k = \<lparr> rk_ground_instance_id = g, rk_request_id = r \<rparr>"
  by (auto simp: new_request_key_def rbind_Inr_iff)

lemma scene_ref_Inr:
  "new_scene_ref e i r = Inr s \<longleftrightarrow> 0 \<le> e \<and> e < 4294967296 \<and> 0 \<le> i \<and> i < 4294967296 \<and>
     0 \<le> r \<and> r < 4294967296 \<and> s = \<lparr> sr_catalog_epoch = e, sr_scene_id = i, sr_scene_revision = r \<rparr>"
  by (auto simp: new_scene_ref_def rbind_Inr_iff)

lemma product_ref_Inr:
  "new_product_ref i b p = Inr x \<longleftrightarrow> 0 \<le> i \<and> i < 18446744073709551616 \<and> 0 \<le> b \<and> b < 4294967296 \<and>
     0 \<le> p \<and> p < 4294967296 \<and>
     x = \<lparr> pr_spacecraft_instance_id = i, pr_origin_boot_id = b, pr_product_id = p \<rparr>"
  by (auto simp: new_product_ref_def rbind_Inr_iff)

lemma roi_Inr:
  "new_roi x y w h = Inr r \<longleftrightarrow> 0 \<le> x \<and> x < 4294967296 \<and> 0 \<le> y \<and> y < 4294967296 \<and>
     0 < w \<and> w < 4294967296 \<and> 0 < h \<and> h < 4294967296 \<and>
     r = \<lparr> roi_x = x, roi_y = y, roi_width = w, roi_height = h \<rparr>"
  by (auto simp: new_roi_def rbind_Inr_iff checked_add_u64_def)

lemmas identity_Inr = request_key_Inr scene_ref_Inr product_ref_Inr roi_Inr

lemma rk_dict_roundtrip:
  assumes "new_request_key g r = Inr k" "rk_as_dict k = Inr d"
  shows "rk_from_dict (PDict d) = Inr k"
  using assms
  by (auto simp: rk_as_dict_def rk_from_dict_def require_mapping_def rbind_Inr_iff request_key_Inr
    dest!: u64_value_roundtrip)

lemma pr_dict_roundtrip:
  assumes "new_product_ref i b p = Inr x" "pr_as_dict x = Inr d"
  shows "pr_from_dict (PDict d) = Inr x"
  using assms
  by (auto simp: pr_as_dict_def pr_from_dict_def require_mapping_def rbind_Inr_iff product_ref_Inr
    dest!: u64_value_roundtrip)

lemma sr_dict_roundtrip: "new_scene_ref e i r = Inr s \<Longrightarrow> sr_from_dict (PDict (sr_as_dict s)) = Inr s"
  by (auto simp: sr_as_dict_def sr_from_dict_def require_mapping_def rbind_Inr_iff scene_ref_Inr)

lemma roi_dict_roundtrip: "new_roi x y w h = Inr r \<Longrightarrow> roi_from_dict (PDict (roi_as_dict r)) = Inr r"
  by (auto simp: roi_as_dict_def roi_from_dict_def require_mapping_def rbind_Inr_iff roi_Inr)

section \<open>Reading and writing numbers\<close>

lemma read_uint_Inr:
  "read_uint n data = Inr (v, rest) \<longleftrightarrow> 0 \<le> v \<and> v < 256 ^ n \<and> data = be_bytes n (nat v) @ rest"
proof
  assume "read_uint n data = Inr (v, rest)"
  then have l: "length (take n data) = n" and v: "v = int (be_val (take n data))" and r: "rest = drop n data"
    by (auto simp: read_uint_def split: if_splits)
  have "be_val (take n data) < 256 ^ n" using be_val_less [of "take n data"] l by simp
  then have "int (be_val (take n data)) < int (256 ^ n)" by (simp only: of_nat_less_iff)
  then have "v < 256 ^ n" by (simp add: v)
  moreover have "be_bytes n (be_val (take n data)) = take n data" by (rule be_bytes_be_val' [OF l])
  ultimately show "0 \<le> v \<and> v < 256 ^ n \<and> data = be_bytes n (nat v) @ rest" by (simp add: v r)
next
  assume v: "0 \<le> v \<and> v < 256 ^ n \<and> data = be_bytes n (nat v) @ rest"
  then have "int (be_val (be_bytes n (nat v))) = v" by (intro int_be_val_be_bytes) simp_all
  with v show "read_uint n data = Inr (v, rest)" by (simp add: read_uint_def)
qed

lemma read_uints_Inr:
  "read_uints n k data = Inr (vs, rest) \<longleftrightarrow> length vs = k \<and> (\<forall>v \<in> set vs. 0 \<le> v \<and> v < 256 ^ n) \<and>
     data = concat (map (\<lambda>v. be_bytes n (nat v)) vs) @ rest"
proof (induction k arbitrary: data vs)
  case 0
  then show ?case by auto
next
  case (Suc k)
  show ?case by (cases vs) (auto simp: rbind_Inr_iff read_uint_Inr Suc.IH)
qed

lemma opcode_of_value [simp]: "opcode_of (opcode_value op) = Some op"
  by (cases op) (simp_all add: opcode_of_def opcode_value_def opcodes_def)

lemma opcode_value_range: "0 \<le> opcode_value op" "opcode_value op < 256 ^ 4"
  by (cases op; simp add: opcode_value_def opcodes_def)+

lemma opcode_of_Some: "opcode_of n = Some op \<longleftrightarrow> n = opcode_value op"
proof
  assume "opcode_of n = Some op"
  then have "(op, n) \<in> set opcodes" by (auto simp: opcode_of_def dest: map_of_SomeD)
  then show "n = opcode_value op" by (auto simp: opcodes_def opcode_value_def)
qed simp

section \<open>Payloads\<close>

lemma uints_3: "length vs = 3 \<longleftrightarrow> (\<exists>a b c. vs = [a, b, c])"
  by (auto simp: length_Suc_conv numeral_3_eq_3)

lemma uints_4: "length vs = 4 \<longleftrightarrow> (\<exists>a b c d. vs = [a, b, c, d])"
  by (auto simp: length_Suc_conv eval_nat_numeral)

lemmas payload_simps = encode_payload_def decode_payload_def config_from_payload_def rbind_Inr_iff
  read_uint_Inr read_uints_Inr uints_3 uints_4 identity_Inr checked_uint_if
  read_request_key_def read_product_ref_def rk_as_wire_def pr_as_wire_def sr_as_wire_def roi_as_wire_def

lemma decode_payload_sound_config:
  "decode_payload CLOUD_SET_CONFIG data = Inr (d, rest) \<Longrightarrow> \<exists>p. encode_payload CLOUD_SET_CONFIG d = Inr p \<and> data = p @ rest"
  by (auto simp: payload_simps simp del: be_bytes.simps)

lemma read_request_key_Inr:
  "read_request_key data = Inr (k, rest) \<longleftrightarrow>
     (\<exists>g r. new_request_key g r = Inr k) \<and> data = rk_as_wire k @ rest"
  by (auto simp: read_request_key_def rbind_Inr_iff read_uint_Inr request_key_Inr rk_as_wire_def
    simp del: be_bytes.simps)

lemma read_product_ref_Inr:
  "read_product_ref data = Inr ((i, b, p), rest) \<longleftrightarrow>
     (\<exists>x. new_product_ref i b p = Inr x \<and> data = pr_as_wire x @ rest)"
  by (auto simp: read_product_ref_def rbind_Inr_iff read_uint_Inr product_ref_Inr pr_as_wire_def
    simp del: be_bytes.simps)

lemma decode_payload_sound_job:
  assumes "op = JOB_GET_STATUS \<or> op = JOB_CANCEL" "decode_payload op data = Inr (d, rest)"
  shows "\<exists>p. encode_payload op d = Inr p \<and> data = p @ rest"
proof -
  obtain k kd where k: "read_request_key data = Inr (k, rest)" "rk_as_dict k = Inr kd"
    and d: "d = [(pkey ''target_request_key'', PDict kd)]"
    using assms by (auto simp: decode_payload_def rbind_Inr_iff)
  obtain g r where g: "new_request_key g r = Inr k" using k(1) by (auto simp: read_request_key_Inr)
  show ?thesis
    using assms(1) k rk_dict_roundtrip [OF g k(2)] by (auto simp: encode_payload_def d read_request_key_Inr)
qed

lemma decode_payload_sound_request:
  assumes "decode_payload PRODUCT_REQUEST_DOWNLINK data = Inr (d, rest)"
  shows "\<exists>p. encode_payload PRODUCT_REQUEST_DOWNLINK d = Inr p \<and> data = p @ rest"
proof -
  obtain k kd i b q x pd data' where k: "read_request_key data = Inr (k, data')" "rk_as_dict k = Inr kd"
    and x: "read_product_ref data' = Inr ((i, b, q), rest)" "new_product_ref i b q = Inr x" "pr_as_dict x = Inr pd"
    and d: "d = [(pkey ''origin_request_key'', PDict kd), (pkey ''product_ref'', PDict pd)]"
    using assms by (auto simp: decode_payload_def rbind_Inr_iff)
  obtain g r where g: "new_request_key g r = Inr k" using k(1) by (auto simp: read_request_key_Inr)
  show ?thesis
    using k x rk_dict_roundtrip [OF g k(2)] pr_dict_roundtrip [OF x(2,3)]
    by (auto simp: encode_payload_def d read_request_key_Inr read_product_ref_Inr)
qed

lemma decode_payload_sound_cancel:
  assumes "decode_payload PRODUCT_CANCEL_DOWNLINK data = Inr (d, rest)"
  shows "\<exists>p. encode_payload PRODUCT_CANCEL_DOWNLINK d = Inr p \<and> data = p @ rest"
proof -
  obtain i b q x pd t data' where x: "read_product_ref data = Inr ((i, b, q), data')" "new_product_ref i b q = Inr x"
      "pr_as_dict x = Inr pd" and t: "read_uint 4 data' = Inr (t, rest)"
    and d: "d = [(pkey ''product_ref'', PDict pd), (pkey ''transfer_id'', PInt t)]"
    using assms by (auto simp: decode_payload_def rbind_Inr_iff)
  show ?thesis
    using x t pr_dict_roundtrip [OF x(2,3)]
    by (auto simp: encode_payload_def d read_uint_Inr read_product_ref_Inr checked_uint_if rbind_Inr_iff
      simp del: be_bytes.simps)
qed

lemma read_scene:
  assumes "read_uints 4 3 data = Inr (vs, rest)" "new_scene_ref (vs ! 0) (vs ! 1) (vs ! 2) = Inr s"
  shows "data = sr_as_wire s @ rest"
  using assms by (auto simp: read_uints_Inr uints_3 scene_ref_Inr sr_as_wire_def simp del: be_bytes.simps)

lemma read_roi:
  assumes "read_uints 4 4 data = Inr (vs, rest)" "new_roi (vs ! 0) (vs ! 1) (vs ! 2) (vs ! 3) = Inr r"
  shows "data = roi_as_wire r @ rest"
  using assms by (auto simp: read_uints_Inr uints_4 roi_Inr roi_as_wire_def simp del: be_bytes.simps)

lemma decode_payload_sound_preview:
  assumes "decode_payload SCENE_REQUEST_PREVIEW data = Inr (d, rest)"
  shows "\<exists>p. encode_payload SCENE_REQUEST_PREVIEW d = Inr p \<and> data = p @ rest"
proof -
  obtain vs s where r: "read_uints 4 3 data = Inr (vs, rest)" "new_scene_ref (vs ! 0) (vs ! 1) (vs ! 2) = Inr s"
    and d: "d = [(pkey ''scene_ref'', PDict (sr_as_dict s))]"
    using assms by (auto simp: decode_payload_def rbind_Inr_iff Let_def)
  show ?thesis using read_scene [OF r] sr_dict_roundtrip [OF r(2)] by (simp add: encode_payload_def d)
qed

lemma decode_payload_sound_analyze:
  assumes "decode_payload SCENE_ANALYZE data = Inr (d, rest)"
  shows "\<exists>p. encode_payload SCENE_ANALYZE d = Inr p \<and> data = p @ rest"
proof -
  obtain vs s e v m c d1 d2 d3 d4 where r: "read_uints 4 3 data = Inr (vs, d1)"
      "new_scene_ref (vs ! 0) (vs ! 1) (vs ! 2) = Inr s"
    and n: "read_uint 4 d1 = Inr (e, d2)" "read_uint 4 d2 = Inr (v, d3)" "read_uint 2 d3 = Inr (m, d4)"
      "read_uint 2 d4 = Inr (c, rest)"
    and d: "d = [(pkey ''scene_ref'', PDict (sr_as_dict s)), (pkey ''expected_config_epoch'', PInt e),
        (pkey ''expected_config_revision'', PInt v), (pkey ''model_threshold_bp'', PInt m),
        (pkey ''coverage_limit_bp'', PInt c)]"
    using assms by (auto simp: decode_payload_def rbind_Inr_iff Let_def)
  have "config_from_payload d = Inr (e, v, m, c)"
    using n by (simp add: config_from_payload_def d read_uint_Inr checked_uint_if rbind_Inr_iff)
  then show ?thesis using read_scene [OF r] sr_dict_roundtrip [OF r(2)] n
    by (simp add: encode_payload_def d read_uint_Inr del: be_bytes.simps)
qed

lemma decode_payload_sound_roi:
  assumes "decode_payload ROI_REQUEST data = Inr (d, rest)"
  shows "\<exists>p. encode_payload ROI_REQUEST d = Inr p \<and> data = p @ rest"
proof -
  obtain vs s e v ws q m c d1 d2 d3 d4 d5 where r: "read_uints 4 3 data = Inr (vs, d1)"
      "new_scene_ref (vs ! 0) (vs ! 1) (vs ! 2) = Inr s"
    and q: "read_uints 4 4 d3 = Inr (ws, d4)" "new_roi (ws ! 0) (ws ! 1) (ws ! 2) (ws ! 3) = Inr q"
    and n: "read_uint 4 d1 = Inr (e, d2)" "read_uint 4 d2 = Inr (v, d3)" "read_uint 2 d4 = Inr (m, d5)"
      "read_uint 2 d5 = Inr (c, rest)"
    and d: "d = [(pkey ''scene_ref'', PDict (sr_as_dict s)), (pkey ''expected_config_epoch'', PInt e),
        (pkey ''expected_config_revision'', PInt v), (pkey ''roi'', PDict (roi_as_dict q)),
        (pkey ''model_threshold_bp'', PInt m), (pkey ''coverage_limit_bp'', PInt c)]"
    using assms by (auto simp: decode_payload_def rbind_Inr_iff Let_def)
  have "config_from_payload d = Inr (e, v, m, c)"
    using n by (simp add: config_from_payload_def d read_uint_Inr checked_uint_if rbind_Inr_iff)
  then show ?thesis
    using read_scene [OF r] sr_dict_roundtrip [OF r(2)] read_roi [OF q] roi_dict_roundtrip [OF q(2)] n
    by (simp add: encode_payload_def d read_uint_Inr del: be_bytes.simps)
qed

lemma decode_payload_sound:
  "decode_payload op data = Inr (d, rest) \<Longrightarrow> \<exists>p. encode_payload op d = Inr p \<and> data = p @ rest"
  by (cases op) (use decode_payload_sound_config decode_payload_sound_job decode_payload_sound_request
    decode_payload_sound_cancel decode_payload_sound_preview decode_payload_sound_analyze
    decode_payload_sound_roi in \<open>auto simp: encode_payload_def [of SCENE_REQUEST_CATALOG]
      decode_payload_def [of SCENE_REQUEST_CATALOG]\<close>)

lemma from_dict_valid:
  "rk_from_dict v = Inr k \<Longrightarrow> \<exists>g r. new_request_key g r = Inr k"
  "pr_from_dict v = Inr x \<Longrightarrow> \<exists>i b p. new_product_ref i b p = Inr x"
  "sr_from_dict v = Inr s \<Longrightarrow> \<exists>e i r. new_scene_ref e i r = Inr s"
  "roi_from_dict v = Inr q \<Longrightarrow> \<exists>x y w h. new_roi x y w h = Inr q"
  by (auto simp: rk_from_dict_def pr_from_dict_def sr_from_dict_def roi_from_dict_def rbind_Inr_iff)

lemma rk_reads:
  assumes "rk_from_dict v = Inr k"
  obtains d where "rk_as_dict k = Inr d" "\<And>rest. read_request_key (rk_as_wire k @ rest) = Inr (k, rest)"
proof -
  obtain g r where g: "new_request_key g r = Inr k" using from_dict_valid(1) [OF assms] by blast
  then obtain d where "rk_as_dict k = Inr d"
    using u64_to_value_ok [of g] by (auto simp: rk_as_dict_def request_key_Inr)
  then show thesis by (rule that) (use g in \<open>auto simp: read_request_key_Inr\<close>)
qed

lemma pr_reads:
  assumes "pr_from_dict v = Inr x"
  obtains i b p d where "new_product_ref i b p = Inr x" "pr_as_dict x = Inr d"
    "\<And>rest. read_product_ref (pr_as_wire x @ rest) = Inr ((i, b, p), rest)"
proof -
  obtain i b p where g: "new_product_ref i b p = Inr x" using from_dict_valid(2) [OF assms] by blast
  then obtain d where "pr_as_dict x = Inr d"
    using u64_to_value_ok [of i] by (auto simp: pr_as_dict_def product_ref_Inr)
  with g show thesis by (rule that) (use g in \<open>auto simp: read_product_ref_Inr\<close>)
qed

lemma sr_reads:
  assumes "sr_from_dict v = Inr s"
  obtains vs where "new_scene_ref (vs ! 0) (vs ! 1) (vs ! 2) = Inr s"
    "\<And>rest. read_uints 4 3 (sr_as_wire s @ rest) = Inr (vs, rest)"
proof -
  obtain e i r where g: "new_scene_ref e i r = Inr s" using from_dict_valid(3) [OF assms] by blast
  show thesis by (rule that [of "[e, i, r]"])
    (use g in \<open>auto simp: scene_ref_Inr read_uints_Inr sr_as_wire_def simp del: be_bytes.simps\<close>)
qed

lemma roi_reads:
  assumes "roi_from_dict v = Inr q"
  obtains vs where "new_roi (vs ! 0) (vs ! 1) (vs ! 2) (vs ! 3) = Inr q"
    "\<And>rest. read_uints 4 4 (roi_as_wire q @ rest) = Inr (vs, rest)"
proof -
  obtain x y w h where g: "new_roi x y w h = Inr q" using from_dict_valid(4) [OF assms] by blast
  show thesis by (rule that [of "[x, y, w, h]"])
    (use g in \<open>auto simp: roi_Inr read_uints_Inr roi_as_wire_def simp del: be_bytes.simps\<close>)
qed

lemma read_uint_be [simp]: "0 \<le> v \<Longrightarrow> v < 256 ^ n \<Longrightarrow> read_uint n (be_bytes n (nat v) @ rest) = Inr (v, rest)"
  by (simp add: read_uint_Inr del: be_bytes.simps)

lemma config_range:
  assumes "config_from_payload d = Inr (e, v, m, c)"
  shows "0 \<le> e \<and> e < 256 ^ 4 \<and> 0 \<le> v \<and> v < 256 ^ 4 \<and> 0 \<le> m \<and> m < 256 ^ 2 \<and> 0 \<le> c \<and> c < 256 ^ 2"
  using assms
  by (auto simp: config_from_payload_def rbind_Inr_iff checked_value_def checked_uint_if split: py_value.splits if_splits)

lemma decode_payload_complete:
  assumes "encode_payload op d = Inr p"
  shows "\<exists>d'. decode_payload op (p @ rest) = Inr (d', rest)"
proof (cases op)
  case CLOUD_SET_CONFIG
  then obtain e v m c where cfg: "config_from_payload d = Inr (e, v, m, c)"
    and p: "p = be_bytes 4 (nat e) @ be_bytes 4 (nat v) @ be_bytes 2 (nat m) @ be_bytes 2 (nat c)"
    using assms by (auto simp: encode_payload_def rbind_Inr_iff)
  show ?thesis using config_range [OF cfg] by (simp add: decode_payload_def CLOUD_SET_CONFIG p del: be_bytes.simps)
next
  case SCENE_REQUEST_CATALOG
  then show ?thesis using assms by (simp add: encode_payload_def decode_payload_def)
next
  case SCENE_REQUEST_PREVIEW
  then obtain s where s: "sr_from_dict (pget d ''scene_ref'') = Inr s" and p: "p = sr_as_wire s"
    using assms by (auto simp: encode_payload_def rbind_Inr_iff)
  show ?thesis by (rule sr_reads [OF s]) (simp add: decode_payload_def SCENE_REQUEST_PREVIEW p Let_def)
next
  case SCENE_ANALYZE
  then obtain s e v m c where s: "sr_from_dict (pget d ''scene_ref'') = Inr s"
    and cfg: "config_from_payload d = Inr (e, v, m, c)"
    and p: "p = sr_as_wire s @ be_bytes 4 (nat e) @ be_bytes 4 (nat v) @ be_bytes 2 (nat m) @ be_bytes 2 (nat c)"
    using assms by (auto simp: encode_payload_def rbind_Inr_iff)
  show ?thesis by (rule sr_reads [OF s])
    (use config_range [OF cfg] in \<open>simp add: decode_payload_def SCENE_ANALYZE p Let_def del: be_bytes.simps\<close>)
next
  case ROI_REQUEST
  then obtain s e v m c q where s: "sr_from_dict (pget d ''scene_ref'') = Inr s"
    and cfg: "config_from_payload d = Inr (e, v, m, c)" and q: "roi_from_dict (pget d ''roi'') = Inr q"
    and p: "p = sr_as_wire s @ be_bytes 4 (nat e) @ be_bytes 4 (nat v) @ roi_as_wire q @ be_bytes 2 (nat m) @ be_bytes 2 (nat c)"
    using assms by (auto simp: encode_payload_def rbind_Inr_iff)
  obtain ws where ws: "new_roi (ws ! 0) (ws ! 1) (ws ! 2) (ws ! 3) = Inr q"
    "\<And>rest. read_uints 4 4 (roi_as_wire q @ rest) = Inr (ws, rest)"
    by (rule roi_reads [OF q]) blast
  show ?thesis by (rule sr_reads [OF s])
    (use config_range [OF cfg] ws in \<open>simp add: decode_payload_def ROI_REQUEST p Let_def del: be_bytes.simps\<close>)
next
  case PRODUCT_REQUEST_DOWNLINK
  then obtain k x where k: "rk_from_dict (pget d ''origin_request_key'') = Inr k"
    and x: "pr_from_dict (pget d ''product_ref'') = Inr x" and p: "p = rk_as_wire k @ pr_as_wire x"
    using assms by (auto simp: encode_payload_def rbind_Inr_iff)
  obtain kd where kd: "rk_as_dict k = Inr kd" "\<And>rest. read_request_key (rk_as_wire k @ rest) = Inr (k, rest)"
    by (rule rk_reads [OF k]) blast
  show ?thesis by (rule pr_reads [OF x]) (use kd in \<open>simp add: decode_payload_def PRODUCT_REQUEST_DOWNLINK p\<close>)
next
  case PRODUCT_CANCEL_DOWNLINK
  then obtain t x where t: "checked_value 32 (pget d ''transfer_id'') = Inr t"
    and x: "pr_from_dict (pget d ''product_ref'') = Inr x" and p: "p = pr_as_wire x @ be_bytes 4 (nat t)"
    using assms by (auto simp: encode_payload_def rbind_Inr_iff)
  have "0 \<le> t" "t < 256 ^ 4"
    using t by (auto simp: checked_value_def checked_uint_if split: py_value.splits if_splits)
  note t' = this
  show ?thesis by (rule pr_reads [OF x])
    (use t' in \<open>simp add: decode_payload_def PRODUCT_CANCEL_DOWNLINK p del: be_bytes.simps\<close>)
next
  case JOB_GET_STATUS
  then obtain k where k: "rk_from_dict (pget d ''target_request_key'') = Inr k" and p: "p = rk_as_wire k"
    using assms by (auto simp: encode_payload_def rbind_Inr_iff)
  show ?thesis by (rule rk_reads [OF k]) (simp add: decode_payload_def JOB_GET_STATUS p)
next
  case JOB_CANCEL
  then obtain k where k: "rk_from_dict (pget d ''target_request_key'') = Inr k" and p: "p = rk_as_wire k"
    using assms by (auto simp: encode_payload_def rbind_Inr_iff)
  show ?thesis by (rule rk_reads [OF k]) (simp add: decode_payload_def JOB_CANCEL p)
qed

section \<open>Property\<close>

definition cmd_valid :: "command \<Rightarrow> bool" where
  "cmd_valid c \<longleftrightarrow> (\<exists>g r. new_request_key g r = Inr (cmd_request_key c))"

text \<open>What the decoder makes of a command: the same header and the fields of its opcode.\<close>

lemma decode_command_sound:
  assumes "decode_command b = Inr c"
  shows "encode_command c = Inr b \<and> cmd_valid c"
proof -
  obtain op target ground request_id key payload d1 d2 d3 d4 where
    r: "read_uint 4 b = Inr (opcode_value op, d1)" "read_uint 8 d1 = Inr (target, d2)"
      "read_uint 8 d2 = Inr (ground, d3)" "read_uint 4 d3 = Inr (request_id, d4)"
    and key: "new_request_key ground request_id = Inr key"
    and payload: "decode_payload op d4 = Inr (payload, [])" and c: "new_command op target key payload = Inr c"
    using assms by (auto simp: decode_command_def rbind_Inr_iff opcode_of_Some split: option.splits if_splits)
  obtain p where p: "encode_payload op payload = Inr p" "d4 = p @ []"
    using decode_payload_sound [OF payload] by blast
  have "d2 = rk_as_wire key @ d4"
    using r(3,4) key by (auto simp: read_uint_Inr request_key_Inr rk_as_wire_def simp del: be_bytes.simps)
  moreover have "u64_to_bytes target = Inr (be_bytes 8 (nat target))"
    using r(2) by (simp add: read_uint_Inr u64_to_bytes_def rbind_Inr_iff del: be_bytes.simps)
  ultimately have "encode_command c = Inr b"
    using r p c by (auto simp: encode_command_def cmd_wire_bytes_def cmd_argument_bytes_def new_command_def
      rbind_Inr_iff read_uint_Inr simp del: be_bytes.simps)
  moreover have "cmd_request_key c = key" using c by (auto simp: new_command_def rbind_Inr_iff)
  ultimately show ?thesis using key unfolding cmd_valid_def by metis
qed

lemma decode_command_complete:
  assumes "encode_command c = Inr b" "cmd_valid c"
  obtains c' where "decode_command b = Inr c'" "cmd_opcode c' = cmd_opcode c"
    "cmd_target_spacecraft_instance_id c' = cmd_target_spacecraft_instance_id c"
    "cmd_request_key c' = cmd_request_key c"
proof -
  let ?t = "cmd_target_spacecraft_instance_id c"
  obtain g r where key: "new_request_key g r = Inr (cmd_request_key c)" using assms(2) by (auto simp: cmd_valid_def)
  obtain p where p: "encode_payload (cmd_opcode c) (cmd_payload c) = Inr p" and t: "0 \<le> ?t" "?t < 256 ^ 8"
    and b: "b = be_bytes 4 (nat (opcode_value (cmd_opcode c))) @ be_bytes 8 (nat ?t) @ rk_as_wire (cmd_request_key c) @ p"
    using assms(1) by (auto simp: encode_command_def cmd_wire_bytes_def cmd_argument_bytes_def u64_to_bytes_def
      rbind_Inr_iff simp del: be_bytes.simps)
  obtain d' where d': "decode_payload (cmd_opcode c) (p @ []) = Inr (d', [])"
    using decode_payload_complete [OF p] by blast
  have rk: "rk_as_wire (cmd_request_key c) = be_bytes 8 (nat g) @ be_bytes 4 (nat r)"
      "0 \<le> g" "g < 256 ^ 8" "0 \<le> r" "r < 256 ^ 4"
    using key by (simp_all add: request_key_Inr rk_as_wire_def del: be_bytes.simps)
  have "decode_command b = new_command (cmd_opcode c) ?t (cmd_request_key c) d'"
    using t d' opcode_value_range [of "cmd_opcode c"] rk(2-)
    by (simp add: decode_command_def b rk(1) key del: be_bytes.simps)
  then show thesis using that t by (simp add: new_command_def checked_u64_def checked_uint_if)
qed

text \<open>
  C12: The command wire format is exact. Whatever \<^verbatim>\<open>decode_command\<close> accepts encodes back to the
  same bytes, so no two byte strings decode to one command and none decodes with bytes ignored;
  and whatever \<^verbatim>\<open>encode_command\<close> produces is accepted, with the same opcode, target and request
  key, and with a payload that has the same encoding. (Fields of the payload that its opcode
  does not use are dropped.)
\<close>

theorem command_codec_exact:
  assumes "cmd_valid c"
  shows "(decode_command b = Inr c \<longrightarrow> encode_command c = Inr b) \<and>
    (encode_command c = Inr b \<longrightarrow>
      (case decode_command b of
         Inl _ \<Rightarrow> False
       | Inr c' \<Rightarrow> cmd_opcode c' = cmd_opcode c \<and> cmd_request_key c' = cmd_request_key c \<and>
           cmd_target_spacecraft_instance_id c' = cmd_target_spacecraft_instance_id c \<and>
           encode_command c' = Inr b))"
proof (intro conjI impI)
  show "encode_command c = Inr b" if "decode_command b = Inr c" using decode_command_sound [OF that] ..
  assume e: "encode_command c = Inr b"
  obtain c' where c': "decode_command b = Inr c'" "cmd_opcode c' = cmd_opcode c"
    "cmd_target_spacecraft_instance_id c' = cmd_target_spacecraft_instance_id c"
    "cmd_request_key c' = cmd_request_key c"
    by (rule decode_command_complete [OF e assms]) blast
  with decode_command_sound [OF c'(1)] show "case decode_command b of
         Inl _ \<Rightarrow> False
       | Inr c' \<Rightarrow> cmd_opcode c' = cmd_opcode c \<and> cmd_request_key c' = cmd_request_key c \<and>
           cmd_target_spacecraft_instance_id c' = cmd_target_spacecraft_instance_id c \<and>
           encode_command c' = Inr b" by simp
qed

definition demo_command :: command where
  "demo_command = \<lparr> cmd_opcode = PRODUCT_CANCEL_DOWNLINK, cmd_target_spacecraft_instance_id = 1,
     cmd_request_key = \<lparr> rk_ground_instance_id = 2, rk_request_id = 3 \<rparr>,
     cmd_payload = [(pkey ''note'', PNone), (pkey ''transfer_id'', PInt 300),
       (pkey ''product_ref'', PDict [(pkey ''spacecraft_instance_id'', PStr (ustr ''0000000000000001'')),
         (pkey ''origin_boot_id'', PInt 4), (pkey ''product_id'', PInt 5)])] \<rparr>"

definition demo_command_bytes :: bytes where
  "demo_command_bytes = [0, 1, 0, 9, 0, 0, 0, 0, 0, 0, 0, 1, 0, 0, 0, 0, 0, 0, 0, 2, 0, 0, 0, 3,
     0, 0, 0, 0, 0, 0, 0, 1, 0, 0, 0, 4, 0, 0, 0, 5, 0, 0, 1, 44]"

lemma command_codec_exact_witness:
  "encode_command demo_command = Inr demo_command_bytes \<and>
   (case decode_command demo_command_bytes of
      Inl _ \<Rightarrow> False
    | Inr c' \<Rightarrow> cmd_opcode c' = PRODUCT_CANCEL_DOWNLINK \<and>
        cmd_request_key c' = cmd_request_key demo_command \<and>
        cmd_target_spacecraft_instance_id c' = 1 \<and> encode_command c' = Inr demo_command_bytes)"
proof -
  have v: "cmd_valid demo_command"
    by (auto simp: cmd_valid_def demo_command_def request_key_Inr)
  have u: "u64_from_value (PStr (ustr ''0000000000000001'')) = Inr 1" by code_simp
  have e: "encode_command demo_command = Inr demo_command_bytes"
    by (simp add: demo_command_def demo_command_bytes_def encode_command_def cmd_wire_bytes_def
      cmd_argument_bytes_def u64_to_bytes_def encode_payload_def pr_from_dict_def require_mapping_def u
      new_product_ref_def pr_as_wire_def rk_as_wire_def checked_u64_def checked_u32_def checked_uint_if
      be_bytes_numeral opcode_value_def opcodes_def)
  have "cmd_opcode demo_command = PRODUCT_CANCEL_DOWNLINK" "cmd_target_spacecraft_instance_id demo_command = 1"
    by (simp_all add: demo_command_def)
  with command_codec_exact [OF v, of demo_command_bytes] e show ?thesis
    by (auto split: sum.splits)
qed

end
