(* ===== verification/MissionScheduler.thy ===== *)
theory MissionScheduler
  imports Interfaces
begin

text \<open>
  \<^verbatim>\<open>flight/mission_com_scheduler.py\<close>: the bounded scheduler that keeps one frame in flight,
  and the completion gate of \<^verbatim>\<open>flight/mission_udp_adapter.py\<close> on top of it. The clock is an
  argument of the operations that read it. A completion callback is a value of a type
  parameter; it runs after everything else its call does, so the call returns it with the
  item and the status, and what it does are the next operations.
\<close>

section \<open>Data\<close>

datatype scheduler_state = READY | IN_FLIGHT | NOT_READY

datatype queue_kind = ACK | CONTROL | FILE

record 'c scheduled_item =
  si_item_id :: int
  si_kind :: queue_kind
  si_frame :: bytes
  si_accepted_at_ms :: int
  si_completion :: "'c option"
  si_ordering_key :: "int option"
  si_status :: "string option"
  si_upstream_returned :: bool

record scheduler_metrics =
  mt_accepted :: "queue_kind \<Rightarrow> nat"
  mt_rejected :: "queue_kind \<Rightarrow> nat"
  mt_completed :: "queue_kind \<Rightarrow> nat"
  mt_duplicate_callbacks :: nat
  mt_oldest_ack_age_ms :: int
  mt_oldest_control_age_ms :: int

text \<open>The counters of the selection, apart from the queues they look at.\<close>

record fairness =
  fr_ack_run :: int
  fr_control_run :: int
  fr_ack_relief_stage :: nat

record 'c scheduler =
  sc_capacities :: "queue_kind \<Rightarrow> int"
  sc_bursts :: "queue_kind \<Rightarrow> int"
  sc_queues :: "queue_kind \<Rightarrow> 'c scheduled_item list"
  sc_state :: scheduler_state
  sc_current :: "'c scheduled_item option"
  sc_next_item_id :: int
  sc_fairness :: fairness
  sc_metrics :: scheduler_metrics
  sc_not_ready_after_completion :: bool

definition kinds :: "queue_kind list" where
  "kinds = [ACK, CONTROL, FILE]"

definition default_capacities :: "queue_kind \<Rightarrow> int" where
  "default_capacities k = (case k of ACK \<Rightarrow> 32 | CONTROL \<Rightarrow> 64 | FILE \<Rightarrow> 16)"

definition sc_init ::
  "(queue_kind \<Rightarrow> int) option \<Rightarrow> int \<Rightarrow> int \<Rightarrow> int \<Rightarrow> 'c scheduler res" where
  "sc_init capacities ack_burst control_burst file_burst =
     (let caps = (case capacities of None \<Rightarrow> default_capacities | Some c \<Rightarrow> c);
          bursts = (\<lambda>k. case k of ACK \<Rightarrow> ack_burst | CONTROL \<Rightarrow> control_burst | FILE \<Rightarrow> file_burst)
      in if list_ex (\<lambda>k. caps k \<le> 0) kinds \<or> list_ex (\<lambda>k. bursts k \<le> 0) kinds
         then Inl (ValueError ''scheduler capacities and bursts must be positive'')
         else Inr \<lparr> sc_capacities = caps, sc_bursts = bursts, sc_queues = (\<lambda>_. []),
           sc_state = READY, sc_current = None, sc_next_item_id = 1,
           sc_fairness = \<lparr> fr_ack_run = 0, fr_control_run = 0, fr_ack_relief_stage = 0 \<rparr>,
           sc_metrics = \<lparr> mt_accepted = (\<lambda>_. 0), mt_rejected = (\<lambda>_. 0), mt_completed = (\<lambda>_. 0),
             mt_duplicate_callbacks = 0, mt_oldest_ack_age_ms = 0, mt_oldest_control_age_ms = 0 \<rparr>,
           sc_not_ready_after_completion = False \<rparr>)"

section \<open>Enqueueing\<close>

definition bump :: "queue_kind \<Rightarrow> (queue_kind \<Rightarrow> nat) \<Rightarrow> queue_kind \<Rightarrow> nat" where
  "bump k f = f(k := f k + 1)"

definition sc_enqueue ::
  "queue_kind \<Rightarrow> bytes \<Rightarrow> 'c option \<Rightarrow> int option \<Rightarrow> int \<Rightarrow> 'c scheduler \<Rightarrow> 'c scheduler \<times> int res" where
  "sc_enqueue kind frame completion ordering_key now_ms s =
     (if (case ordering_key of None \<Rightarrow> False | Some k \<Rightarrow> k < 0)
      then (s, Inl (ValueError ''ordering_key must be a non-negative integer when provided''))
      else if int (length (sc_queues s kind)) \<ge> sc_capacities s kind
      then (s\<lparr> sc_metrics := (sc_metrics s)\<lparr> mt_rejected := bump kind (mt_rejected (sc_metrics s)) \<rparr> \<rparr>,
            Inl (RuntimeError ''QUEUE_FULL''))
      else
        let item_id = sc_next_item_id s;
            item = \<lparr> si_item_id = item_id, si_kind = kind, si_frame = frame,
              si_accepted_at_ms = now_ms, si_completion = completion,
              si_ordering_key = ordering_key, si_status = None, si_upstream_returned = False \<rparr>
        in (s\<lparr> sc_next_item_id := item_id + 1,
               sc_queues := (sc_queues s)(kind := sc_queues s kind @ [item]),
               sc_metrics := (sc_metrics s)\<lparr> mt_accepted := bump kind (mt_accepted (sc_metrics s)) \<rparr> \<rparr>,
            Inr item_id))"

section \<open>Selection\<close>

text \<open>
  \<^verbatim>\<open>_ordered_kind\<close>: the head with the least ordering key, when every head has one. The heads
  are listed in the order of the enumeration, and \<^verbatim>\<open>min\<close> keeps the first of equals.
\<close>

fun min_head :: "(queue_kind \<times> int \<times> int) list \<Rightarrow> (queue_kind \<times> int \<times> int) option" where
  "min_head [] = None"
| "min_head (x # xs) =
     (case min_head xs of
        None \<Rightarrow> Some x
      | Some y \<Rightarrow>
          if fst (snd y) < fst (snd x) \<or> (fst (snd y) = fst (snd x) \<and> snd (snd y) < snd (snd x))
          then Some y else Some x)"

definition sc_ordered_kind :: "'c scheduler \<Rightarrow> queue_kind option" where
  "sc_ordered_kind s =
     (let heads = map (\<lambda>k. (k, hd (sc_queues s k))) (filter (\<lambda>k. sc_queues s k \<noteq> []) kinds)
      in if heads = [] \<or> list_ex (\<lambda>(_, item). si_ordering_key item = None) heads then None
         else map_option fst (min_head
           (map (\<lambda>(k, item). (k, the (si_ordering_key item), si_item_id item)) heads)))"

text \<open>\<^verbatim>\<open>_select_kind\<close>: what it picks, of the three emptiness tests and the counters.\<close>

definition select_kind ::
  "(queue_kind \<Rightarrow> int) \<Rightarrow> bool \<Rightarrow> bool \<Rightarrow> bool \<Rightarrow> fairness \<Rightarrow> queue_kind option \<times> fairness" where
  "select_kind bursts has_ack has_control has_file f =
     (if \<not> (has_ack \<or> has_control \<or> has_file) then (None, f)
      else if has_ack then
        let take_ack = (\<lambda>f. (Some ACK, f\<lparr> fr_ack_run := fr_ack_run f + 1, fr_control_run := 0 \<rparr>)) in
        if fr_ack_run f \<ge> bursts ACK \<and> (has_control \<or> has_file) then
          let f = (if fr_ack_relief_stage f = 0 then f\<lparr> fr_ack_relief_stage := 1 \<rparr> else f) in
          if fr_ack_relief_stage f = 1 \<and> has_control
          then (Some CONTROL, f\<lparr> fr_ack_relief_stage := 2 \<rparr>)
          else
            let f = (if fr_ack_relief_stage f = 1 then f\<lparr> fr_ack_relief_stage := 2 \<rparr> else f) in
            if fr_ack_relief_stage f = 2 \<and> has_file
            then (Some FILE, f\<lparr> fr_ack_relief_stage := 0, fr_ack_run := 0 \<rparr>)
            else take_ack (f\<lparr> fr_ack_relief_stage := 0, fr_ack_run := 0 \<rparr>)
        else take_ack f
      else
        let f = f\<lparr> fr_ack_run := 0, fr_ack_relief_stage := 0 \<rparr> in
        if has_control then
          if fr_control_run f < bursts CONTROL \<or> \<not> has_file
          then (Some CONTROL, f\<lparr> fr_control_run := fr_control_run f + 1 \<rparr>)
          else (Some FILE, f\<lparr> fr_control_run := 0 \<rparr>)
        else (Some FILE, f\<lparr> fr_control_run := 0 \<rparr>))"

definition sc_select_kind :: "'c scheduler \<Rightarrow> queue_kind option \<times> 'c scheduler" where
  "sc_select_kind s =
     (case select_kind (sc_bursts s) (sc_queues s ACK \<noteq> []) (sc_queues s CONTROL \<noteq> [])
             (sc_queues s FILE \<noteq> []) (sc_fairness s) of
        (k, f) \<Rightarrow> (k, s\<lparr> sc_fairness := f \<rparr>))"

definition queue_age :: "'c scheduled_item list \<Rightarrow> int \<Rightarrow> int \<Rightarrow> int" where
  "queue_age q now_ms age = (case q of [] \<Rightarrow> age | item # _ \<Rightarrow> max age (now_ms - si_accepted_at_ms item))"

definition poll_metrics ::
  "'c scheduled_item \<Rightarrow> (queue_kind \<Rightarrow> 'c scheduled_item list) \<Rightarrow> int \<Rightarrow> scheduler_metrics \<Rightarrow> scheduler_metrics" where
  "poll_metrics item queues now_ms m =
     (let age = now_ms - si_accepted_at_ms item;
          ack = (if si_kind item = ACK then max (mt_oldest_ack_age_ms m) age else mt_oldest_ack_age_ms m);
          control = (if si_kind item = CONTROL then max (mt_oldest_control_age_ms m) age
                     else mt_oldest_control_age_ms m)
      in m\<lparr> mt_oldest_ack_age_ms := queue_age (queues ACK) now_ms ack,
            mt_oldest_control_age_ms := queue_age (queues CONTROL) now_ms control \<rparr>)"

definition sc_poll :: "int \<Rightarrow> 'c scheduler \<Rightarrow> 'c scheduler \<times> 'c scheduled_item option" where
  "sc_poll now_ms s =
     (if sc_state s \<noteq> READY \<or> sc_current s \<noteq> None then (s, None)
      else case (case sc_ordered_kind s of Some k \<Rightarrow> (Some k, s) | None \<Rightarrow> sc_select_kind s) of
        (None, s) \<Rightarrow> (s, None)
      | (Some kind, s) \<Rightarrow>
          case sc_queues s kind of
            [] \<Rightarrow> (s, None)
          | item # rest \<Rightarrow>
              let queues = (sc_queues s)(kind := rest)
              in (s\<lparr> sc_queues := queues, sc_current := Some item, sc_state := IN_FLIGHT,
                     sc_metrics := poll_metrics item queues now_ms (sc_metrics s) \<rparr>, Some item))"

section \<open>Completion\<close>

text \<open>The item and the status its callback is called with, when the call completes it.\<close>

type_synonym 'c completion = "('c scheduled_item \<times> string) option"

definition sc_try_complete :: "'c scheduler \<Rightarrow> 'c scheduler \<times> 'c completion" where
  "sc_try_complete s =
     (case sc_current s of
        None \<Rightarrow> (s, None)
      | Some item \<Rightarrow>
          case si_status item of
            None \<Rightarrow> (s, None)
          | Some status \<Rightarrow>
              if \<not> si_upstream_returned item then (s, None)
              else
                (s\<lparr> sc_current := None,
                    sc_state := (if sc_not_ready_after_completion s then NOT_READY else READY),
                    sc_not_ready_after_completion := False,
                    sc_metrics := (sc_metrics s)
                      \<lparr> mt_completed := bump (si_kind item) (mt_completed (sc_metrics s)) \<rparr> \<rparr>,
                 Some (item, status)))"

definition sc_duplicate :: "'c scheduler \<Rightarrow> 'c scheduler" where
  "sc_duplicate s = s\<lparr> sc_metrics := (sc_metrics s)
     \<lparr> mt_duplicate_callbacks := mt_duplicate_callbacks (sc_metrics s) + 1 \<rparr> \<rparr>"

definition sc_mark_status :: "int \<Rightarrow> string \<Rightarrow> 'c scheduler \<Rightarrow> 'c scheduler \<times> 'c completion" where
  "sc_mark_status item_id status s =
     (case sc_current s of
        None \<Rightarrow> (sc_duplicate s, None)
      | Some item \<Rightarrow>
          if si_item_id item \<noteq> item_id then (sc_duplicate s, None)
          else if si_status item \<noteq> None then (sc_duplicate s, None)
          else sc_try_complete (s\<lparr> sc_current := Some (item\<lparr> si_status := Some status \<rparr>) \<rparr>))"

definition sc_mark_upstream_return :: "int \<Rightarrow> 'c scheduler \<Rightarrow> 'c scheduler \<times> 'c completion" where
  "sc_mark_upstream_return item_id s =
     (case sc_current s of
        None \<Rightarrow> (sc_duplicate s, None)
      | Some item \<Rightarrow>
          if si_item_id item \<noteq> item_id then (sc_duplicate s, None)
          else if si_upstream_returned item then (sc_duplicate s, None)
          else sc_try_complete (s\<lparr> sc_current := Some (item\<lparr> si_upstream_returned := True \<rparr>) \<rparr>))"

definition sc_set_not_ready :: "'c scheduler \<Rightarrow> 'c scheduler" where
  "sc_set_not_ready s =
     (if sc_current s \<noteq> None then s\<lparr> sc_not_ready_after_completion := True \<rparr>
      else s\<lparr> sc_state := NOT_READY \<rparr>)"

definition sc_set_ready :: "'c scheduler \<Rightarrow> 'c scheduler" where
  "sc_set_ready s = (if sc_current s = None then s\<lparr> sc_state := READY \<rparr> else s)"

definition sc_queue_depths :: "'c scheduler \<Rightarrow> queue_kind \<Rightarrow> nat" where
  "sc_queue_depths s k = length (sc_queues s k)"

section \<open>The scheduler driven by calls\<close>

datatype 'c scheduler_op =
    ScEnqueue queue_kind bytes "'c option" "int option" int
  | ScPoll int
  | ScStatus int string
  | ScReturn int
  | ScNotReady
  | ScReady

datatype 'c sc_event =
    ScQuiet
  | ScAccepted "'c scheduled_item"
  | ScTaken "'c scheduled_item"
  | ScCompleted "'c scheduled_item" string

definition completion_event :: "'c completion \<Rightarrow> 'c sc_event" where
  "completion_event c = (case c of None \<Rightarrow> ScQuiet | Some (item, status) \<Rightarrow> ScCompleted item status)"

fun sc_step :: "'c scheduler_op \<Rightarrow> 'c scheduler \<Rightarrow> 'c scheduler \<times> 'c sc_event" where
  "sc_step (ScEnqueue kind frame completion key now_ms) s =
     (case sc_enqueue kind frame completion key now_ms s of
        (s, Inl _) \<Rightarrow> (s, ScQuiet)
      | (s, Inr _) \<Rightarrow> (s, ScAccepted (last (sc_queues s kind))))"
| "sc_step (ScPoll now_ms) s =
     (case sc_poll now_ms s of (s, None) \<Rightarrow> (s, ScQuiet) | (s, Some item) \<Rightarrow> (s, ScTaken item))"
| "sc_step (ScStatus item_id status) s =
     (case sc_mark_status item_id status s of (s, c) \<Rightarrow> (s, completion_event c))"
| "sc_step (ScReturn item_id) s =
     (case sc_mark_upstream_return item_id s of (s, c) \<Rightarrow> (s, completion_event c))"
| "sc_step ScNotReady s = (sc_set_not_ready s, ScQuiet)"
| "sc_step ScReady s = (sc_set_ready s, ScQuiet)"

fun sc_run :: "'c scheduler \<Rightarrow> 'c scheduler_op list \<Rightarrow> 'c scheduler \<times> 'c sc_event list" where
  "sc_run s [] = (s, [])"
| "sc_run s (op # ops) =
     (let (s1, ev) = sc_step op s; (s2, evs) = sc_run s1 ops in (s2, ev # evs))"

text \<open>What a caller knows an item by: its number, its class, its frame and its callback.\<close>

type_synonym 'c ticket = "int \<times> queue_kind \<times> bytes \<times> 'c option"

definition ticket :: "'c scheduled_item \<Rightarrow> 'c ticket" where
  "ticket i = (si_item_id i, si_kind i, si_frame i, si_completion i)"

fun accepted_of :: "'c sc_event \<Rightarrow> 'c ticket list" where
  "accepted_of (ScAccepted i) = [ticket i]" | "accepted_of _ = []"

fun taken_of :: "'c sc_event \<Rightarrow> 'c ticket list" where
  "taken_of (ScTaken i) = [ticket i]" | "taken_of _ = []"

fun completed_of :: "'c sc_event \<Rightarrow> 'c ticket list" where
  "completed_of (ScCompleted i _) = [ticket i]" | "completed_of _ = []"

definition log_of :: "('c sc_event \<Rightarrow> 'c ticket list) \<Rightarrow> 'c sc_event list \<Rightarrow> 'c ticket list" where
  "log_of f evs = concat (map f evs)"

lemma log_of_simps [simp]: "log_of f [] = []" "log_of f (e # es) = f e @ log_of f es"
  by (simp_all add: log_of_def)

definition of_kind :: "queue_kind \<Rightarrow> 'c ticket list \<Rightarrow> 'c ticket list" where
  "of_kind k = filter (\<lambda>t. fst (snd t) = k)"

lemma of_kind_simps [simp]:
  "of_kind k [] = []" "of_kind k (xs @ ys) = of_kind k xs @ of_kind k ys"
  "of_kind k [ticket i] = (if si_kind i = k then [ticket i] else [])"
  by (simp_all add: of_kind_def ticket_def)

definition queued :: "'c scheduler \<Rightarrow> queue_kind \<Rightarrow> 'c ticket list" where
  "queued s k = map ticket (sc_queues s k)"

definition in_flight :: "'c scheduler \<Rightarrow> 'c ticket list" where
  "in_flight s = (case sc_current s of None \<Rightarrow> [] | Some i \<Rightarrow> [ticket i])"

lemmas sc_defs = sc_enqueue_def sc_poll_def sc_mark_status_def sc_mark_upstream_return_def
  sc_try_complete_def sc_duplicate_def sc_set_not_ready_def sc_set_ready_def Let_def
  completion_event_def

lemma sc_select_kind_frame:
  "sc_queues (snd (sc_select_kind s)) = sc_queues s"
  "sc_current (snd (sc_select_kind s)) = sc_current s"
  "sc_state (snd (sc_select_kind s)) = sc_state s"
  "sc_next_item_id (snd (sc_select_kind s)) = sc_next_item_id s"
  "sc_capacities (snd (sc_select_kind s)) = sc_capacities s"
  "sc_metrics (snd (sc_select_kind s)) = sc_metrics s"
  "sc_bursts (snd (sc_select_kind s)) = sc_bursts s"
  by (simp_all add: sc_select_kind_def split: prod.split)

lemma ticket_update [simp]:
  "ticket (i\<lparr> si_status := x \<rparr>) = ticket i" "ticket (i\<lparr> si_upstream_returned := b \<rparr>) = ticket i"
  by (simp_all add: ticket_def)

text \<open>What a successful \<^verbatim>\<open>poll\<close> does, apart from which class it picks.\<close>

lemma sc_poll_cases:
  obtains (nothing) "snd (sc_poll now s) = None" "sc_queues (fst (sc_poll now s)) = sc_queues s"
      "sc_current (fst (sc_poll now s)) = sc_current s" "sc_state (fst (sc_poll now s)) = sc_state s"
      "sc_next_item_id (fst (sc_poll now s)) = sc_next_item_id s"
      "sc_capacities (fst (sc_poll now s)) = sc_capacities s"
  | (taken) k item rest where "sc_state s = READY" "sc_current s = None"
      "sc_queues s k = item # rest" "snd (sc_poll now s) = Some item"
      "sc_queues (fst (sc_poll now s)) = (sc_queues s)(k := rest)"
      "sc_current (fst (sc_poll now s)) = Some item" "sc_state (fst (sc_poll now s)) = IN_FLIGHT"
      "sc_next_item_id (fst (sc_poll now s)) = sc_next_item_id s"
      "sc_capacities (fst (sc_poll now s)) = sc_capacities s"
proof (cases "sc_state s \<noteq> READY \<or> sc_current s \<noteq> None")
  case True
  show ?thesis by (rule nothing) (use True in \<open>simp_all add: sc_poll_def\<close>)
next
  case False
  define p where "p = (case sc_ordered_kind s of Some k \<Rightarrow> (Some k, s) | None \<Rightarrow> sc_select_kind s)"
  have f: "sc_queues (snd p) = sc_queues s" "sc_current (snd p) = sc_current s" "sc_state (snd p) = sc_state s"
    "sc_next_item_id (snd p) = sc_next_item_id s" "sc_capacities (snd p) = sc_capacities s"
    by (simp_all add: p_def sc_select_kind_frame split: option.split)
  note poll = sc_poll_def [of now s, folded p_def] False
  show ?thesis
  proof (cases "fst p")
    case None
    show ?thesis by (rule nothing) (use f None in \<open>simp_all add: poll split_beta\<close>)
  next
    case (Some k)
    show ?thesis
    proof (cases "sc_queues s k")
      case Nil
      show ?thesis by (rule nothing) (use f Some Nil in \<open>simp_all add: poll split_beta\<close>)
    next
      case (Cons item rest)
      show ?thesis
        by (rule taken [OF _ _ Cons]) (use f Some False Cons in \<open>simp_all add: poll split_beta Let_def\<close>)
    qed
  qed
qed

section \<open>Ownership\<close>

definition sc_inv :: "'c scheduler \<Rightarrow> bool" where
  "sc_inv s \<longleftrightarrow> (sc_state s = IN_FLIGHT \<longleftrightarrow> sc_current s \<noteq> None) \<and>
     (\<forall>k. \<forall>i \<in> set (sc_queues s k). si_kind i = k \<and> si_status i = None \<and> \<not> si_upstream_returned i) \<and>
     (\<forall>k. int (length (sc_queues s k)) \<le> sc_capacities s k)"

text \<open>One call: what it takes comes off the front of its queue, what it accepts goes to the back.\<close>

lemma sc_step_queues:
  assumes "sc_step op s = (s', ev)" and "sc_inv s"
  shows "queued s k @ of_kind k (accepted_of ev) = of_kind k (taken_of ev) @ queued s' k"
proof (cases op)
  case (ScEnqueue kind frame completion key now)
  with assms show ?thesis
    by (auto simp: sc_enqueue_def queued_def Let_def ticket_def of_kind_def split: if_splits)
next
  case (ScPoll now)
  show ?thesis
  proof (cases rule: sc_poll_cases [of now s])
    case nothing
    with assms ScPoll show ?thesis by (auto simp: queued_def split_beta split: option.splits)
  next
    case (taken k' item rest)
    then have "si_kind item = k'" using assms(2) by (auto simp: sc_inv_def)
    with taken assms ScPoll show ?thesis by (auto simp: queued_def split_beta split: option.splits)
  qed
qed (use assms in \<open>auto simp: sc_defs queued_def split: if_splits option.splits prod.splits\<close>)

lemma sc_step_current:
  assumes "sc_step op s = (s', ev)" and "sc_inv s"
  shows "in_flight s @ taken_of ev = completed_of ev @ in_flight s'"
proof (cases op)
  case (ScEnqueue kind frame completion key now)
  with assms show ?thesis by (auto simp: sc_enqueue_def in_flight_def Let_def split: if_splits)
next
  case (ScPoll now)
  show ?thesis
  proof (cases rule: sc_poll_cases [of now s])
    case nothing
    with assms ScPoll show ?thesis by (auto simp: in_flight_def split_beta split: option.splits)
  next
    case (taken k' item rest)
    with assms ScPoll show ?thesis by (auto simp: in_flight_def split_beta split: option.splits)
  qed
qed (use assms in \<open>auto simp: sc_defs in_flight_def split: if_splits option.splits prod.splits\<close>)

lemma sc_step_ids:
  assumes "sc_step op s = (s', ev)"
  shows "map fst (accepted_of ev) = [sc_next_item_id s .. sc_next_item_id s' - 1]"
    "sc_next_item_id s \<le> sc_next_item_id s'" "sc_capacities s' = sc_capacities s"
proof -
  have "map fst (accepted_of ev) = [sc_next_item_id s .. sc_next_item_id s' - 1] \<and>
    sc_next_item_id s \<le> sc_next_item_id s' \<and> sc_capacities s' = sc_capacities s"
  proof (cases op)
    case (ScEnqueue kind frame completion key now)
    with assms show ?thesis by (auto simp: sc_enqueue_def Let_def ticket_def split: if_splits)
  next
    case (ScPoll now)
    show ?thesis
      by (cases rule: sc_poll_cases [of now s])
        (use assms ScPoll in \<open>auto simp: split_beta split: option.splits\<close>)
  qed (use assms in \<open>auto simp: sc_defs split: if_splits option.splits prod.splits\<close>)
  then show "map fst (accepted_of ev) = [sc_next_item_id s .. sc_next_item_id s' - 1]"
    "sc_next_item_id s \<le> sc_next_item_id s'" "sc_capacities s' = sc_capacities s" by simp_all
qed

lemma sc_step_inv: "sc_inv s \<Longrightarrow> sc_inv (fst (sc_step op s))"
proof (cases op)
  case (ScEnqueue kind frame completion key now)
  moreover assume "sc_inv s"
  ultimately show ?thesis by (auto simp: sc_enqueue_def Let_def sc_inv_def)
next
  case (ScPoll now)
  assume inv: "sc_inv s"
  show ?thesis
  proof (cases rule: sc_poll_cases [of now s])
    case nothing
    with inv ScPoll show ?thesis by (auto simp: sc_inv_def split_beta split: option.splits)
  next
    case (taken k' item rest)
    have "int (length rest) \<le> sc_capacities s k'" 
      "\<forall>i \<in> set rest. si_kind i = k' \<and> si_status i = None \<and> \<not> si_upstream_returned i"
      using inv taken(3) unfolding sc_inv_def by (metis length_Cons le_add2 of_nat_mono order_trans plus_1_eq_Suc,
        metis list.set_intros(2))
    with taken inv ScPoll show ?thesis by (auto simp: sc_inv_def split_beta split: option.splits)
  qed
qed (auto simp: sc_inv_def sc_defs split: option.splits prod.splits)

interpretation scheduler: op_system "\<lambda>s op. fst (sc_step op s)" sc_inv
  by unfold_locales (rule sc_step_inv)

lemma sc_init_inv: "sc_init caps a c f = Inr s \<Longrightarrow> sc_inv s"
  by (auto simp: sc_init_def sc_inv_def Let_def kinds_def split: if_splits) (metis less_imp_le not_le queue_kind.exhaust)

lemma sc_init_empty:
  "sc_init caps a c f = Inr s \<Longrightarrow> queued s k = [] \<and> in_flight s = [] \<and> sc_next_item_id s = 1"
  by (auto simp: sc_init_def queued_def in_flight_def Let_def split: if_splits)

definition sc_balance :: "'c scheduler \<Rightarrow> 'c sc_event list \<Rightarrow> 'c scheduler \<Rightarrow> bool" where
  "sc_balance s evs s' \<longleftrightarrow>
     (\<forall>k. queued s k @ of_kind k (log_of accepted_of evs) = of_kind k (log_of taken_of evs) @ queued s' k) \<and>
     in_flight s @ log_of taken_of evs = log_of completed_of evs @ in_flight s' \<and>
     map fst (log_of accepted_of evs) = [sc_next_item_id s .. sc_next_item_id s' - 1] \<and>
     sc_next_item_id s \<le> sc_next_item_id s' \<and> sc_capacities s' = sc_capacities s"

lemma upto_append: "i \<le> j \<Longrightarrow> j \<le> k \<Longrightarrow> [i..j - 1] @ [j..k - 1] = [i..k - 1 :: int]"
  by (metis upto_split1 diff_add_cancel diff_right_mono le_add_diff_inverse2 upto_split2 upto_empty
    add.commute append_Nil2 le_less linorder_not_le upto_split1 zle_diff1_eq)

lemma sc_run_balance: "sc_inv s \<Longrightarrow> sc_run s ops = (s', evs) \<Longrightarrow> sc_balance s evs s'"
proof (induction ops arbitrary: s evs)
  case Nil
  then show ?case by (simp add: sc_balance_def)
next
  case (Cons op ops)
  obtain s1 ev where step: "sc_step op s = (s1, ev)" by force
  obtain evs' where rest: "sc_run s1 ops = (s', evs')" and evs: "evs = ev # evs'"
    using Cons.prems by (auto simp: step Let_def split: prod.splits)
  have "sc_inv s1" using sc_step_inv [OF Cons.prems(1), of op] by (simp add: step)
  then have IH: "sc_balance s1 evs' s'" by (rule Cons.IH [OF _ rest])
  have q: "queued s k @ of_kind k (accepted_of ev @ log_of accepted_of evs') =
      of_kind k (taken_of ev @ log_of taken_of evs') @ queued s' k" for k
    using sc_step_queues [OF step Cons.prems(1), of k] IH unfolding sc_balance_def of_kind_simps
    by (metis append.assoc)
  have c: "in_flight s @ taken_of ev @ log_of taken_of evs' =
      (completed_of ev @ log_of completed_of evs') @ in_flight s'"
    using sc_step_current [OF step Cons.prems(1)] IH unfolding sc_balance_def by (metis append.assoc)
  note ids = sc_step_ids [OF step]
  have i: "map fst (accepted_of ev @ log_of accepted_of evs') = [sc_next_item_id s .. sc_next_item_id s' - 1]"
    using ids IH by (simp add: sc_balance_def upto_append)
  show ?case using q c i ids IH by (simp add: sc_balance_def evs)
qed

section \<open>Properties\<close>



section \<open>Service of the FILE class\<close>

text \<open>The classes picked while a FILE frame waits; the environment says what else waits.\<close>

fun picks :: "(queue_kind \<Rightarrow> int) \<Rightarrow> (bool \<times> bool) list \<Rightarrow> fairness \<Rightarrow> queue_kind option list" where
  "picks bursts [] f = []"
| "picks bursts ((has_ack, has_control) # env) f =
     (let (k, f) = select_kind bursts has_ack has_control True f in k # picks bursts env f)"

definition ack_wait :: "(queue_kind \<Rightarrow> int) \<Rightarrow> fairness \<Rightarrow> nat" where
  "ack_wait bursts f = nat (bursts ACK - fr_ack_run f) + (if fr_ack_relief_stage f = 2 then 1 else 2)"

definition fair_inv :: "fairness \<Rightarrow> bool" where
  "fair_inv f \<longleftrightarrow> 0 \<le> fr_ack_run f \<and> 0 \<le> fr_control_run f \<and> fr_ack_relief_stage f \<le> 2"

lemma select_kind_inv: "fair_inv f \<Longrightarrow> fair_inv (snd (select_kind bursts a c d f))"
  by (auto simp: fair_inv_def select_kind_def Let_def)

lemma select_kind_ack:
  assumes "select_kind bursts True c True f = (k, f')" "fair_inv f" "k \<noteq> Some FILE"
  shows "ack_wait bursts f' < ack_wait bursts f"
proof -
  have "fr_ack_relief_stage f = 0 \<or> fr_ack_relief_stage f = 1 \<or> fr_ack_relief_stage f = 2"
    using assms(2) by (auto simp: fair_inv_def)
  then show ?thesis
    using assms by (elim disjE) (auto simp: select_kind_def ack_wait_def Let_def split: if_splits)
qed

lemma select_kind_no_ack:
  assumes "select_kind bursts False c True f = (k, f')" "k \<noteq> Some FILE"
  shows "fr_control_run f < bursts CONTROL \<and> fr_control_run f' = fr_control_run f + 1"
  using assms by (auto simp: select_kind_def Let_def split: if_splits)

lemma picks_ack:
  "fair_inv f \<Longrightarrow> list_all fst env \<Longrightarrow> ack_wait bursts f \<le> length env \<Longrightarrow> Some FILE \<in> set (picks bursts env f)"
proof (induction env arbitrary: f)
  case Nil
  then show ?case by (simp add: ack_wait_def split: if_splits)
next
  case (Cons e env)
  obtain c where e: "e = (True, c)" using Cons.prems(2) by (cases e) auto
  obtain k f' where sel: "select_kind bursts True c True f = (k, f')" by force
  show ?case
  proof (cases "k = Some FILE")
    case True
    then show ?thesis by (simp add: e sel)
  next
    case False
    have "fair_inv f'" using select_kind_inv [OF Cons.prems(1), of bursts True c True] by (simp add: sel)
    moreover have "ack_wait bursts f' \<le> length env"
      using select_kind_ack [OF sel Cons.prems(1) False] Cons.prems(3) by simp
    ultimately show ?thesis using Cons.IH Cons.prems(2) by (simp add: e sel)
  qed
qed

lemma picks_no_ack:
  "list_all (Not \<circ> fst) env \<Longrightarrow> nat (bursts CONTROL - fr_control_run f) < length env
   \<Longrightarrow> Some FILE \<in> set (picks bursts env f)"
proof (induction env arbitrary: f)
  case Nil
  then show ?case by simp
next
  case (Cons e env)
  obtain c where e: "e = (False, c)" using Cons.prems(1) by (cases e) auto
  obtain k f' where sel: "select_kind bursts False c True f = (k, f')" by force
  show ?case
  proof (cases "k = Some FILE")
    case True
    then show ?thesis by (simp add: e sel)
  next
    case False
    have "nat (bursts CONTROL - fr_control_run f') < length env"
      using select_kind_no_ack [OF sel False] Cons.prems(2) by (simp, linarith)
    then show ?thesis using Cons.IH Cons.prems(1) by (simp add: e sel)
  qed
qed

lemma sc_step_fair:
  "fair_inv (sc_fairness s) \<Longrightarrow> fair_inv (sc_fairness (fst (sc_step op s))) \<and> sc_bursts (fst (sc_step op s)) = sc_bursts s"
proof (cases op)
  case (ScPoll now)
  assume "fair_inv (sc_fairness s)"
  moreover have "sc_fairness (snd (sc_select_kind s)) =
      snd (select_kind (sc_bursts s) (sc_queues s ACK \<noteq> []) (sc_queues s CONTROL \<noteq> [])
        (sc_queues s FILE \<noteq> []) (sc_fairness s))"
    by (simp add: sc_select_kind_def split: prod.split)
  ultimately have "fair_inv (sc_fairness (snd (sc_select_kind s)))" by (simp add: select_kind_inv)
  with \<open>fair_inv (sc_fairness s)\<close> ScPoll show ?thesis
    by (auto simp: sc_poll_def split_beta Let_def sc_select_kind_frame split: option.split list.split)
qed (auto simp: sc_defs split: option.split prod.split)

lemma sc_run_fair:
  "fair_inv (sc_fairness s) \<Longrightarrow> sc_run s ops = (s', evs)
   \<Longrightarrow> fair_inv (sc_fairness s') \<and> sc_bursts s' = sc_bursts s"
proof (induction ops arbitrary: s evs)
  case Nil
  then show ?case by simp
next
  case (Cons op ops)
  then show ?case
    using sc_step_fair [OF Cons.prems(1), of op] by (auto simp: Let_def split: prod.splits)
qed

section \<open>Starvation of the FILE class\<close>

definition serve :: "queue_kind \<Rightarrow> int \<Rightarrow> unit scheduler_op list" where
  "serve k item_id =
     [ScEnqueue k [] None None 0, ScPoll 0, ScReturn item_id, ScStatus item_id ''OK'']"

definition alternating :: "nat \<Rightarrow> unit scheduler_op list" where
  "alternating n = concat (map (\<lambda>i. serve ACK (2 * int i + 2) @ serve CONTROL (2 * int i + 3)) [0..<n])"

definition waits :: "int \<Rightarrow> unit scheduler \<Rightarrow> bool" where
  "waits n s \<longleftrightarrow> sc_current s = None \<and> sc_state s = READY \<and> \<not> sc_not_ready_after_completion s \<and>
     sc_next_item_id s = n \<and> (\<forall>k. 0 < sc_capacities s k) \<and> (\<forall>k. 0 < sc_bursts s k) \<and>
     (\<exists>held. si_ordering_key held = None \<and> sc_queues s = (\<lambda>k. if k = FILE then [held] else []))"

lemma serve_run:
  assumes w: "waits n s" and k: "k \<noteq> FILE"
    and sel: "select_kind (sc_bursts s) (k = ACK) (k = CONTROL) True (sc_fairness s) = (Some k, f')"
  obtains s' evs where "sc_run s (serve k n) = (s', evs)" "waits (n + 1) s'" "sc_fairness s' = f'"
    "sc_bursts s' = sc_bursts s" "log_of taken_of evs = [(n, k, [], None)]"
proof -
  obtain held where held: "si_ordering_key held = None"
    and q: "sc_queues s = (\<lambda>k. if k = FILE then [held] else [])"
    using w by (auto simp: waits_def)
  have st: "sc_current s = None" "sc_state s = READY" "\<not> sc_not_ready_after_completion s"
    "sc_next_item_id s = n" "\<not> sc_capacities s k \<le> 0"
    using w by (auto simp: waits_def linorder_not_le)
  define item :: "unit scheduled_item" where
    "item = \<lparr> si_item_id = n, si_kind = k, si_frame = [], si_accepted_at_ms = 0, si_completion = None,
       si_ordering_key = None, si_status = None, si_upstream_returned = False \<rparr>"
  define s1 where "s1 = fst (sc_step (ScEnqueue k [] None None 0) s)"
  have s1: "sc_step (ScEnqueue k [] None None 0) s = (s1, ScAccepted item)"
    "sc_queues s1 = (\<lambda>j. if j = FILE then [held] else if j = k then [item] else [])"
    "sc_current s1 = None" "sc_state s1 = READY" "\<not> sc_not_ready_after_completion s1"
    "sc_next_item_id s1 = n + 1" "sc_capacities s1 = sc_capacities s" "sc_bursts s1 = sc_bursts s"
    "sc_fairness s1 = sc_fairness s"
    using st k q by (auto simp: s1_def sc_enqueue_def item_def Let_def fun_eq_iff)
  have o1: "sc_ordered_kind s1 = None"
    using k held by (cases k) (simp_all add: sc_ordered_kind_def s1 kinds_def)
  have sel1: "sc_select_kind s1 = (Some k, s1\<lparr> sc_fairness := f' \<rparr>)"
    using sel k by (cases k) (simp_all add: sc_select_kind_def s1)
  define s2 where "s2 = fst (sc_step (ScPoll 0) s1)"
  have s2: "sc_step (ScPoll 0) s1 = (s2, ScTaken item)"
    "sc_queues s2 = (\<lambda>j. if j = FILE then [held] else [])"
    "sc_current s2 = Some item" "sc_state s2 = IN_FLIGHT" "\<not> sc_not_ready_after_completion s2"
    "sc_next_item_id s2 = n + 1" "sc_capacities s2 = sc_capacities s" "sc_bursts s2 = sc_bursts s"
    "sc_fairness s2 = f'"
    using k by (auto simp: s2_def sc_poll_def s1 o1 sel1 Let_def fun_eq_iff)
  let ?r = "item\<lparr> si_upstream_returned := True \<rparr>"
  have r: "sc_step (ScReturn n) s2 = (s2\<lparr> sc_current := Some ?r \<rparr>, ScQuiet)"
    by (simp add: sc_defs s2 item_def)
  define s4 where "s4 = fst (sc_step (ScStatus n ''OK'') (s2\<lparr> sc_current := Some ?r \<rparr>))"
  have s4: "sc_step (ScStatus n ''OK'') (s2\<lparr> sc_current := Some ?r \<rparr>)
      = (s4, ScCompleted (?r\<lparr> si_status := Some ''OK'' \<rparr>) ''OK'')"
    "waits (n + 1) s4" "sc_fairness s4 = f'" "sc_bursts s4 = sc_bursts s"
    using w held by (auto simp: s4_def sc_defs s2 item_def waits_def)
  have run: "sc_run s (serve k n) = (s4, [ScAccepted item, ScTaken item, ScQuiet,
      ScCompleted (?r\<lparr> si_status := Some ''OK'' \<rparr>) ''OK''])"
    by (simp add: serve_def s1(1) s2(1) r s4(1) del: sc_step.simps)
  show ?thesis by (rule that [OF run s4(2-4)]) (simp add: ticket_def item_def)
qed

lemma sc_run_append:
  "sc_run s (xs @ ys) = (let (s1, evs) = sc_run s xs; (s2, evs') = sc_run s1 ys in (s2, evs @ evs'))"
  by (induction xs arbitrary: s) (simp_all add: Let_def split_beta)

lemma log_of_append: "log_of f (xs @ ys) = log_of f xs @ log_of f ys"
  by (simp add: log_of_def)

lemma alternating_run:
  assumes "waits 2 s" "fr_ack_run (sc_fairness s) = 0"
  obtains s' evs where "sc_run s (alternating n) = (s', evs)" "waits (2 * int n + 2) s'"
    "fr_ack_run (sc_fairness s') = 0" "length (log_of taken_of evs) = 2 * n"
    "of_kind FILE (log_of taken_of evs) = []"
proof (induction n arbitrary: thesis)
  case 0
  show ?case by (rule 0 [of s "[]"]) (simp_all add: alternating_def assms)
next
  case (Suc n)
  obtain s' evs where run: "sc_run s (alternating n) = (s', evs)" and w: "waits (2 * int n + 2) s'"
    and a: "fr_ack_run (sc_fairness s') = 0" and l: "length (log_of taken_of evs) = 2 * n"
      "of_kind FILE (log_of taken_of evs) = []"
    by (rule Suc.IH)
  have b: "0 < sc_bursts s' ACK" "0 < sc_bursts s' CONTROL" using w by (simp_all add: waits_def)
  let ?f = "(sc_fairness s')\<lparr> fr_ack_run := 1, fr_control_run := 0 \<rparr>"
  have sel: "select_kind (sc_bursts s') True False True (sc_fairness s') = (Some ACK, ?f)"
    using a b by (simp add: select_kind_def)
  obtain s1 evs1 where r1: "sc_run s' (serve ACK (2 * int n + 2)) = (s1, evs1)" "waits (2 * int n + 2 + 1) s1"
    "sc_fairness s1 = ?f" "sc_bursts s1 = sc_bursts s'" "log_of taken_of evs1 = [(2 * int n + 2, ACK, [], None)]"
    by (rule serve_run [OF w, of ACK ?f]) (use sel in simp_all)
  let ?g = "?f\<lparr> fr_ack_run := 0, fr_ack_relief_stage := 0, fr_control_run := 1 \<rparr>"
  have sel1: "select_kind (sc_bursts s1) False True True (sc_fairness s1) = (Some CONTROL, ?g)"
    using b by (simp add: select_kind_def r1)
  have w1: "waits (2 * int n + 3) s1" using r1(2) by (simp add: algebra_simps)
  obtain s2 evs2 where r2: "sc_run s1 (serve CONTROL (2 * int n + 3)) = (s2, evs2)"
    "waits (2 * int n + 3 + 1) s2" "sc_fairness s2 = ?g"
    "log_of taken_of evs2 = [(2 * int n + 3, CONTROL, [], None)]"
    by (rule serve_run [OF w1, of CONTROL ?g]) (use sel1 in simp_all)
  have "alternating (Suc n) = alternating n @ serve ACK (2 * int n + 2) @ serve CONTROL (2 * int n + 3)"
    by (simp add: alternating_def)
  then have "sc_run s (alternating (Suc n)) = (s2, evs @ evs1 @ evs2)"
    by (simp add: sc_run_append run r1(1) r2(1))
  then show ?case
    by (rule Suc.prems) (use r1 r2 l in \<open>simp_all add: log_of_append of_kind_def algebra_simps\<close>)
qed



end
