(* ===== verification/FileDownlink.thy ===== *)
theory FileDownlink
  imports CfdpChecksum Schemas MissionScheduler
begin

text \<open>
  \<^verbatim>\<open>flight/file_downlink.py\<close>: the coordinator that owns one wire attempt of a file from START
  to the end of its cooldown. What a call reads from outside is an argument: the stamps and
  the content of the bundle, the counters that \<^verbatim>\<open>tm_counter_allocator\<close> returns (\<open>None\<close> without
  an allocator), and SHA-256. The calls of \<^verbatim>\<open>state_callback\<close> are kept in order.
\<close>

section \<open>State\<close>

datatype transfer_state =
    IDLE | SENDING | CANCEL_REQUESTED | CANCEL_DRAINING | ABORTING | COOLDOWN
  | SEND_COMPLETED | SEND_FAILED | CANCELED

definition TERMINAL_TRANSFER_STATES :: "transfer_state list" where
  "TERMINAL_TRANSFER_STATES = [SEND_COMPLETED, SEND_FAILED, CANCELED]"

record bundle_stamp =
  bs_device :: int
  bs_inode :: int
  bs_size :: int
  bs_mtime_ns :: int

record tm_counters =
  tk_apid :: int
  tk_virtual_channel_id :: int
  tk_packet_sequence :: int
  tk_packet_sequence_epoch :: int
  tk_master_channel_count :: int
  tk_master_channel_epoch :: int
  tk_virtual_channel_count :: int
  tk_virtual_channel_epoch :: int

record frame_lease =
  fl_attempt_epoch :: int
  fl_lease_id :: int
  fl_transfer_id :: int
  fl_packet :: file_packet
  fl_frame :: bytes
  fl_ordering_key :: "int option"

record active_transfer =
  at_transfer_id :: int
  at_product_ref :: product_ref
  at_bundle_path :: string
  at_bundle_size :: int
  at_bundle_sha256 :: string
  at_bundle_checksum :: nat
  at_bundle_stamp :: bundle_stamp
  at_attempt_epoch :: int
  at_state :: transfer_state
  at_next_offset :: int
  at_next_file_sequence :: int
  at_packet_sequence :: int
  at_current_lease :: "frame_lease option"
  at_output_gate_open :: bool
  at_abort_reason :: "string option"
  at_epoch_closed :: bool
  at_cooldown_ticks :: int
  at_terminal_after_cooldown :: "transfer_state option"

record coordinator =
  fd_tm_file_apid :: int
  fd_spacecraft_id :: int
  fd_required_cooldown_ticks :: int
  fd_active :: "active_transfer option"
  fd_closed_attempts :: "int set"
  fd_next_attempt_epoch :: int
  fd_next_lease_id :: int
  fd_frames_completed :: nat
  fd_terminal_failures :: nat
  fd_late_callbacks :: nat
  fd_duplicate_callbacks :: nat
  fd_abort_fences_closed :: nat
  fd_callbacks :: "(int \<times> transfer_state \<times> string option) list"

definition fd_init :: "int \<Rightarrow> int \<Rightarrow> int \<Rightarrow> coordinator res" where
  "fd_init tm_file_apid spacecraft_id cooldown_ticks =
     (if cooldown_ticks \<le> 0 then Inl (ValueError ''cooldown_ticks must be positive'')
      else Inr \<lparr> fd_tm_file_apid = tm_file_apid, fd_spacecraft_id = spacecraft_id,
        fd_required_cooldown_ticks = cooldown_ticks, fd_active = None, fd_closed_attempts = {},
        fd_next_attempt_epoch = 1, fd_next_lease_id = 1, fd_frames_completed = 0,
        fd_terminal_failures = 0, fd_late_callbacks = 0, fd_duplicate_callbacks = 0,
        fd_abort_fences_closed = 0, fd_callbacks = [] \<rparr>)"

definition fd_transition ::
  "active_transfer \<Rightarrow> transfer_state \<Rightarrow> string option \<Rightarrow> coordinator \<Rightarrow> coordinator" where
  "fd_transition active state reason c =
     c\<lparr> fd_active := Some (active\<lparr> at_state := state,
           at_abort_reason := (case reason of None \<Rightarrow> at_abort_reason active | Some r \<Rightarrow> Some r) \<rparr>),
        fd_callbacks := fd_callbacks c @ [(at_transfer_id active, state, reason)] \<rparr>"

section \<open>Starting\<close>

text \<open>What \<^verbatim>\<open>start\<close> reads: whether the file is there, its stamps before and after, its chunks.\<close>

record start_view =
  sv_is_file :: bool
  sv_before :: "bundle_stamp res"
  sv_chunks :: "bytes list res"
  sv_after :: "bundle_stamp res"

definition fd_start ::
  "(bytes \<Rightarrow> string) \<Rightarrow> int \<Rightarrow> product_ref \<Rightarrow> string \<Rightarrow> start_view \<Rightarrow> coordinator
   \<Rightarrow> coordinator \<times> active_transfer res" where
  "fd_start sha256 transfer_id product path view c =
     (case checked_u32 transfer_id of
        Inl e \<Rightarrow> (c, Inl e)
      | Inr _ \<Rightarrow>
      if (case fd_active c of None \<Rightarrow> False | Some a \<Rightarrow> at_state a \<notin> set TERMINAL_TRANSFER_STATES)
      then (c, Inl (RuntimeError ''TRANSFER_BUSY''))
      else if transfer_id \<in> fd_closed_attempts c then (c, Inl (RuntimeError ''TRANSFER_RETIRED''))
      else if \<not> sv_is_file view then (c, Inl (OSError ''bundle does not exist''))
      else case sv_before view of
        Inl e \<Rightarrow> (c, Inl e)
      | Inr before \<Rightarrow>
      if bs_size before > 0xFFFFFFFF
      then (c, Inl (ValueError ''bundle exceeds FilePacket U32 offset range''))
      else case sv_chunks view of
        Inl e \<Rightarrow> (c, Inl e)
      | Inr chunks \<Rightarrow>
      let (bundle_size, bundle_sha256, bundle_checksum) = stream_bundle_integrity sha256 chunks in
      case sv_after view of
        Inl e \<Rightarrow> (c, Inl e)
      | Inr after \<Rightarrow>
      if after \<noteq> before \<or> int bundle_size \<noteq> bs_size before
      then (c, Inl (RuntimeError ''BUNDLE_MUTATED''))
      else
        let active = \<lparr> at_transfer_id = transfer_id, at_product_ref = product, at_bundle_path = path,
              at_bundle_size = int bundle_size, at_bundle_sha256 = bundle_sha256,
              at_bundle_checksum = bundle_checksum, at_bundle_stamp = before,
              at_attempt_epoch = fd_next_attempt_epoch c, at_state = SENDING, at_next_offset = 0,
              at_next_file_sequence = 0, at_packet_sequence = 0, at_current_lease = None,
              at_output_gate_open = True, at_abort_reason = None, at_epoch_closed = False,
              at_cooldown_ticks = 0, at_terminal_after_cooldown = None \<rparr>;
            c = fd_transition active SENDING None
              (c\<lparr> fd_next_attempt_epoch := fd_next_attempt_epoch c + 1 \<rparr>)
        in (c, Inr (the (fd_active c))))"

definition fd_active_for :: "int \<Rightarrow> coordinator \<Rightarrow> active_transfer res" where
  "fd_active_for transfer_id c =
     (case fd_active c of
        None \<Rightarrow> Inl (RuntimeError ''TRANSFER_NOT_ACTIVE'')
      | Some a \<Rightarrow> if at_transfer_id a \<noteq> transfer_id then Inl (RuntimeError ''TRANSFER_NOT_ACTIVE'')
                 else Inr a)"

section \<open>Packets\<close>

definition new_file_packet :: "file_packet_type \<Rightarrow> int \<Rightarrow> int \<Rightarrow> bytes \<Rightarrow> file_packet res" where
  "new_file_packet t sequence_index off payload =
     file_packet_post_init
       \<lparr> fp_type = t, fp_sequence_index = sequence_index, fp_offset = off, fp_payload = payload \<rparr>"

text \<open>\<^verbatim>\<open>f"{value:08x}"\<close> of a checked U32.\<close>

definition hex8 :: "int \<Rightarrow> string" where
  "hex8 v = hex_pad 8 (nat v)"

definition start_metadata :: "active_transfer \<Rightarrow> py_dict \<Rightarrow> py_value" where
  "start_metadata a ref =
     (let p = at_product_ref a;
          source = ''b/'' @ hex8 (pr_origin_boot_id p) @ ''/'' @ hex8 (pr_product_id p) @ ''.tar'';
          destination = ''p/'' @ hex8 (pr_origin_boot_id p) @ ''/'' @ hex8 (pr_product_id p) @ ''/'' @
            hex8 (at_transfer_id a) @ ''/'' @ at_bundle_sha256 a @ ''.tar''
      in PDict
        [(pkey ''source'', PStr (ustr source)), (pkey ''destination'', PStr (ustr destination)),
         (pkey ''file_size'', PInt (at_bundle_size a)),
         (pkey ''checksum'', PInt (int (at_bundle_checksum a))),
         (pkey ''product_ref'', PDict ref), (pkey ''transfer_id'', PInt (at_transfer_id a))])"

definition fd_start_packet :: "active_transfer \<Rightarrow> file_packet res" where
  "fd_start_packet a =
     rbind (pr_as_dict (at_product_ref a)) (\<lambda>ref.
     rbind (canonical_json (start_metadata a ref)) (\<lambda>metadata. new_file_packet START 0 0 metadata))"

text \<open>What sending reads of the bundle: its stamp three times, and its content.\<close>

record bundle_view =
  bv_stamp :: "bundle_stamp res"
  bv_before :: "bundle_stamp res"
  bv_content :: "bytes res"
  bv_after :: "bundle_stamp res"

definition check_stamp :: "bundle_stamp res \<Rightarrow> active_transfer \<Rightarrow> unit res" where
  "check_stamp stamp a =
     rbind stamp (\<lambda>s. if s \<noteq> at_bundle_stamp a then Inl (RuntimeError ''BUNDLE_MUTATED'') else Inr ())"

definition fd_read_data :: "bundle_view \<Rightarrow> active_transfer \<Rightarrow> bytes res" where
  "fd_read_data view a =
     rbind (check_stamp (bv_before view) a) (\<lambda>_.
     rbind (bv_content view) (\<lambda>content.
       let n = min (int MAX_FILE_DATA_PER_FRAME) (at_bundle_size a - at_next_offset a);
           payload = take (nat n) (drop (nat (at_next_offset a)) content)
       in rbind (check_stamp (bv_after view) a) (\<lambda>_.
         if payload = [] then Inl (RuntimeError ''BUNDLE_TRUNCATED'') else Inr payload)))"

definition fd_next_packet ::
  "bundle_view \<Rightarrow> active_transfer \<Rightarrow> coordinator \<Rightarrow> coordinator \<times> file_packet option res" where
  "fd_next_packet view a c =
     (if \<not> at_output_gate_open a \<or> at_state a \<in> set (ABORTING # COOLDOWN # TERMINAL_TRANSFER_STATES)
      then (c, Inr None)
      else case check_stamp (bv_stamp view) a of
        Inl e \<Rightarrow> (c, Inl e)
      | Inr _ \<Rightarrow>
      if at_next_file_sequence a = 0 then (c, rbind (fd_start_packet a) (\<lambda>p. Inr (Some p)))
      else if at_state a = CANCEL_REQUESTED \<and> at_next_offset a < at_bundle_size a
      then (fd_transition a CANCEL_DRAINING None c,
            rbind (new_file_packet CANCEL (at_next_file_sequence a) (at_next_offset a)
              (map (\<lambda>ch. of_char ch) ''MISSION_CANCEL'')) (\<lambda>p. Inr (Some p)))
      else if at_next_offset a < at_bundle_size a
      then (c, rbind (fd_read_data view a) (\<lambda>payload.
            rbind (new_file_packet DATA (at_next_file_sequence a) (at_next_offset a) payload) (\<lambda>p. Inr (Some p))))
      else (c, rbind (new_file_packet END (at_next_file_sequence a) (at_bundle_size a)
            (be_bytes 4 (at_bundle_checksum a))) (\<lambda>p. Inr (Some p))))"

section \<open>Frames\<close>

text \<open>The frame of a packet and its ordering key.\<close>

definition frame_packet ::
  "coordinator \<Rightarrow> active_transfer \<Rightarrow> tm_counters res option \<Rightarrow> file_packet \<Rightarrow> (bytes \<times> int option) res" where
  "frame_packet c a allocation packet =
     rbind (encode_file_packet packet 3) (\<lambda>application.
     rbind (case allocation of None \<Rightarrow> Inr None | Some r \<Rightarrow> rbind r (\<lambda>k. Inr (Some k))) (\<lambda>counters.
     rbind (encode_space_packet (fd_tm_file_apid c) application
       (case counters of None \<Rightarrow> at_packet_sequence a | Some k \<Rightarrow> tk_packet_sequence k) 0 False 3)
       (\<lambda>space_packet.
     rbind (encode_tm_frame_bytes space_packet (fd_spacecraft_id c)
       (case counters of None \<Rightarrow> 0 | Some k \<Rightarrow> tk_virtual_channel_id k)
       (case counters of None \<Rightarrow> 0 | Some k \<Rightarrow> tk_master_channel_count k)
       (case counters of None \<Rightarrow> 0 | Some k \<Rightarrow> tk_virtual_channel_count k)) (\<lambda>frame.
     Inr (frame, map_option (\<lambda>k. tk_master_channel_epoch k * 256 + tk_master_channel_count k) counters)))))"

definition fd_next_frame ::
  "int \<Rightarrow> bundle_view \<Rightarrow> tm_counters res option \<Rightarrow> coordinator \<Rightarrow> coordinator \<times> frame_lease option res" where
  "fd_next_frame transfer_id view allocation c =
     (case fd_active_for transfer_id c of
        Inl e \<Rightarrow> (c, Inl e)
      | Inr a \<Rightarrow>
      if at_current_lease a \<noteq> None then (c, Inl (RuntimeError ''FRAME_IN_FLIGHT''))
      else case fd_next_packet view a c of
        (c, Inl e) \<Rightarrow> (c, Inl e)
      | (c, Inr None) \<Rightarrow> (c, Inr None)
      | (c, Inr (Some packet)) \<Rightarrow>
          let a = the (fd_active c) in
          case frame_packet c a allocation packet of
            Inl e \<Rightarrow> (c, Inl e)
          | Inr (frame, ordering_key) \<Rightarrow>
              let lease = \<lparr> fl_attempt_epoch = at_attempt_epoch a, fl_lease_id = fd_next_lease_id c,
                    fl_transfer_id = at_transfer_id a, fl_packet = packet, fl_frame = frame,
                    fl_ordering_key = ordering_key \<rparr>
              in (c\<lparr> fd_next_lease_id := fd_next_lease_id c + 1,
                     fd_active := Some (a\<lparr> at_current_lease := Some lease \<rparr>) \<rparr>, Inr (Some lease)))"

section \<open>Completion\<close>

text \<open>
  \<^verbatim>\<open>str.upper\<close>. Two characters below 256 have an upper case above it; they stay, and no
  status with one of them is a success either way.
\<close>

definition upper_char :: "char \<Rightarrow> string" where
  "upper_char ch = (let k = of_char ch :: nat in
     if k = 223 then ''SS''
     else if (97 \<le> k \<and> k \<le> 122) \<or> (224 \<le> k \<and> k \<le> 254 \<and> k \<noteq> 247) then [char_of (k - 32)]
     else [ch])"

definition upper :: "string \<Rightarrow> string" where
  "upper s = concat (map upper_char s)"

definition SUCCESS_STATUSES :: "string list" where
  "SUCCESS_STATUSES = [''OK'', ''SUCCESS'', ''FRAME_ACCEPTED'', ''UDP_SENT'', ''LINK_CONSUMED'']"

definition fd_complete_frame :: "frame_lease \<Rightarrow> string \<Rightarrow> coordinator \<Rightarrow> coordinator \<times> bool" where
  "fd_complete_frame lease status c =
     (case fd_active c of
        None \<Rightarrow> (c\<lparr> fd_late_callbacks := fd_late_callbacks c + 1 \<rparr>, False)
      | Some a \<Rightarrow>
      if at_attempt_epoch a \<noteq> fl_attempt_epoch lease \<or> at_transfer_id a \<noteq> fl_transfer_id lease
      then (c\<lparr> fd_late_callbacks := fd_late_callbacks c + 1 \<rparr>, False)
      else case at_current_lease a of
        None \<Rightarrow> (c\<lparr> fd_duplicate_callbacks := fd_duplicate_callbacks c + 1 \<rparr>, False)
      | Some current \<Rightarrow>
      if fl_lease_id current \<noteq> fl_lease_id lease
      then (c\<lparr> fd_late_callbacks := fd_late_callbacks c + 1 \<rparr>, False)
      else
        let a = a\<lparr> at_current_lease := None \<rparr> in
        if at_state a = ABORTING then (c\<lparr> fd_active := Some a \<rparr>, True)
        else if upper status \<notin> set SUCCESS_STATUSES then
          (fd_transition
             (a\<lparr> at_output_gate_open := False, at_terminal_after_cooldown := Some SEND_FAILED \<rparr>)
             ABORTING (Some (''LINK_'' @ status))
             (c\<lparr> fd_terminal_failures := fd_terminal_failures c + 1 \<rparr>), True)
        else
          let packet = fl_packet lease;
              a = a\<lparr> at_packet_sequence := (at_packet_sequence a + 1) mod 16384,
                     at_next_file_sequence := fp_sequence_index packet + 1 \<rparr>;
              c = c\<lparr> fd_frames_completed := fd_frames_completed c + 1 \<rparr>
          in case fp_type packet of
               DATA \<Rightarrow>
                 (c\<lparr> fd_active := Some (a\<lparr> at_next_offset :=
                        fp_offset packet + int (length (fp_payload packet)) \<rparr>) \<rparr>, True)
             | END \<Rightarrow>
                 (fd_transition (a\<lparr> at_output_gate_open := False, at_epoch_closed := True,
                    at_terminal_after_cooldown := Some SEND_COMPLETED \<rparr>) COOLDOWN None c, True)
             | CANCEL \<Rightarrow>
                 (fd_transition (a\<lparr> at_output_gate_open := False, at_epoch_closed := True,
                    at_terminal_after_cooldown := Some CANCELED \<rparr>) COOLDOWN None c, True)
             | START \<Rightarrow> (c\<lparr> fd_active := Some a \<rparr>, True))"

section \<open>Abort, cooldown and cancel\<close>

definition fd_begin_abort :: "int \<Rightarrow> string \<Rightarrow> coordinator \<Rightarrow> coordinator \<times> unit res" where
  "fd_begin_abort transfer_id reason c =
     (case fd_active_for transfer_id c of
        Inl e \<Rightarrow> (c, Inl e)
      | Inr a \<Rightarrow>
      if at_state a \<in> set TERMINAL_TRANSFER_STATES then (c, Inr ())
      else (fd_transition
              (a\<lparr> at_output_gate_open := False, at_terminal_after_cooldown := Some SEND_FAILED \<rparr>)
              ABORTING (Some reason) c, Inr ()))"

definition fd_close_abort_fence :: "int \<Rightarrow> coordinator \<Rightarrow> coordinator \<times> unit res" where
  "fd_close_abort_fence transfer_id c =
     (case fd_active_for transfer_id c of
        Inl e \<Rightarrow> (c, Inl e)
      | Inr a \<Rightarrow>
      if at_state a \<noteq> ABORTING then (c, Inl (RuntimeError ''TRANSFER_NOT_ABORTING''))
      else if at_current_lease a \<noteq> None then (c, Inl (RuntimeError ''BUFFER_STILL_IN_FLIGHT''))
      else (fd_transition (a\<lparr> at_epoch_closed := True \<rparr>) COOLDOWN (at_abort_reason a)
              (c\<lparr> fd_abort_fences_closed := fd_abort_fences_closed c + 1 \<rparr>), Inr ()))"

definition fd_cooldown_tick :: "int \<Rightarrow> coordinator \<Rightarrow> coordinator \<times> transfer_state res" where
  "fd_cooldown_tick transfer_id c =
     (case fd_active_for transfer_id c of
        Inl e \<Rightarrow> (c, Inl e)
      | Inr a \<Rightarrow>
      if at_state a \<noteq> COOLDOWN then (c, Inr (at_state a))
      else if \<not> at_epoch_closed a then (c, Inl (RuntimeError ''FILE_EPOCH_NOT_CLOSED''))
      else
        let a = a\<lparr> at_cooldown_ticks := at_cooldown_ticks a + 1 \<rparr> in
        if at_cooldown_ticks a \<ge> fd_required_cooldown_ticks c then
          let terminal = (case at_terminal_after_cooldown a of None \<Rightarrow> SEND_FAILED | Some t \<Rightarrow> t)
          in ((fd_transition a terminal (at_abort_reason a) c)
                \<lparr> fd_closed_attempts := insert (at_transfer_id a) (fd_closed_attempts c) \<rparr>, Inr terminal)
        else (c\<lparr> fd_active := Some a \<rparr>, Inr (at_state a)))"

definition fd_cancel :: "int \<Rightarrow> coordinator \<Rightarrow> coordinator \<times> string res" where
  "fd_cancel transfer_id c =
     (case fd_active_for transfer_id c of
        Inl e \<Rightarrow> (c, Inl e)
      | Inr a \<Rightarrow>
      if at_state a \<in> set TERMINAL_TRANSFER_STATES then (c, Inr ''ALREADY_TERMINAL'')
      else if at_state a \<in> {ABORTING, COOLDOWN, CANCEL_DRAINING} then (c, Inr ''CANCEL_REQUESTED'')
      else if at_state a = SENDING
      then (fd_transition a CANCEL_REQUESTED None c, Inr ''CANCEL_REQUESTED'')
      else (c, Inr ''CANCEL_REQUESTED''))"

section \<open>Draining the cooldown\<close>

definition cooling :: "coordinator \<Rightarrow> bool" where
  "cooling c \<longleftrightarrow> (case fd_active c of None \<Rightarrow> False | Some a \<Rightarrow> at_state a = COOLDOWN)"

definition ticks_left :: "coordinator \<Rightarrow> nat" where
  "ticks_left c = (case fd_active c of
     None \<Rightarrow> 0 | Some a \<Rightarrow> nat (fd_required_cooldown_ticks c - at_cooldown_ticks a))"

text \<open>
  \<^verbatim>\<open>while active.state == COOLDOWN: self.cooldown_tick(transfer_id)\<close>: \<open>None\<close> is a loop that never
  ends. It ends in every reachable state (\<open>fd_drain_returns\<close>).
\<close>

partial_function (option) fd_drain :: "int \<Rightarrow> coordinator \<Rightarrow> (coordinator \<times> unit res) option" where
  "fd_drain transfer_id c =
     (if \<not> cooling c then Some (c, Inr ())
      else case fd_cooldown_tick transfer_id c of
        (c', Inl e) \<Rightarrow> Some (c', Inl e)
      | (c', Inr _) \<Rightarrow> fd_drain transfer_id c')"

declare fd_drain.simps [code]

section \<open>Through the scheduler\<close>

text \<open>The callback that \<^verbatim>\<open>enqueue_next\<close> gives the scheduler; \<^verbatim>\<open>on_complete\<close> runs after it.\<close>

definition fd_completed ::
  "frame_lease \<Rightarrow> string \<Rightarrow> int \<Rightarrow> coordinator \<Rightarrow> (coordinator \<times> bool res) option" where
  "fd_completed lease status transfer_id c =
     (case fd_complete_frame lease status c of
        (c, completed) \<Rightarrow>
          if (case fd_active c of None \<Rightarrow> False | Some a \<Rightarrow> at_state a = COOLDOWN \<and> at_epoch_closed a)
          then map_option (\<lambda>(c, r). (c, rbind r (\<lambda>_. Inr completed))) (fd_drain transfer_id c)
          else Some (c, Inr completed))"

definition fd_enqueue_next ::
  "int \<Rightarrow> bundle_view \<Rightarrow> tm_counters res option \<Rightarrow> int \<Rightarrow> coordinator \<Rightarrow> frame_lease scheduler
   \<Rightarrow> coordinator \<times> frame_lease scheduler \<times> int option res" where
  "fd_enqueue_next transfer_id view allocation now_ms c s =
     (case fd_next_frame transfer_id view allocation c of
        (c, Inl e) \<Rightarrow> (c, s, Inl e)
      | (c, Inr None) \<Rightarrow> (c, s, Inr None)
      | (c, Inr (Some lease)) \<Rightarrow>
          case sc_enqueue FILE (fl_frame lease) (Some lease) (fl_ordering_key lease) now_ms s of
            (s, Inr item_id) \<Rightarrow> (c, s, Inr (Some item_id))
          | (s, Inl e) \<Rightarrow>
              (case fd_active c of
                 Some a \<Rightarrow>
                   if at_current_lease a = Some lease
                   then c\<lparr> fd_active := Some (a\<lparr> at_current_lease := None \<rparr>) \<rparr> else c
               | None \<Rightarrow> c, s, Inl e))"

section \<open>The fault-free iterators\<close>

text \<open>
  \<^verbatim>\<open>packets\<close> and \<^verbatim>\<open>frames\<close>: they differ in what they yield of each lease. The list has what
  each \<^verbatim>\<open>next_frame\<close> reads; \<open>None\<close> is a list that is too short, or a loop that never ends.
\<close>

fun fd_leases ::
  "int \<Rightarrow> (bundle_view \<times> tm_counters res option) list \<Rightarrow> coordinator
   \<Rightarrow> (coordinator \<times> frame_lease list res) option" where
  "fd_leases transfer_id [] c = None"
| "fd_leases transfer_id ((view, allocation) # readings) c =
     (case fd_next_frame transfer_id view allocation c of
        (c, Inl e) \<Rightarrow> Some (c, Inl e)
      | (c, Inr None) \<Rightarrow>
          (case fd_active_for transfer_id c of
             Inl e \<Rightarrow> Some (c, Inl e)
           | Inr _ \<Rightarrow> map_option (\<lambda>(c, r). (c, rbind r (\<lambda>_. Inr []))) (fd_drain transfer_id c))
      | (c, Inr (Some lease)) \<Rightarrow>
          map_option (\<lambda>(c, r). (c, rbind r (\<lambda>leases. Inr (lease # leases))))
            (fd_leases transfer_id readings (fst (fd_complete_frame lease ''SUCCESS'' c))))"

section \<open>Every packet of a transfer fits a frame\<close>

definition counters_ok :: "tm_counters res option \<Rightarrow> bool" where
  "counters_ok allocation \<longleftrightarrow>
     (case allocation of
        None \<Rightarrow> True
      | Some (Inl _) \<Rightarrow> False
      | Some (Inr k) \<Rightarrow>
          0 \<le> tk_packet_sequence k \<and> tk_packet_sequence k < 16384 \<and>
          0 \<le> tk_virtual_channel_id k \<and> tk_virtual_channel_id k < 8 \<and>
          0 \<le> tk_master_channel_count k \<and> tk_master_channel_count k < 256 \<and>
          0 \<le> tk_virtual_channel_count k \<and> tk_virtual_channel_count k < 256)"

definition channel_ok :: "coordinator \<Rightarrow> bool" where
  "channel_ok c \<longleftrightarrow> 0 \<le> fd_tm_file_apid c \<and> fd_tm_file_apid c < 2048 \<and>
     0 \<le> fd_spacecraft_id c \<and> fd_spacecraft_id c < 1024"

text \<open>The packet that a TM frame carries, as a receiver takes it out.\<close>

definition carried_packet :: "bytes \<Rightarrow> file_packet res" where
  "carried_packet frame =
     rbind (decode_tm_frame frame) (\<lambda>t. decode_file_packet (sp_payload (tm_packet t)) 3)"

lemma frame_packet_carries:
  assumes "channel_ok c" "counters_ok allocation" "0 \<le> at_packet_sequence a" "at_packet_sequence a < 16384"
    and "fp_valid packet" "length (fp_payload packet) \<le> 990"
  obtains frame key where "frame_packet c a allocation packet = Inr (frame, key)"
    "length frame = 1024" "carried_packet frame = Inr packet"
proof -
  obtain counters where k: "(case allocation of None \<Rightarrow> Inr None | Some r \<Rightarrow> rbind r (\<lambda>k. Inr (Some k))) = Inr counters"
    and ok: "\<And>k. counters = Some k \<Longrightarrow> counters_ok (Some (Inr k))"
    using assms(2) by (cases allocation) (auto simp: counters_ok_def split: sum.splits)
  let ?seq = "case counters of None \<Rightarrow> at_packet_sequence a | Some k \<Rightarrow> tk_packet_sequence k"
  obtain app where app: "encode_file_packet packet 3 = Inr app" "length app = 13 + length (fp_payload packet)"
    using encode_file_packet_valid [OF assms(5), of 3] by (auto simp: bytes_simps simp del: be_bytes.simps)
  let ?sp = "\<lparr> sp_apid = fd_tm_file_apid c, sp_sequence_count = ?seq, sp_payload = app, sp_packet_type = 0,
    sp_secondary_header_present = False, sp_sequence_flags = 3 \<rparr>"
  have seq: "0 \<le> ?seq" "?seq < 16384" using assms(3,4) ok by (auto simp: counters_ok_def split: option.splits)
  have sp: "sp_valid ?sp" using assms(1,6) app(2) seq by (auto simp: sp_valid_def channel_ok_def)
  obtain sb where sb: "space_packet_encode ?sp = Inr sb" using space_packet_encode_valid [OF sp] by blast
  let ?t = "\<lparr> tm_spacecraft_id = fd_spacecraft_id c,
    tm_virtual_channel_id = (case counters of None \<Rightarrow> 0 | Some k \<Rightarrow> tk_virtual_channel_id k),
    tm_master_channel_count = (case counters of None \<Rightarrow> 0 | Some k \<Rightarrow> tk_master_channel_count k),
    tm_virtual_channel_count = (case counters of None \<Rightarrow> 0 | Some k \<Rightarrow> tk_virtual_channel_count k),
    tm_packet = ?sp, tm_segment_length_id = 3, tm_ocf = [] \<rparr>"
  have t: "tm_valid ?t"
    using assms(1) ok sp by (auto simp: tm_valid_def channel_ok_def counters_ok_def split: option.splits)
  obtain frame where f: "tm_frame_encode ?t TM_FRAME_SIZE = Inr frame" "length frame = 1024"
      "decode_tm_frame frame = Inr ?t"
    by (rule tm_frame_fits [OF t]) (use assms(6) app(2) in auto)
  have dec: "space_packet_decode sb = Inr ?sp" by (rule sp.roundtrip [OF sp sb])
  have init: "tm_frame_post_init ?t = Inr ?t" "space_packet_post_init ?sp = Inr ?sp"
    using t sp tm_frame_post_init_iff [of ?t ?t] by simp_all
  have "frame_packet c a allocation packet =
      Inr (frame, map_option (\<lambda>k. tk_master_channel_epoch k * 256 + tk_master_channel_count k) counters)"
    by (simp only: frame_packet_def app(1) k encode_space_packet_def encode_tm_frame_bytes_def
      encode_tm_frame_def init dec sb f(1) rbind_simps)
  moreover have "carried_packet frame = Inr packet"
    using f(3) descriptor_fp.roundtrip [OF assms(5) app(1)] by (simp add: carried_packet_def)
  ultimately show thesis using that f(2) by blast
qed

section \<open>The START packet\<close>

definition digest_like :: "string \<Rightarrow> bool" where
  "digest_like s \<longleftrightarrow> length s = 64 \<and> list_all is_hex s"

definition product_valid :: "product_ref \<Rightarrow> bool" where
  "product_valid p \<longleftrightarrow> (\<exists>i b q. new_product_ref i b q = Inr p)"

lemma hex_plain: "list_all is_hex s \<Longrightarrow> list_all plain (ustr s)"
proof -
  have "list_all (\<lambda>ch. plain (of_char ch)) ''0123456789abcdef''" by code_simp
  then have "is_hex ch \<Longrightarrow> plain (of_char ch)" for ch by (auto simp: is_hex_def list_all_iff)
  then show "list_all is_hex s \<Longrightarrow> list_all plain (ustr s)" by (simp add: ustr_def list_all_iff)
qed

lemma hex_pad_hex: "list_all is_hex (hex_pad n v)"
  using hex_pad_plain [of n v] by (simp add: list_all_iff)

lemma ustr_append: "ustr (s @ t) = ustr s @ ustr t"
  by (simp add: ustr_def)

lemma length_ustr [simp]: "length (ustr s) = length s"
  by (simp add: ustr_def)

lemma length_plain_string: "list_all plain (ustr s) \<Longrightarrow> length (json_string json_char_ascii (ustr s)) = length s + 2"
  by (simp add: json_string_plain)

lemma start_metadata_ok:
  assumes "product_valid (at_product_ref a)" "0 \<le> at_transfer_id a" "at_transfer_id a < 4294967296"
    and "0 \<le> at_bundle_size a" "at_bundle_size a < 4294967296" "at_bundle_checksum a < 4294967296"
    and "digest_like (at_bundle_sha256 a)"
  obtains ref metadata where "pr_as_dict (at_product_ref a) = Inr ref"
    "canonical_json (start_metadata a ref) = Inr metadata" "length metadata \<le> 990"
proof -
  obtain i b q where p: "new_product_ref i b q = Inr (at_product_ref a)" using assms(1) by (auto simp: product_valid_def)
  obtain x where x: "u64_to_json i = Inr x" "length x = 16" "list_all is_hex x"
    using p by (auto simp: product_ref_Inr u64_to_json_def rbind_Inr_iff hex_pad_hex)
  define ref where "ref = [(pkey ''spacecraft_instance_id'', PStr (ustr x)), (pkey ''origin_boot_id'', PInt b),
    (pkey ''product_id'', PInt q)]"
  have r: "pr_as_dict (at_product_ref a) = Inr ref"
    using p x(1) by (auto simp: product_ref_Inr pr_as_dict_def u64_to_value_def ref_def)
  let ?m = "start_metadata a ref"
  have v: "cj_validate ?m = Inr ()"
    by (simp add: start_metadata_def Let_def ref_def pkey_def is_str_def)
  have plain: "list_all plain (ustr s)" if "s \<in> set [''source'', ''destination'', ''file_size'', ''checksum'',
      ''product_ref'', ''transfer_id'', ''spacecraft_instance_id'', ''origin_boot_id'', ''product_id'',
      ''b/'', ''p/'', ''/'', ''.tar'']" for s
  proof -
    have "list_all (\<lambda>s. list_all plain (ustr s)) [''source'', ''destination'', ''file_size'', ''checksum'',
      ''product_ref'', ''transfer_id'', ''spacecraft_instance_id'', ''origin_boot_id'', ''product_id'',
      ''b/'', ''p/'', ''/'', ''.tar'']" by code_simp
    then show ?thesis using that unfolding list_all_iff by blast
  qed
  have num: "length (int_text n) \<le> 10" if "0 \<le> n" "n < 4294967296" for n
    using int_text_length [of n 10] that by simp
  have str: "length (json_text (PStr (ustr s))) = length s + 2" if "list_all plain (ustr s)" for s
    using that by (simp add: length_plain_string)
  have key: "length (json_string json_char_ascii (str_of (pkey s))) = length s + 2" if "list_all plain (ustr s)" for s
    using that by (simp add: pkey_def str_of_def length_plain_string)
  have ref_len: "length (json_text (PDict ref)) \<le> 98"
    using json_dict_length [of ref] num [of b] num [of q] p
    by (simp add: ref_def key plain length_plain_string hex_plain x product_ref_Inr del: json_text.simps(6))
  have h8: "list_all plain (ustr (hex8 n))" "length (hex8 n) = 8" for n
    by (simp_all add: hex8_def hex_plain hex_pad_hex)
  have sha: "list_all plain (ustr (at_bundle_sha256 a))" "length (at_bundle_sha256 a) = 64"
    using assms(7) by (simp_all add: digest_like_def hex_plain)
  let ?p = "at_product_ref a"
  define source where "source = ''b/'' @ hex8 (pr_origin_boot_id ?p) @ ''/'' @ hex8 (pr_product_id ?p) @ ''.tar''"
  define destination where "destination = ''p/'' @ hex8 (pr_origin_boot_id ?p) @ ''/'' @ hex8 (pr_product_id ?p) @ ''/'' @
    hex8 (at_transfer_id a) @ ''/'' @ at_bundle_sha256 a @ ''.tar''"
  have "list_all plain (ustr source)"
    unfolding source_def ustr_append list_all_append by (intro conjI plain h8) simp_all
  then have src: "length (json_text (PStr (ustr source))) = 25"
    by (subst str) (simp_all add: source_def h8)
  have "list_all plain (ustr destination)"
    unfolding destination_def ustr_append list_all_append by (intro conjI plain h8 sha) simp_all
  then have dst: "length (json_text (PStr (ustr destination))) = 99"
    by (subst str) (simp_all add: destination_def h8 sha)
  have m: "?m = PDict [(pkey ''source'', PStr (ustr source)), (pkey ''destination'', PStr (ustr destination)),
      (pkey ''file_size'', PInt (at_bundle_size a)), (pkey ''checksum'', PInt (int (at_bundle_checksum a))),
      (pkey ''product_ref'', PDict ref), (pkey ''transfer_id'', PInt (at_transfer_id a))]"
    by (simp only: start_metadata_def Let_def source_def destination_def)
  have ints: "length (json_text (PInt (at_bundle_size a))) \<le> 10" "length (json_text (PInt (at_transfer_id a))) \<le> 10"
    "length (json_text (PInt (int (at_bundle_checksum a)))) \<le> 10"
    using assms(2-6) by (simp_all add: num)
  have "length (json_text ?m) \<le> 990"
    unfolding m by (rule order_trans [OF json_dict_length])
      (use ref_len src dst ints in \<open>simp add: key plain del: json_text.simps\<close>)
  then show thesis using that [OF r canonical_json_ok [OF v]] by simp
qed

section \<open>Delivery\<close>

text \<open>A reading of an unchanged bundle, with usable counters.\<close>

definition steady :: "bundle_stamp \<Rightarrow> bytes \<Rightarrow> bundle_view \<times> tm_counters res option \<Rightarrow> bool" where
  "steady stamp content reading \<longleftrightarrow>
     bv_stamp (fst reading) = Inr stamp \<and> bv_before (fst reading) = Inr stamp \<and>
     bv_content (fst reading) = Inr content \<and> bv_after (fst reading) = Inr stamp \<and> counters_ok (snd reading)"

definition data_count :: "bytes \<Rightarrow> nat" where
  "data_count content = (length content + 989) div 990"

definition data_packet :: "bytes \<Rightarrow> nat \<Rightarrow> file_packet" where
  "data_packet content k =
     \<lparr> fp_type = DATA, fp_sequence_index = int k + 1, fp_offset = 990 * int k,
       fp_payload = take 990 (drop (990 * k) content) \<rparr>"

definition end_packet :: "bytes \<Rightarrow> nat \<Rightarrow> file_packet" where
  "end_packet content checksum =
     \<lparr> fp_type = END, fp_sequence_index = int (data_count content) + 1,
       fp_offset = int (length content), fp_payload = be_bytes 4 checksum \<rparr>"

lemma data_count_less: "k < data_count content \<longleftrightarrow> 990 * k < length content"
  using less_eq_div_iff_mult_less_eq [of 990 "Suc k" "length content + 989"]
  by (auto simp: data_count_def Suc_le_eq)

lemma data_concat: "concat (map (\<lambda>k. take 990 (drop (990 * k) content)) [0..<data_count content]) = content"
proof -
  have "concat (map (\<lambda>k. take 990 (drop (990 * k) content)) [0..<n]) = take (990 * n) content" for n
  proof (induction n)
    case (Suc n)
    have "take (990 * Suc n) content = take (990 * n) content @ take 990 (drop (990 * n) content)"
      using take_add [of "990 * n" 990 content] by (simp add: add.commute)
    with Suc show ?case by simp
  qed simp
  moreover have "length content \<le> 990 * data_count content"
    using data_count_less [of "data_count content" content] by simp
  ultimately show ?thesis by simp
qed

text \<open>One frame: what \<^verbatim>\<open>next_frame\<close> leases.\<close>

lemma fd_next_frame_ok:
  assumes a: "fd_active c = Some a" "at_transfer_id a = tid" "at_current_lease a = None"
    and ok: "channel_ok c" "counters_ok allocation" "0 \<le> at_packet_sequence a" "at_packet_sequence a < 16384"
    and p: "fd_next_packet view a c = (c, Inr (Some packet))" "fp_valid packet" "length (fp_payload packet) \<le> 990"
  obtains l where
    "fd_next_frame tid view allocation c =
       (c\<lparr> fd_next_lease_id := fd_next_lease_id c + 1,
           fd_active := Some (a\<lparr> at_current_lease := Some l \<rparr>) \<rparr>, Inr (Some l))"
    "fl_packet l = packet" "carried_packet (fl_frame l) = Inr packet"
    "fl_attempt_epoch l = at_attempt_epoch a" "fl_transfer_id l = tid"
proof -
  obtain frame key where f: "frame_packet c a allocation packet = Inr (frame, key)"
    "length frame = 1024" "carried_packet frame = Inr packet"
    by (rule frame_packet_carries [OF ok p(2,3)])
  show thesis
    by (rule that [of "\<lparr> fl_attempt_epoch = at_attempt_epoch a, fl_lease_id = fd_next_lease_id c,
        fl_transfer_id = at_transfer_id a, fl_packet = packet, fl_frame = frame, fl_ordering_key = key \<rparr>"])
      (use a p f in \<open>simp_all add: fd_next_frame_def fd_active_for_def Let_def\<close>)
qed

lemma upper_success: "upper ''SUCCESS'' \<in> set SUCCESS_STATUSES"
  by code_simp

lemma fd_complete_ok:
  assumes "fd_active c = Some (a\<lparr> at_current_lease := Some l \<rparr>)"
    and "fl_attempt_epoch l = at_attempt_epoch a" "fl_transfer_id l = at_transfer_id a" "at_state a \<noteq> ABORTING"
  shows "fst (fd_complete_frame l ''SUCCESS'' c) =
    (let b = a\<lparr> at_current_lease := None, at_packet_sequence := (at_packet_sequence a + 1) mod 16384,
           at_next_file_sequence := fp_sequence_index (fl_packet l) + 1 \<rparr>;
         d = c\<lparr> fd_frames_completed := fd_frames_completed c + 1 \<rparr>
     in case fp_type (fl_packet l) of
          START \<Rightarrow> d\<lparr> fd_active := Some b \<rparr>
        | DATA \<Rightarrow> d\<lparr> fd_active := Some (b\<lparr> at_next_offset :=
              fp_offset (fl_packet l) + int (length (fp_payload (fl_packet l))) \<rparr>) \<rparr>
        | END \<Rightarrow> fd_transition (b\<lparr> at_output_gate_open := False, at_epoch_closed := True,
              at_terminal_after_cooldown := Some SEND_COMPLETED \<rparr>) COOLDOWN None d
        | CANCEL \<Rightarrow> fd_transition (b\<lparr> at_output_gate_open := False, at_epoch_closed := True,
              at_terminal_after_cooldown := Some CANCELED \<rparr>) COOLDOWN None d)"
  using assms upper_success
  by (simp add: fd_complete_frame_def Let_def split: file_packet_type.split)

text \<open>A transfer in state \<open>st\<close> whose next packet is the \<open>k\<close>-th DATA packet, or END after the last.\<close>

definition sending_at ::
  "transfer_state \<Rightarrow> int \<Rightarrow> bundle_stamp \<Rightarrow> bytes \<Rightarrow> nat \<Rightarrow> nat \<Rightarrow> coordinator \<Rightarrow> bool" where
  "sending_at st tid stamp content checksum k c \<longleftrightarrow>
     (\<exists>a. fd_active c = Some a \<and> at_transfer_id a = tid \<and> at_current_lease a = None \<and>
        at_output_gate_open a \<and> at_state a = st \<and> at_bundle_stamp a = stamp \<and>
        at_bundle_size a = int (length content) \<and> at_bundle_checksum a = checksum \<and>
        at_next_file_sequence a = int k + 1 \<and> at_next_offset a = int (min (990 * k) (length content)) \<and>
        0 \<le> at_packet_sequence a \<and> at_packet_sequence a < 16384) \<and>
     channel_ok c \<and> 0 < fd_required_cooldown_ticks c"

lemma mod_seq: "0 \<le> x \<Longrightarrow> 0 \<le> (x + 1) mod 16384 \<and> (x + 1) mod 16384 < (16384 :: int)"
  by simp

lemma fd_data_step:
  assumes s: "sending_at st tid stamp content checksum k c" and r: "steady stamp content (view, allocation)"
    and k: "k < data_count content" and L: "length content < 4294967296" and st: "st \<in> {SENDING, CANCEL_DRAINING}"
  obtains c1 l where "fd_next_frame tid view allocation c = (c1, Inr (Some l))"
    "fl_packet l = data_packet content k" "carried_packet (fl_frame l) = Inr (fl_packet l)"
    "sending_at st tid stamp content checksum (Suc k) (fst (fd_complete_frame l ''SUCCESS'' c1))"
proof -
  obtain a where a: "fd_active c = Some a" "at_transfer_id a = tid" "at_current_lease a = None"
    "at_output_gate_open a" "at_state a = st" "at_bundle_stamp a = stamp"
    "at_bundle_size a = int (length content)" "at_bundle_checksum a = checksum"
    "at_next_file_sequence a = int k + 1" "at_next_offset a = int (min (990 * k) (length content))"
    "0 \<le> at_packet_sequence a" "at_packet_sequence a < 16384" and ch: "channel_ok c" "0 < fd_required_cooldown_ticks c"
    using s by (auto simp: sending_at_def)
  have off: "990 * k < length content" using k by (simp add: data_count_less)
  then have o: "at_next_offset a = int (990 * k)" using a(10) by simp
  let ?n = "min 990 (length content - 990 * k)"
  have payload: "take (nat (min 990 (at_bundle_size a - at_next_offset a))) (drop (nat (at_next_offset a)) content)
      = take 990 (drop (990 * k) content)"
  proof -
    have "nat (min 990 (at_bundle_size a - at_next_offset a)) = ?n" using off by (simp add: a(7) o)
    moreover have "nat (at_next_offset a) = 990 * k" by (simp add: o)
    moreover have "take ?n (drop (990 * k) content) = take 990 (drop (990 * k) content)"
      by (simp add: min_def)
    ultimately show ?thesis by simp
  qed
  define D where "D = take 990 (drop (990 * k) content)"
  have "\<not> min 990 (at_bundle_size a - at_next_offset a) \<le> 0" "\<not> length content \<le> nat (at_next_offset a)"
    using off by (simp_all add: a(7) o)
  then have "fd_read_data view a = Inr D"
    using r payload [folded D_def] by (simp add: fd_read_data_def steady_def check_stamp_def a(6) Let_def MAX_FILE_DATA_PER_FRAME_def)
  then have data: "fd_read_data view a = Inr (take 990 (drop (990 * k) content))" by (simp only: D_def)
  have v: "fp_valid (data_packet content k)" "length (fp_payload (data_packet content k)) \<le> 990"
    using off L by (simp_all add: fp_valid_def data_packet_def)
  have "new_file_packet DATA (int k + 1) (int (990 * k)) (take 990 (drop (990 * k) content)) = Inr (data_packet content k)"
    using v(1) by (simp add: new_file_packet_def data_packet_def)
  then have p: "fd_next_packet view a c = (c, Inr (Some (data_packet content k)))"
    using r off a data st by (auto simp: fd_next_packet_def TERMINAL_TRANSFER_STATES_def check_stamp_def steady_def)
  obtain l where l: "fd_next_frame tid view allocation c =
       (c\<lparr> fd_next_lease_id := fd_next_lease_id c + 1,
           fd_active := Some (a\<lparr> at_current_lease := Some l \<rparr>) \<rparr>, Inr (Some l))"
    "fl_packet l = data_packet content k" "carried_packet (fl_frame l) = Inr (data_packet content k)"
    "fl_attempt_epoch l = at_attempt_epoch a" "fl_transfer_id l = tid"
    using fd_next_frame_ok [OF a(1-3) ch(1) _ a(11,12) p v, of allocation] r by (auto simp: steady_def)
  let ?c = "c\<lparr> fd_next_lease_id := fd_next_lease_id c + 1, fd_active := Some (a\<lparr> at_current_lease := Some l \<rparr>) \<rparr>"
  have len: "990 * int k + int (length (take 990 (drop (990 * k) content))) = int (min (990 * Suc k) (length content))"
    using off by (auto simp: min_def)
  have "fst (fd_complete_frame l ''SUCCESS'' ?c) =
    ?c\<lparr> fd_frames_completed := fd_frames_completed c + 1, fd_active := Some (a\<lparr> at_current_lease := None,
      at_packet_sequence := (at_packet_sequence a + 1) mod 16384, at_next_file_sequence := int k + 2,
      at_next_offset := int (min (990 * Suc k) (length content)) \<rparr>) \<rparr>"
    using fd_complete_ok [where c = ?c and a = a and l = l] l(2,4,5) a(2,5) len st by (auto simp: data_packet_def)
  then have "sending_at st tid stamp content checksum (Suc k) (fst (fd_complete_frame l ''SUCCESS'' ?c))"
    using a ch by (simp add: sending_at_def channel_ok_def)
  with l show thesis by (intro that) simp_all
qed

section \<open>The cooldown ends\<close>

lemma fd_active_for_iff [simp]: "fd_active_for tid c = Inr a \<longleftrightarrow> fd_active c = Some a \<and> at_transfer_id a = tid"
  by (auto simp: fd_active_for_def split: option.split)

text \<open>The loop returns from every state of the active transfer; with its epoch closed it ends in the terminal state.\<close>

lemma fd_drain_returns:
  assumes "fd_active c = Some a" "at_transfer_id a = tid" "at_terminal_after_cooldown a \<noteq> Some COOLDOWN"
  shows "\<exists>c' r. fd_drain tid c = Some (c', r) \<and>
    (at_state a = COOLDOWN \<and> at_epoch_closed a \<longrightarrow> r = Inr () \<and> tid \<in> fd_closed_attempts c' \<and>
       (\<exists>b. fd_active c' = Some b \<and> at_transfer_id b = tid \<and>
          at_state b = (case at_terminal_after_cooldown a of None \<Rightarrow> SEND_FAILED | Some t \<Rightarrow> t)))"
  using assms
proof (induction "ticks_left c" arbitrary: c a rule: less_induct)
  case less
  note a = less.prems
  let ?t = "case at_terminal_after_cooldown a of None \<Rightarrow> SEND_FAILED | Some t \<Rightarrow> t"
  have active: "fd_active_for tid c = Inr a" using a by simp
  have t: "?t \<noteq> COOLDOWN" using a(3) by (auto split: option.split)
  show ?case
  proof (cases "at_state a = COOLDOWN \<and> at_epoch_closed a")
    case False
    with a(1) show ?thesis
      by (subst fd_drain.simps) (auto simp: cooling_def fd_cooldown_tick_def active)
  next
    case True
    let ?a = "a\<lparr> at_cooldown_ticks := at_cooldown_ticks a + 1 \<rparr>"
    show ?thesis
    proof (cases "fd_required_cooldown_ticks c \<le> at_cooldown_ticks a + 1")
      case True
      let ?c = "(fd_transition ?a ?t (at_abort_reason ?a) c)\<lparr> fd_closed_attempts := insert tid (fd_closed_attempts c) \<rparr>"
      have tick: "fd_cooldown_tick tid c = (?c, Inr ?t)"
        using True \<open>at_state a = COOLDOWN \<and> at_epoch_closed a\<close> a(2)
        by (simp add: fd_cooldown_tick_def active Let_def)
      have "\<not> cooling ?c" using t by (simp add: cooling_def fd_transition_def)
      then have "fd_drain tid ?c = Some (?c, Inr ())" by (subst fd_drain.simps) simp
      then have "fd_drain tid c = Some (?c, Inr ())"
        using \<open>at_state a = COOLDOWN \<and> at_epoch_closed a\<close> a(1)
        by (subst fd_drain.simps) (simp add: cooling_def tick)
      with a(2) show ?thesis by (auto simp: fd_transition_def)
    next
      case False
      let ?c = "c\<lparr> fd_active := Some ?a \<rparr>"
      have tick: "fd_cooldown_tick tid c = (?c, Inr COOLDOWN)"
        using False True by (simp add: fd_cooldown_tick_def active Let_def)
      have d: "fd_drain tid c = fd_drain tid ?c"
        using True a(1) by (subst fd_drain.simps) (simp add: cooling_def tick)
      have "ticks_left ?c < ticks_left c" using False a(1) by (simp add: ticks_left_def)
      from less.hyps [OF this, of ?a] True a show ?thesis unfolding d by simp
    qed
  qed
qed

section \<open>From START to the end\<close>

lemma fd_start_Inr:
  assumes "fd_start sha256 tid product path view c = (c', Inr a)"
  obtains chunks before where "sv_before view = Inr before" "sv_chunks view = Inr chunks"
    "int (length (concat chunks)) = bs_size before" "bs_size before < 4294967296"
    "0 \<le> tid" "tid < 4294967296" "tid \<notin> fd_closed_attempts c"
    "a = \<lparr> at_transfer_id = tid, at_product_ref = product, at_bundle_path = path,
       at_bundle_size = int (length (concat chunks)), at_bundle_sha256 = sha256 (concat chunks),
       at_bundle_checksum = weighted_sum 0 (concat chunks), at_bundle_stamp = before,
       at_attempt_epoch = fd_next_attempt_epoch c, at_state = SENDING, at_next_offset = 0,
       at_next_file_sequence = 0, at_packet_sequence = 0, at_current_lease = None,
       at_output_gate_open = True, at_abort_reason = None, at_epoch_closed = False,
       at_cooldown_ticks = 0, at_terminal_after_cooldown = None \<rparr>"
    "c' = c\<lparr> fd_next_attempt_epoch := fd_next_attempt_epoch c + 1, fd_active := Some a,
       fd_callbacks := fd_callbacks c @ [(tid, SENDING, None)] \<rparr>"
  using assms
  by (auto simp: fd_start_def fd_transition_def Let_def stream_bundle_weighted checked_u32_def checked_uint_if
    split: if_splits sum.splits prod.splits)

lemma fd_start_step:
  assumes start: "fd_start sha256 tid product path view0 c0 = (c, Inr a0)" and chunks: "sv_chunks view0 = Inr chunks"
    and ok: "channel_ok c0" "0 < fd_required_cooldown_ticks c0" "product_valid product" "digest_like (sha256 (concat chunks))"
    and r: "steady (at_bundle_stamp a0) (concat chunks) (view, allocation)"
  obtains c1 l where "fd_next_frame tid view allocation c = (c1, Inr (Some l))"
    "fd_start_packet a0 = Inr (fl_packet l)" "carried_packet (fl_frame l) = Inr (fl_packet l)"
    "sending_at SENDING tid (at_bundle_stamp a0) (concat chunks) (weighted_sum 0 (concat chunks)) 0
       (fst (fd_complete_frame l ''SUCCESS'' c1))"
proof -
  from start obtain before where L: "int (length (concat chunks)) < 4294967296" and t: "0 \<le> tid" "tid < 4294967296"
    and a0: "a0 = \<lparr> at_transfer_id = tid, at_product_ref = product, at_bundle_path = path,
       at_bundle_size = int (length (concat chunks)), at_bundle_sha256 = sha256 (concat chunks),
       at_bundle_checksum = weighted_sum 0 (concat chunks), at_bundle_stamp = before,
       at_attempt_epoch = fd_next_attempt_epoch c0, at_state = SENDING, at_next_offset = 0,
       at_next_file_sequence = 0, at_packet_sequence = 0, at_current_lease = None,
       at_output_gate_open = True, at_abort_reason = None, at_epoch_closed = False,
       at_cooldown_ticks = 0, at_terminal_after_cooldown = None \<rparr>"
    and c: "c = c0\<lparr> fd_next_attempt_epoch := fd_next_attempt_epoch c0 + 1, fd_active := Some a0,
       fd_callbacks := fd_callbacks c0 @ [(tid, SENDING, None)] \<rparr>"
    by (rule fd_start_Inr) (use chunks in auto)
  have w: "weighted_sum 0 (concat chunks) < 4294967296" by (simp add: weighted_sum_def)
  obtain ref metadata where m: "pr_as_dict (at_product_ref a0) = Inr ref"
    "canonical_json (start_metadata a0 ref) = Inr metadata" "length metadata \<le> 990"
    by (rule start_metadata_ok [of a0]) (use ok t L w in \<open>simp_all add: a0\<close>)
  define p where "p = \<lparr> fp_type = START, fp_sequence_index = 0, fp_offset = 0, fp_payload = metadata \<rparr>"
  have v: "fp_valid p" "length (fp_payload p) \<le> 990" using m(3) by (simp_all add: fp_valid_def p_def)
  then have s: "fd_start_packet a0 = Inr p" using m by (simp add: fd_start_packet_def new_file_packet_def p_def)
  have n: "fd_next_packet view a0 c = (c, Inr (Some p))"
    using r s by (simp add: fd_next_packet_def TERMINAL_TRANSFER_STATES_def steady_def check_stamp_def a0)
  obtain l where l: "fd_next_frame tid view allocation c =
       (c\<lparr> fd_next_lease_id := fd_next_lease_id c + 1,
           fd_active := Some (a0\<lparr> at_current_lease := Some l \<rparr>) \<rparr>, Inr (Some l))"
    "fl_packet l = p" "carried_packet (fl_frame l) = Inr p"
    "fl_attempt_epoch l = at_attempt_epoch a0" "fl_transfer_id l = tid"
    by (rule fd_next_frame_ok [OF _ _ _ _ _ _ _ n v, of tid allocation])
      (use r ok in \<open>auto simp: steady_def c a0 channel_ok_def\<close>)
  let ?c = "c\<lparr> fd_next_lease_id := fd_next_lease_id c + 1, fd_active := Some (a0\<lparr> at_current_lease := Some l \<rparr>) \<rparr>"
  have "fst (fd_complete_frame l ''SUCCESS'' ?c) =
    ?c\<lparr> fd_frames_completed := fd_frames_completed c + 1, fd_active := Some (a0\<lparr> at_current_lease := None,
      at_packet_sequence := 1, at_next_file_sequence := 1 \<rparr>) \<rparr>"
    using fd_complete_ok [where c = ?c and a = a0 and l = l] l(2,4,5) by (simp add: p_def a0)
  then have "sending_at SENDING tid (at_bundle_stamp a0) (concat chunks) (weighted_sum 0 (concat chunks)) 0
      (fst (fd_complete_frame l ''SUCCESS'' ?c))"
    using ok by (simp add: sending_at_def channel_ok_def a0 c)
  with l s show thesis by (intro that) simp_all
qed

lemma fd_end_step:
  assumes s: "sending_at st tid stamp content checksum (data_count content) c"
    and r: "steady stamp content (view, allocation)" and L: "length content < 4294967296"
    and st: "st \<in> {SENDING, CANCEL_DRAINING}"
  obtains c1 l b where "fd_next_frame tid view allocation c = (c1, Inr (Some l))"
    "fl_packet l = end_packet content checksum" "carried_packet (fl_frame l) = Inr (fl_packet l)"
    "fd_active (fst (fd_complete_frame l ''SUCCESS'' c1)) = Some b" "at_transfer_id b = tid"
    "at_state b = COOLDOWN" "at_epoch_closed b" "\<not> at_output_gate_open b" "at_current_lease b = None"
    "at_terminal_after_cooldown b = Some SEND_COMPLETED"
proof -
  obtain a where a: "fd_active c = Some a" "at_transfer_id a = tid" "at_current_lease a = None"
    "at_output_gate_open a" "at_state a = st" "at_bundle_stamp a = stamp"
    "at_bundle_size a = int (length content)" "at_bundle_checksum a = checksum"
    "at_next_file_sequence a = int (data_count content) + 1"
    "at_next_offset a = int (min (990 * data_count content) (length content))"
    "0 \<le> at_packet_sequence a" "at_packet_sequence a < 16384" and ch: "channel_ok c"
    using s by (auto simp: sending_at_def)
  have past: "length content \<le> 990 * data_count content"
    using data_count_less [of "data_count content" content] by simp
  have n: "int (data_count content) < 4294967295" using L by (simp add: data_count_def)
  have v: "fp_valid (end_packet content checksum)" "length (fp_payload (end_packet content checksum)) \<le> 990"
    using L n by (simp_all add: fp_valid_def end_packet_def del: be_bytes.simps)
  have "new_file_packet END (at_next_file_sequence a) (at_bundle_size a) (be_bytes 4 (at_bundle_checksum a))
      = Inr (end_packet content checksum)"
    using v(1) by (simp add: new_file_packet_def a end_packet_def del: be_bytes.simps)
  then have p: "fd_next_packet view a c = (c, Inr (Some (end_packet content checksum)))"
    using r past st
    by (auto simp: fd_next_packet_def TERMINAL_TRANSFER_STATES_def check_stamp_def steady_def a simp del: be_bytes.simps)
  obtain l where l: "fd_next_frame tid view allocation c =
       (c\<lparr> fd_next_lease_id := fd_next_lease_id c + 1,
           fd_active := Some (a\<lparr> at_current_lease := Some l \<rparr>) \<rparr>, Inr (Some l))"
    "fl_packet l = end_packet content checksum" "carried_packet (fl_frame l) = Inr (end_packet content checksum)"
    "fl_attempt_epoch l = at_attempt_epoch a" "fl_transfer_id l = tid"
    using fd_next_frame_ok [OF a(1-3) ch(1) _ a(11,12) p v, of allocation] r by (auto simp: steady_def)
  let ?c = "c\<lparr> fd_next_lease_id := fd_next_lease_id c + 1, fd_active := Some (a\<lparr> at_current_lease := Some l \<rparr>) \<rparr>"
  obtain b where b: "fd_active (fst (fd_complete_frame l ''SUCCESS'' ?c)) = Some b" "at_transfer_id b = tid"
    "at_state b = COOLDOWN" "at_epoch_closed b" "\<not> at_output_gate_open b" "at_current_lease b = None"
    "at_terminal_after_cooldown b = Some SEND_COMPLETED"
    using fd_complete_ok [where c = ?c and a = a and l = l] l(2,4,5) a(2,5) st
    by (auto simp: end_packet_def fd_transition_def)
  from l(1-3) b show thesis by (intro that) simp_all
qed

text \<open>No frame is left once the gate is closed; the iterator then drains the cooldown.\<close>

lemma fd_leases_drain:
  assumes b: "fd_active c = Some b" "at_transfer_id b = tid" "at_state b = COOLDOWN" "at_epoch_closed b"
    "\<not> at_output_gate_open b" "at_current_lease b = None" "at_terminal_after_cooldown b = Some SEND_COMPLETED"
    and r: "readings \<noteq> []"
  shows "\<exists>c'. fd_leases tid readings c = Some (c', Inr []) \<and> tid \<in> fd_closed_attempts c' \<and>
    (\<exists>a. fd_active c' = Some a \<and> at_transfer_id a = tid \<and> at_state a = SEND_COMPLETED)"
proof -
  have active: "fd_active_for tid c = Inr b" using b by simp
  obtain view allocation rest where [simp]: "readings = (view, allocation) # rest" using r by (cases readings) auto
  have "fd_next_frame tid view allocation c = (c, Inr None)"
    using b(5,6) by (simp add: fd_next_frame_def active fd_next_packet_def)
  moreover obtain c' where "fd_drain tid c = Some (c', Inr ())" "tid \<in> fd_closed_attempts c'"
    "\<exists>a. fd_active c' = Some a \<and> at_transfer_id a = tid \<and> at_state a = SEND_COMPLETED"
    using fd_drain_returns [OF b(1,2)] b(3,4,7) by auto
  ultimately show ?thesis by (simp add: active)
qed

lemma fd_leases_Cons:
  "fd_next_frame tid view allocation c = (c1, Inr (Some l)) \<Longrightarrow>
   fd_leases tid readings (fst (fd_complete_frame l ''SUCCESS'' c1)) = Some (c', Inr ls) \<Longrightarrow>
   fd_leases tid ((view, allocation) # readings) c = Some (c', Inr (l # ls))"
  by simp

lemma fd_leases_from:
  assumes "sending_at st tid stamp content checksum k c" "k \<le> data_count content" "length content < 4294967296"
    and "list_all (steady stamp content) readings" "data_count content - k + 2 \<le> length readings"
    and st: "st \<in> {SENDING, CANCEL_DRAINING}"
  shows "\<exists>c' ls. fd_leases tid readings c = Some (c', Inr ls) \<and>
    map fl_packet ls = map (data_packet content) [k..<data_count content] @ [end_packet content checksum] \<and>
    map (carried_packet \<circ> fl_frame) ls = map (Inr \<circ> fl_packet) ls \<and> tid \<in> fd_closed_attempts c' \<and>
    (\<exists>a. fd_active c' = Some a \<and> at_transfer_id a = tid \<and> at_state a = SEND_COMPLETED)"
  using assms(1-5)
proof (induction readings arbitrary: k c)
  case Nil
  then show ?case by simp
next
  case (Cons reading readings)
  obtain view allocation where [simp]: "reading = (view, allocation)" by (cases reading)
  have r: "steady stamp content (view, allocation)" "list_all (steady stamp content) readings"
    using Cons.prems(4) by simp_all
  show ?case
  proof (cases "k < data_count content")
    case True
    obtain c1 l where l: "fd_next_frame tid view allocation c = (c1, Inr (Some l))"
      "fl_packet l = data_packet content k" "carried_packet (fl_frame l) = Inr (fl_packet l)"
      "sending_at st tid stamp content checksum (Suc k) (fst (fd_complete_frame l ''SUCCESS'' c1))"
      by (rule fd_data_step [OF Cons.prems(1) r(1) True Cons.prems(3) st])
    have len: "data_count content - Suc k + 2 \<le> length readings"
      using Cons.prems(5) True by simp
    obtain c' ls where ls: "fd_leases tid readings (fst (fd_complete_frame l ''SUCCESS'' c1)) = Some (c', Inr ls)"
      "map fl_packet ls = map (data_packet content) [Suc k..<data_count content] @ [end_packet content checksum]"
      "map (carried_packet \<circ> fl_frame) ls = map (Inr \<circ> fl_packet) ls" "tid \<in> fd_closed_attempts c'"
      "\<exists>a. fd_active c' = Some a \<and> at_transfer_id a = tid \<and> at_state a = SEND_COMPLETED"
      using Cons.IH [OF l(4) _ Cons.prems(3) r(2) len] True by auto
    show ?thesis
      using fd_leases_Cons [OF l(1) ls(1)] ls(2-) l(2,3) True
      by (intro exI [of _ c'] exI [of _ "l # ls"]) (simp add: upt_conv_Cons)
  next
    case False
    then have k: "k = data_count content" using Cons.prems(2) by simp
    obtain c1 l b where l: "fd_next_frame tid view allocation c = (c1, Inr (Some l))"
      "fl_packet l = end_packet content checksum" "carried_packet (fl_frame l) = Inr (fl_packet l)"
      and b: "fd_active (fst (fd_complete_frame l ''SUCCESS'' c1)) = Some b" "at_transfer_id b = tid"
      "at_state b = COOLDOWN" "at_epoch_closed b" "\<not> at_output_gate_open b" "at_current_lease b = None"
      "at_terminal_after_cooldown b = Some SEND_COMPLETED"
      by (rule fd_end_step [OF Cons.prems(1) [unfolded k] r(1) Cons.prems(3) st])
    have "readings \<noteq> []" using Cons.prems(5) k by auto
    from fd_leases_drain [OF b this] obtain c' where c':
      "fd_leases tid readings (fst (fd_complete_frame l ''SUCCESS'' c1)) = Some (c', Inr [])" "tid \<in> fd_closed_attempts c'"
      "\<exists>a. fd_active c' = Some a \<and> at_transfer_id a = tid \<and> at_state a = SEND_COMPLETED" by blast
    show ?thesis
      using fd_leases_Cons [OF l(1) c'(1)] c'(2-) l(2,3) k
      by (intro exI [of _ c'] exI [of _ "[l]"]) simp
  qed
qed

section \<open>Properties\<close>

text \<open>
  C1: A transfer that is not disturbed delivers the file. When \<^verbatim>\<open>start\<close> accepted a bundle, the
  bundle stays as it was, and the counters are usable, then \<^verbatim>\<open>frames\<close> returns: it yields
  one START frame, the DATA frames in order and the END frame, every frame one TM frame that a
  receiver decodes to exactly the packet sent; the DATA payloads put together are the file,
  each at its offset, and END carries the checksum \<^verbatim>\<open>cfdp_checksum\<close> gives for it; the attempt
  ends SEND_COMPLETED and its id is retired.
\<close>

theorem downlink_delivers:
  assumes "fd_start sha256 tid product path view c0 = (c, Inr a)" and "sv_chunks view = Inr chunks"
    and "content = concat chunks" and "channel_ok c0" and "0 < fd_required_cooldown_ticks c0"
    and "product_valid product" and "digest_like (sha256 content)"
    and "list_all (steady (at_bundle_stamp a) content) readings" and "data_count content + 3 \<le> length readings"
  shows "\<exists>c' start leases checksum. fd_leases tid readings c = Some (c', Inr leases) \<and>
    map fl_packet leases = start # map (data_packet content) [0..<data_count content] @ [end_packet content checksum] \<and>
    fd_start_packet a = Inr start \<and> cfdp_checksum content 0 None = Inr (int checksum) \<and>
    concat (map (fp_payload \<circ> data_packet content) [0..<data_count content]) = content \<and>
    map (carried_packet \<circ> fl_frame) leases = map (Inr \<circ> fl_packet) leases \<and>
    map_option at_state (fd_active c') = Some SEND_COMPLETED \<and> tid \<in> fd_closed_attempts c'"
proof -
  have L: "length content < 4294967296"
    by (rule fd_start_Inr [OF assms(1)]) (use assms(2,3) in auto)
  obtain view1 allocation rest where r: "readings = (view1, allocation) # rest" using assms(9) by (cases readings) auto
  have s: "steady (at_bundle_stamp a) (concat chunks) (view1, allocation)" using assms(3,8) r by simp
  obtain c1 l where l: "fd_next_frame tid view1 allocation c = (c1, Inr (Some l))"
    "fd_start_packet a = Inr (fl_packet l)" "carried_packet (fl_frame l) = Inr (fl_packet l)"
    "sending_at SENDING tid (at_bundle_stamp a) content (weighted_sum 0 content) 0 (fst (fd_complete_frame l ''SUCCESS'' c1))"
    using fd_start_step [OF assms(1,2,4-6) _ s] assms(3,7) by blast
  obtain c' ls where ls: "fd_leases tid rest (fst (fd_complete_frame l ''SUCCESS'' c1)) = Some (c', Inr ls)"
    "map fl_packet ls = map (data_packet content) [0..<data_count content] @ [end_packet content (weighted_sum 0 content)]"
    "map (carried_packet \<circ> fl_frame) ls = map (Inr \<circ> fl_packet) ls" "tid \<in> fd_closed_attempts c'"
    "\<exists>a. fd_active c' = Some a \<and> at_transfer_id a = tid \<and> at_state a = SEND_COMPLETED"
    using fd_leases_from [OF l(4) _ L, of rest] assms(8,9) r by auto
  have "fd_leases tid readings c = Some (c', Inr (l # ls))"
    unfolding r by (rule fd_leases_Cons [OF l(1) ls(1)])
  moreover have "cfdp_checksum content 0 None = Inr (int (weighted_sum 0 content))"
    by (simp add: cfdp_checksum_weighted)
  moreover have "concat (map (fp_payload \<circ> data_packet content) [0..<data_count content]) = content"
    using data_concat [of content] by (simp add: data_packet_def comp_def)
  ultimately show ?thesis
    using ls(2-) l(2,3) by (intro exI [of _ c'] exI [of _ "fl_packet l"] exI [of _ "l # ls"] exI [of _ "weighted_sum 0 content"]) auto
qed

definition demo_digest :: "bytes \<Rightarrow> string" where
  "demo_digest _ = replicate 64 (CHR ''0'')"

definition demo_product :: product_ref where
  "demo_product = \<lparr> pr_spacecraft_instance_id = 5, pr_origin_boot_id = 2, pr_product_id = 3 \<rparr>"

definition demo_stamp :: bundle_stamp where
  "demo_stamp = \<lparr> bs_device = 1, bs_inode = 2, bs_size = 4, bs_mtime_ns = 0 \<rparr>"

definition demo_view :: start_view where
  "demo_view = \<lparr> sv_is_file = True, sv_before = Inr demo_stamp, sv_chunks = Inr [[1, 2, 3], [4]],
     sv_after = Inr demo_stamp \<rparr>"

definition demo_coordinator :: coordinator where
  "demo_coordinator = projr (fd_init 3 68 2)"

lemma demo_start:
  obtains c a where "fd_start demo_digest 9 demo_product ''b.tar'' demo_view demo_coordinator = (c, Inr a)"
    "at_bundle_stamp a = demo_stamp"
proof -
  have "\<exists>c a. fd_start demo_digest 9 demo_product ''b.tar'' demo_view demo_coordinator = (c, Inr a)"
    by (auto simp: fd_start_def demo_view_def demo_stamp_def demo_coordinator_def fd_init_def
      fd_transition_def stream_bundle_weighted checked_u32_def checked_uint_if Let_def)
  then obtain c a where s: "fd_start demo_digest 9 demo_product ''b.tar'' demo_view demo_coordinator = (c, Inr a)"
    by blast
  moreover have "at_bundle_stamp a = demo_stamp"
    by (rule fd_start_Inr [OF s]) (simp add: demo_view_def)
  ultimately show thesis by (rule that)
qed

lemma demo_ok:
  "channel_ok demo_coordinator" "0 < fd_required_cooldown_ticks demo_coordinator" "product_valid demo_product"
  "digest_like (demo_digest content)" "sv_chunks demo_view = Inr [[1, 2, 3], [4]]"
proof -
  show "channel_ok demo_coordinator" "0 < fd_required_cooldown_ticks demo_coordinator"
    "sv_chunks demo_view = Inr [[1, 2, 3], [4]]"
    by (simp_all add: channel_ok_def demo_coordinator_def fd_init_def demo_view_def)
  have "new_product_ref 5 2 3 = Inr demo_product"
    by (simp add: new_product_ref_def demo_product_def checked_u64_def checked_u32_def checked_uint_if)
  then show "product_valid demo_product" unfolding product_valid_def by blast
  show "digest_like (demo_digest content)"
    by (simp add: digest_like_def demo_digest_def is_hex_def list_all_length)
qed

definition demo_reading :: "bundle_view \<times> tm_counters res option" where
  "demo_reading = (\<lparr> bv_stamp = Inr demo_stamp, bv_before = Inr demo_stamp, bv_content = Inr [1, 2, 3, 4],
     bv_after = Inr demo_stamp \<rparr>, None)"

lemma demo_steady: "steady demo_stamp [1, 2, 3, 4] demo_reading"
  by (simp add: steady_def demo_reading_def counters_ok_def)

lemma downlink_delivers_witness:
  "\<exists>c a c' start leases checksum.
    fd_start demo_digest 9 demo_product ''b.tar'' demo_view demo_coordinator = (c, Inr a) \<and>
    fd_leases 9 (replicate 4 demo_reading) c = Some (c', Inr leases) \<and>
    map fl_packet leases = [start, data_packet [1, 2, 3, 4] 0, end_packet [1, 2, 3, 4] checksum] \<and>
    map_option at_state (fd_active c') = Some SEND_COMPLETED"
proof -
  obtain c a where s: "fd_start demo_digest 9 demo_product ''b.tar'' demo_view demo_coordinator = (c, Inr a)"
    "at_bundle_stamp a = demo_stamp" by (rule demo_start)
  have "data_count [1, 2, 3, 4] = 1" by (simp add: data_count_def)
  with downlink_delivers [OF s(1) demo_ok(5) refl demo_ok(1-4), of "replicate 4 demo_reading"]
  show ?thesis using s demo_steady by (auto simp: list_all_length)
qed



end
