(* ===== verification/FileEpoch.thy ===== *)
theory FileEpoch
  imports PyText
begin

text \<open>
  \<^verbatim>\<open>link_sim/file_epoch.py\<close>: the fence around file transfer attempts. The current attempt
  and its entry in the history are one object in the code, mutated in place; here the history
  is the store and the current attempt is a reference into it, its id.
\<close>

section \<open>Data\<close>

datatype epoch_state = EP_IDLE | EP_STARTED | EP_DRAINING | EP_ABORTING | EP_CLOSED

fun epoch_value :: "epoch_state \<Rightarrow> string" where
  "epoch_value EP_IDLE = ''IDLE''"
| "epoch_value EP_STARTED = ''STARTED''"
| "epoch_value EP_DRAINING = ''DRAINING''"
| "epoch_value EP_ABORTING = ''ABORTING''"
| "epoch_value EP_CLOSED = ''CLOSED''"

record file_transfer_attempt =
  fa_attempt_id :: int
  fa_epoch_id :: int
  fa_session_id :: int
  fa_spacecraft_instance_id :: int
  fa_sender_boot_id :: int
  fa_file_path :: ustr
  fa_state :: epoch_state
  fa_start_link_frame_id :: int
  fa_data_packets_sent :: nat
  fa_end_link_frame_id :: "int option"
  fa_abort_link_frame_id :: "int option"

record data_entry =
  de_link_frame_id :: int
  de_offset :: int
  de_length :: int

record file_epoch_manager =
  fe_next_attempt_id :: int
  fe_current :: "int option"
  fe_attempts :: "(int, file_transfer_attempt) dict"
  fe_active_sender_boot_id :: "int option"
  fe_data_buffer :: "data_entry list"

definition fe_init :: file_epoch_manager where
  "fe_init = \<lparr> fe_next_attempt_id = 1, fe_current = None, fe_attempts = [],
     fe_active_sender_boot_id = None, fe_data_buffer = [] \<rparr>"

section \<open>Operations\<close>

definition fe_get_attempt :: "file_epoch_manager \<Rightarrow> int \<Rightarrow> file_transfer_attempt option" where
  "fe_get_attempt m i = map_of (fe_attempts m) i"

definition fe_get_current_attempt :: "file_epoch_manager \<Rightarrow> file_transfer_attempt option" where
  "fe_get_current_attempt m = (case fe_current m of None \<Rightarrow> None | Some i \<Rightarrow> fe_get_attempt m i)"

text \<open>Writing a field of an attempt object.\<close>

definition fe_put :: "file_transfer_attempt \<Rightarrow> file_epoch_manager \<Rightarrow> file_epoch_manager" where
  "fe_put a m = m\<lparr> fe_attempts := dput (fa_attempt_id a) a (fe_attempts m) \<rparr>"

text \<open>The current attempt is closed and forgotten, the reorder buffer is emptied.\<close>

definition fe_release :: "file_epoch_manager \<Rightarrow> file_epoch_manager" where
  "fe_release m =
     (let m = (case fe_get_current_attempt m of
                 None \<Rightarrow> m | Some a \<Rightarrow> fe_put (a\<lparr> fa_state := EP_CLOSED \<rparr>) m)
      in m\<lparr> fe_current := None, fe_data_buffer := [] \<rparr>)"

definition fe_open_session :: "int \<Rightarrow> file_epoch_manager \<Rightarrow> file_epoch_manager" where
  "fe_open_session boot m =
     (if fe_active_sender_boot_id m = Some boot then m
      else (fe_release m)\<lparr> fe_active_sender_boot_id := Some boot \<rparr>)"

definition fe_close_session :: "int \<Rightarrow> file_epoch_manager \<Rightarrow> file_epoch_manager" where
  "fe_close_session boot m =
     (if fe_active_sender_boot_id m \<noteq> Some boot then m
      else (fe_release m)\<lparr> fe_active_sender_boot_id := None \<rparr>)"

definition fe_busy :: "file_epoch_manager \<Rightarrow> bool" where
  "fe_busy m =
     (case fe_get_current_attempt m of
        None \<Rightarrow> False
      | Some a \<Rightarrow> fa_state a \<in> {EP_STARTED, EP_DRAINING, EP_ABORTING})"

definition fe_can_start_transfer :: "file_epoch_manager \<Rightarrow> int \<Rightarrow> bool \<times> string option" where
  "fe_can_start_transfer m boot =
     (if fe_active_sender_boot_id m = None then (False, Some ''NO_ACTIVE_SESSION'')
      else if Some boot \<noteq> fe_active_sender_boot_id m then (False, Some ''STALE_SENDER_BOOT'')
      else if fe_busy m then (False, Some ''TRANSFER_BUSY'')
      else (True, None))"

definition fe_admit_start ::
  "int \<Rightarrow> int \<Rightarrow> int \<Rightarrow> int \<Rightarrow> ustr \<Rightarrow> file_epoch_manager \<Rightarrow> file_epoch_manager \<times> int option" where
  "fe_admit_start session_id inst boot link_frame_id path m =
     (if fe_active_sender_boot_id m = None then (m, None)
      else if Some boot \<noteq> fe_active_sender_boot_id m then (m, None)
      else if fe_busy m then (m, None)
      else
        let attempt_id = fe_next_attempt_id m;
            attempt = \<lparr> fa_attempt_id = attempt_id, fa_epoch_id = attempt_id,
              fa_session_id = session_id, fa_spacecraft_instance_id = inst,
              fa_sender_boot_id = boot, fa_file_path = path, fa_state = EP_STARTED,
              fa_start_link_frame_id = link_frame_id, fa_data_packets_sent = 0,
              fa_end_link_frame_id = None, fa_abort_link_frame_id = None \<rparr>
        in ((fe_put attempt m)\<lparr> fe_next_attempt_id := attempt_id + 1, fe_current := Some attempt_id \<rparr>,
            Some attempt_id))"

text \<open>The guard \<^verbatim>\<open>admit_data\<close> and \<^verbatim>\<open>admit_end\<close> share: the started attempt, or the reason.\<close>

definition fe_guard :: "int \<Rightarrow> file_epoch_manager \<Rightarrow> string + file_transfer_attempt" where
  "fe_guard boot m =
     (if Some boot \<noteq> fe_active_sender_boot_id m then Inl ''STALE_SENDER_BOOT''
      else case fe_get_current_attempt m of
        None \<Rightarrow> Inl ''NO_ACTIVE_TRANSFER''
      | Some a \<Rightarrow>
          if fa_state a \<noteq> EP_STARTED then Inl (''INVALID_STATE_'' @ epoch_value (fa_state a))
          else Inr a)"

definition fe_admit_data ::
  "int \<Rightarrow> int \<Rightarrow> int \<Rightarrow> int \<Rightarrow> file_epoch_manager \<Rightarrow> file_epoch_manager \<times> (string + int)" where
  "fe_admit_data boot link_frame_id data_offset data_length m =
     (case fe_guard boot m of
        Inl reason \<Rightarrow> (m, Inl reason)
      | Inr a \<Rightarrow>
          let m = fe_put (a\<lparr> fa_data_packets_sent := fa_data_packets_sent a + 1 \<rparr>) m
          in (m\<lparr> fe_data_buffer := fe_data_buffer m @
                   [\<lparr> de_link_frame_id = link_frame_id, de_offset = data_offset,
                      de_length = data_length \<rparr>] \<rparr>,
              Inr (fa_attempt_id a)))"

definition fe_admit_end :: "int \<Rightarrow> int \<Rightarrow> file_epoch_manager \<Rightarrow> file_epoch_manager \<times> (string + int)" where
  "fe_admit_end boot link_frame_id m =
     (case fe_guard boot m of
        Inl reason \<Rightarrow> (m, Inl reason)
      | Inr a \<Rightarrow>
          (fe_put (a\<lparr> fa_end_link_frame_id := Some link_frame_id, fa_state := EP_DRAINING \<rparr>) m,
           Inr (fa_attempt_id a)))"

definition fe_is_current :: "int \<Rightarrow> file_epoch_manager \<Rightarrow> bool" where
  "fe_is_current attempt_id m =
     (case fe_get_current_attempt m of None \<Rightarrow> False | Some a \<Rightarrow> fa_attempt_id a = attempt_id)"

definition fe_complete_attempt :: "int \<Rightarrow> file_epoch_manager \<Rightarrow> file_epoch_manager \<times> bool" where
  "fe_complete_attempt attempt_id m =
     (if \<not> fe_is_current attempt_id m then (m, False) else (fe_release m, True))"

definition fe_abort_attempt :: "int \<Rightarrow> int \<Rightarrow> file_epoch_manager \<Rightarrow> file_epoch_manager \<times> bool" where
  "fe_abort_attempt attempt_id link_frame_id m =
     (case fe_get_current_attempt m of
        None \<Rightarrow> (m, False)
      | Some a \<Rightarrow>
          if fa_attempt_id a \<noteq> attempt_id then (m, False)
          else (fe_put (a\<lparr> fa_state := EP_ABORTING,
                  fa_abort_link_frame_id := Some link_frame_id \<rparr>) m, True))"

record file_epoch_stats =
  fs_active_sender_boot_id :: "int option"
  fs_current_attempt_id :: "int option"
  fs_current_state :: string
  fs_data_packets_sent :: nat
  fs_data_buffer_depth :: nat
  fs_total_attempts :: nat

text \<open>A boot id of zero is falsy in Python, so it is reported as no boot.\<close>

definition fe_get_stats :: "file_epoch_manager \<Rightarrow> file_epoch_stats" where
  "fe_get_stats m =
     (let current = fe_get_current_attempt m in
      \<lparr> fs_active_sender_boot_id =
          (if fe_active_sender_boot_id m = Some 0 then None else fe_active_sender_boot_id m),
        fs_current_attempt_id = map_option fa_attempt_id current,
        fs_current_state = (case current of None \<Rightarrow> ''IDLE'' | Some a \<Rightarrow> epoch_value (fa_state a)),
        fs_data_packets_sent = (case current of None \<Rightarrow> 0 | Some a \<Rightarrow> fa_data_packets_sent a),
        fs_data_buffer_depth = length (fe_data_buffer m),
        fs_total_attempts = length (fe_attempts m) \<rparr>)"

datatype epoch_op =
    OpenSession int
  | CloseSession int
  | AdmitStart int int int int ustr
  | AdmitData int int int int
  | AdmitEnd int int
  | CompleteAttempt int
  | AbortAttempt int int

fun fe_step :: "file_epoch_manager \<Rightarrow> epoch_op \<Rightarrow> file_epoch_manager" where
  "fe_step m (OpenSession b) = fe_open_session b m"
| "fe_step m (CloseSession b) = fe_close_session b m"
| "fe_step m (AdmitStart s i b l p) = fst (fe_admit_start s i b l p m)"
| "fe_step m (AdmitData b l off n) = fst (fe_admit_data b l off n m)"
| "fe_step m (AdmitEnd b l) = fst (fe_admit_end b l m)"
| "fe_step m (CompleteAttempt i) = fst (fe_complete_attempt i m)"
| "fe_step m (AbortAttempt i l) = fst (fe_abort_attempt i l m)"

section \<open>The invariant\<close>

text \<open>
  Every attempt is kept under its id, below the next id; the current attempt is open and was
  started by the active boot; every other attempt is closed; the reorder buffer holds one
  entry per DATA packet counted by the current attempt, none when there is none.
\<close>

definition fe_inv :: "file_epoch_manager \<Rightarrow> bool" where
  "fe_inv m \<longleftrightarrow>
     (\<forall>i a. fe_get_attempt m i = Some a \<longrightarrow> fa_attempt_id a = i \<and> i < fe_next_attempt_id m) \<and>
     (\<forall>i a. fe_get_attempt m i = Some a \<longrightarrow> fe_current m \<noteq> Some i \<longrightarrow> fa_state a = EP_CLOSED) \<and>
     (case fe_current m of
        None \<Rightarrow> fe_data_buffer m = []
      | Some i \<Rightarrow> (case fe_get_attempt m i of None \<Rightarrow> False | Some a \<Rightarrow>
          fa_state a \<in> {EP_STARTED, EP_DRAINING, EP_ABORTING} \<and>
          fe_active_sender_boot_id m = Some (fa_sender_boot_id a) \<and>
          length (fe_data_buffer m) = fa_data_packets_sent a))"

lemma fe_put_simps [simp]:
  "fe_get_attempt (fe_put a m) i = (if i = fa_attempt_id a then Some a else fe_get_attempt m i)"
  "fe_next_attempt_id (fe_put a m) = fe_next_attempt_id m"
  "fe_current (fe_put a m) = fe_current m"
  "fe_active_sender_boot_id (fe_put a m) = fe_active_sender_boot_id m"
  "fe_data_buffer (fe_put a m) = fe_data_buffer m"
  by (simp_all add: fe_put_def fe_get_attempt_def)

lemma fe_get_attempt_frame [simp]:
  "fe_get_attempt (m\<lparr> fe_next_attempt_id := n \<rparr>) i = fe_get_attempt m i"
  "fe_get_attempt (m\<lparr> fe_current := c \<rparr>) i = fe_get_attempt m i"
  "fe_get_attempt (m\<lparr> fe_active_sender_boot_id := b \<rparr>) i = fe_get_attempt m i"
  "fe_get_attempt (m\<lparr> fe_data_buffer := d \<rparr>) i = fe_get_attempt m i"
  by (simp_all add: fe_get_attempt_def)

lemma fe_init_inv: "fe_inv fe_init"
  by (simp add: fe_inv_def fe_init_def fe_get_attempt_def)

lemma fe_current_iff: "fe_get_current_attempt m = Some a \<longleftrightarrow>
    (\<exists>i. fe_current m = Some i \<and> fe_get_attempt m i = Some a)"
  by (simp add: fe_get_current_attempt_def split: option.split)

lemma fe_invI:
  assumes "\<And>i a. fe_get_attempt m i = Some a \<Longrightarrow> fa_attempt_id a = i \<and> i < fe_next_attempt_id m"
    and "\<And>i a. fe_get_attempt m i = Some a \<Longrightarrow> fe_current m \<noteq> Some i \<Longrightarrow> fa_state a = EP_CLOSED"
    and "fe_current m = None \<Longrightarrow> fe_data_buffer m = []"
    and "\<And>i. fe_current m = Some i \<Longrightarrow> \<exists>a. fe_get_attempt m i = Some a \<and>
      fa_state a \<in> {EP_STARTED, EP_DRAINING, EP_ABORTING} \<and>
      fe_active_sender_boot_id m = Some (fa_sender_boot_id a) \<and>
      length (fe_data_buffer m) = fa_data_packets_sent a"
  shows "fe_inv m"
  using assms unfolding fe_inv_def by (auto split: option.splits)

lemma fe_invD:
  assumes "fe_inv m"
  shows "fe_get_attempt m i = Some a \<Longrightarrow> fa_attempt_id a = i"
    and "fe_get_attempt m i = Some a \<Longrightarrow> i < fe_next_attempt_id m"
    and "fe_get_attempt m i = Some a \<Longrightarrow> fe_current m \<noteq> Some i \<Longrightarrow> fa_state a = EP_CLOSED"
    and "fe_current m = None \<Longrightarrow> fe_data_buffer m = []"
    and "fe_current m = Some i \<Longrightarrow> \<exists>a. fe_get_attempt m i = Some a \<and>
      fa_state a \<in> {EP_STARTED, EP_DRAINING, EP_ABORTING} \<and>
      fe_active_sender_boot_id m = Some (fa_sender_boot_id a) \<and>
      length (fe_data_buffer m) = fa_data_packets_sent a"
  using assms unfolding fe_inv_def by (blast, blast, blast, simp, auto split: option.splits)

lemma fe_release_lookup:
  assumes "fe_inv m"
  shows "fe_get_attempt (fe_release m) i =
    (if fe_current m = Some i then map_option (\<lambda>a. a\<lparr> fa_state := EP_CLOSED \<rparr>) (fe_get_attempt m i)
     else fe_get_attempt m i)"
proof (cases "fe_current m")
  case None
  then show ?thesis by (simp add: fe_release_def fe_get_current_attempt_def)
next
  case (Some j)
  from fe_invD(5) [OF assms Some] obtain a where a: "fe_get_attempt m j = Some a" by blast
  with fe_invD(1) [OF assms a] Some show ?thesis
    by (cases "i = j") (simp_all add: fe_release_def fe_get_current_attempt_def)
qed

lemma fe_release_frame [simp]:
  "fe_current (fe_release m) = None"
  "fe_data_buffer (fe_release m) = []"
  "fe_next_attempt_id (fe_release m) = fe_next_attempt_id m"
  "fe_active_sender_boot_id (fe_release m) = fe_active_sender_boot_id m"
  by (simp_all add: fe_release_def Let_def split: option.split)

lemma fe_release_inv:
  assumes inv: "fe_inv m"
  shows "fe_inv (fe_release m)"
proof (rule fe_invI)
  fix i a
  assume a: "fe_get_attempt (fe_release m) i = Some a"
  show "fa_attempt_id a = i \<and> i < fe_next_attempt_id (fe_release m)"
    using a fe_invD(1,2) [OF inv, of i] by (auto simp: fe_release_lookup [OF inv] split: if_splits)
  show "fa_state a = EP_CLOSED"
    using a fe_invD(3) [OF inv, of i] by (auto simp: fe_release_lookup [OF inv] split: if_splits)
qed simp_all

lemma fe_boot_inv: "fe_inv m \<Longrightarrow> fe_current m = None \<Longrightarrow> fe_inv (m\<lparr> fe_active_sender_boot_id := b \<rparr>)"
  by (simp add: fe_inv_def)

lemma fe_guard_Inr:
  assumes inv: "fe_inv m" and g: "fe_guard boot m = Inr a"
  shows "fe_current m = Some (fa_attempt_id a)" and "fe_get_attempt m (fa_attempt_id a) = Some a"
    and "fa_state a = EP_STARTED" and "fa_sender_boot_id a = boot"
    and "fe_active_sender_boot_id m = Some boot"
proof -
  from g have "fe_get_current_attempt m = Some a" and s: "fa_state a = EP_STARTED"
    and b: "fe_active_sender_boot_id m = Some boot"
    by (auto simp: fe_guard_def split: if_splits option.splits)
  then obtain i where i: "fe_current m = Some i" "fe_get_attempt m i = Some a"
    by (auto simp: fe_current_iff)
  moreover from fe_invD(1) [OF inv i(2)] have "fa_attempt_id a = i" .
  ultimately show "fe_current m = Some (fa_attempt_id a)" "fe_get_attempt m (fa_attempt_id a) = Some a"
    by simp_all
  show "fa_state a = EP_STARTED" "fe_active_sender_boot_id m = Some boot" by (rule s, rule b)
  show "fa_sender_boot_id a = boot" using fe_invD(5) [OF inv i(1)] i b by auto
qed

text \<open>Writing the current attempt, when the buffer keeps up with the count.\<close>

lemma fe_put_current_inv:
  assumes inv: "fe_inv m" and c: "fe_current m = Some (fa_attempt_id a)"
    and b: "fe_active_sender_boot_id m = Some (fa_sender_boot_id a)"
    and s: "fa_state a \<in> {EP_STARTED, EP_DRAINING, EP_ABORTING}"
    and n: "length buf = fa_data_packets_sent a"
  shows "fe_inv ((fe_put a m)\<lparr> fe_data_buffer := buf \<rparr>)"
proof (rule fe_invI)
  fix i x
  assume x: "fe_get_attempt ((fe_put a m)\<lparr> fe_data_buffer := buf \<rparr>) i = Some x"
  obtain y where "fe_get_attempt m (fa_attempt_id a) = Some y"
    using fe_invD(5) [OF inv c] by blast
  with x fe_invD(1,2) [OF inv]
  show "fa_attempt_id x = i \<and> i < fe_next_attempt_id ((fe_put a m)\<lparr> fe_data_buffer := buf \<rparr>)"
    by (auto split: if_splits)
  assume "fe_current ((fe_put a m)\<lparr> fe_data_buffer := buf \<rparr>) \<noteq> Some i"
  then show "fa_state x = EP_CLOSED" using x c fe_invD(3) [OF inv, of i x] by (auto split: if_splits)
next
  fix i
  assume "fe_current ((fe_put a m)\<lparr> fe_data_buffer := buf \<rparr>) = Some i"
  then show "\<exists>x. fe_get_attempt ((fe_put a m)\<lparr> fe_data_buffer := buf \<rparr>) i = Some x \<and>
      fa_state x \<in> {EP_STARTED, EP_DRAINING, EP_ABORTING} \<and>
      fe_active_sender_boot_id ((fe_put a m)\<lparr> fe_data_buffer := buf \<rparr>) = Some (fa_sender_boot_id x) \<and>
      length (fe_data_buffer ((fe_put a m)\<lparr> fe_data_buffer := buf \<rparr>)) = fa_data_packets_sent x"
    using c b s n by simp
qed (use c in simp)

lemma fe_idle:
  assumes "fe_inv m"
  shows "\<not> fe_busy m \<longleftrightarrow> fe_current m = None"
  using fe_invD(5) [OF assms]
  by (cases "fe_current m") (force simp: fe_busy_def fe_get_current_attempt_def)+

lemma fe_start_cases:
  assumes "fe_inv m"
  obtains (no) "fe_admit_start s i b l p m = (m, None)"
  | (started) a where "fa_attempt_id a = fe_next_attempt_id m" "fa_state a = EP_STARTED"
      "fa_sender_boot_id a = b" "fa_data_packets_sent a = 0"
      "fe_active_sender_boot_id m = Some b" "fe_current m = None"
      "fe_admit_start s i b l p m =
        ((fe_put a m)\<lparr> fe_next_attempt_id := fe_next_attempt_id m + 1,
           fe_current := Some (fe_next_attempt_id m) \<rparr>, Some (fe_next_attempt_id m))"
proof -
  let ?a = "\<lparr> fa_attempt_id = fe_next_attempt_id m, fa_epoch_id = fe_next_attempt_id m,
    fa_session_id = s, fa_spacecraft_instance_id = i, fa_sender_boot_id = b, fa_file_path = p,
    fa_state = EP_STARTED, fa_start_link_frame_id = l, fa_data_packets_sent = 0,
    fa_end_link_frame_id = None, fa_abort_link_frame_id = None \<rparr>"
  show ?thesis
  proof (cases "fe_active_sender_boot_id m = Some b \<and> \<not> fe_busy m")
    case True
    with fe_idle [OF assms] show ?thesis
      by (intro started [of ?a]) (simp_all add: fe_admit_start_def Let_def)
  next
    case False
    then show ?thesis by (intro no) (auto simp: fe_admit_start_def)
  qed
qed

lemma fe_start_inv:
  assumes inv: "fe_inv m"
  shows "fe_inv (fst (fe_admit_start s i b l p m))"
  using inv
proof (cases rule: fe_start_cases [of m s i b l p])
  case no
  with inv show ?thesis by simp
next
  case (started a)
  have "fe_data_buffer m = []" using fe_invD(4) [OF inv] started by blast
  with started fe_invD(1-3) [OF inv] show ?thesis
    by (intro fe_invI) (fastforce split: if_splits)+
qed

lemma fe_step_inv: "fe_inv m \<Longrightarrow> fe_inv (fe_step m op)"
proof (cases op)
  case (OpenSession b)
  assume inv: "fe_inv m"
  then show ?thesis
    by (simp add: OpenSession fe_open_session_def fe_boot_inv fe_release_inv)
next
  case (CloseSession b)
  assume inv: "fe_inv m"
  then show ?thesis
    by (simp add: CloseSession fe_close_session_def fe_boot_inv fe_release_inv)
next
  case (AdmitData b l off n)
  assume inv: "fe_inv m"
  show ?thesis
  proof (cases "fe_guard b m")
    case (Inr a)
    note g = fe_guard_Inr [OF inv Inr]
    have len: "length (fe_data_buffer m) = fa_data_packets_sent a" using fe_invD(5) [OF inv g(1)] g(2) by auto
    let ?a = "a\<lparr> fa_data_packets_sent := fa_data_packets_sent a + 1 \<rparr>"
    have "fe_inv ((fe_put ?a m)\<lparr> fe_data_buffer := fe_data_buffer m @
        [\<lparr> de_link_frame_id = l, de_offset = off, de_length = n \<rparr>] \<rparr>)"
      using g len by (intro fe_put_current_inv [OF inv]) simp_all
    then show ?thesis using Inr by (simp add: AdmitData fe_admit_data_def Let_def)
  qed (use inv in \<open>simp add: AdmitData fe_admit_data_def\<close>)
next
  case (AdmitEnd b l)
  assume inv: "fe_inv m"
  show ?thesis
  proof (cases "fe_guard b m")
    case (Inr a)
    note g = fe_guard_Inr [OF inv Inr]
    have len: "length (fe_data_buffer m) = fa_data_packets_sent a" using fe_invD(5) [OF inv g(1)] g(2) by auto
    let ?a = "a\<lparr> fa_end_link_frame_id := Some l, fa_state := EP_DRAINING \<rparr>"
    have "fe_inv ((fe_put ?a m)\<lparr> fe_data_buffer := fe_data_buffer m \<rparr>)"
      using g len by (intro fe_put_current_inv [OF inv]) simp_all
    moreover have "(fe_put ?a m)\<lparr> fe_data_buffer := fe_data_buffer m \<rparr> = fe_put ?a m"
      by (simp add: fe_put_def)
    ultimately show ?thesis using Inr by (simp add: AdmitEnd fe_admit_end_def)
  qed (use inv in \<open>simp add: AdmitEnd fe_admit_end_def\<close>)
next
  case (AbortAttempt k l)
  assume inv: "fe_inv m"
  show ?thesis
  proof (cases "fe_get_current_attempt m")
    case (Some a)
    then obtain i where c: "fe_current m = Some i" and i: "fe_get_attempt m i = Some a"
      by (auto simp: fe_current_iff)
    note len = fe_invD(5) [OF inv c] and id = fe_invD(1) [OF inv i]
    let ?a = "a\<lparr> fa_state := EP_ABORTING, fa_abort_link_frame_id := Some l \<rparr>"
    have "fe_inv ((fe_put ?a m)\<lparr> fe_data_buffer := fe_data_buffer m \<rparr>)"
      using c i len id by (intro fe_put_current_inv [OF inv]) auto
    moreover have "(fe_put ?a m)\<lparr> fe_data_buffer := fe_data_buffer m \<rparr> = fe_put ?a m"
      by (simp add: fe_put_def)
    ultimately show ?thesis using Some inv by (simp add: AbortAttempt fe_abort_attempt_def)
  qed (use inv in \<open>simp add: AbortAttempt fe_abort_attempt_def\<close>)
qed (simp_all add: fe_start_inv fe_complete_attempt_def fe_release_inv)

interpretation fe: op_system fe_step fe_inv
  by unfold_locales (rule fe_step_inv)

text \<open>An attempt that is past its START stays so, and its packet count is final.\<close>

lemma fe_release_past:
  assumes "fe_inv m" and "fe_get_attempt m k = Some x" "fa_state x \<noteq> EP_STARTED"
  shows "\<exists>y. fe_get_attempt (fe_release m) k = Some y \<and> fa_state y \<noteq> EP_STARTED \<and>
    fa_data_packets_sent y = fa_data_packets_sent x"
  using assms by (simp add: fe_release_lookup)

lemma fe_step_past:
  assumes inv: "fe_inv m" and x: "fe_get_attempt m k = Some x" "fa_state x \<noteq> EP_STARTED"
  shows "\<exists>y. fe_get_attempt (fe_step m op) k = Some y \<and> fa_state y \<noteq> EP_STARTED \<and>
    fa_data_packets_sent y = fa_data_packets_sent x"
proof (cases op)
  case (OpenSession b)
  with fe_release_past [OF inv x] x show ?thesis by (auto simp: fe_open_session_def)
next
  case (CloseSession b)
  with fe_release_past [OF inv x] x show ?thesis by (auto simp: fe_close_session_def)
next
  case (AdmitStart s i b l p)
  from inv show ?thesis
  proof (cases rule: fe_start_cases [of m s i b l p])
    case no
    with x AdmitStart show ?thesis by simp
  next
    case (started a)
    have "k < fe_next_attempt_id m" by (rule fe_invD(2) [OF inv x(1)])
    with x AdmitStart started show ?thesis by simp
  qed
next
  case (AdmitData b l off n)
  show ?thesis
  proof (cases "fe_guard b m")
    case (Inr a)
    note g = fe_guard_Inr [OF inv Inr]
    then have "fa_attempt_id a \<noteq> k" using x by auto
    with Inr x AdmitData show ?thesis by (simp add: fe_admit_data_def Let_def)
  qed (use x AdmitData in \<open>simp add: fe_admit_data_def\<close>)
next
  case (AdmitEnd b l)
  show ?thesis
  proof (cases "fe_guard b m")
    case (Inr a)
    note g = fe_guard_Inr [OF inv Inr]
    then have "fa_attempt_id a \<noteq> k" using x by auto
    with Inr x AdmitEnd show ?thesis by (simp add: fe_admit_end_def Let_def)
  qed (use x AdmitEnd in \<open>simp add: fe_admit_end_def\<close>)
next
  case (CompleteAttempt j)
  with fe_release_past [OF inv x] x show ?thesis by (auto simp: fe_complete_attempt_def)
next
  case (AbortAttempt j l)
  show ?thesis
  proof (cases "fe_get_current_attempt m")
    case (Some a)
    then obtain i where i: "fe_get_attempt m i = Some a" by (auto simp: fe_current_iff)
    with fe_invD(1) [OF inv i] x Some AbortAttempt show ?thesis by (auto simp: fe_abort_attempt_def)
  qed (use x AbortAttempt in \<open>simp add: fe_abort_attempt_def\<close>)
qed

interpretation fe_past: stable_fact fe_step fe_inv
  "\<lambda>m. \<exists>y. fe_get_attempt m k = Some y \<and> fa_state y \<noteq> EP_STARTED \<and> fa_data_packets_sent y = n" for k n
proof unfold_locales
  fix m op
  assume "fe_inv m" "\<exists>y. fe_get_attempt m k = Some y \<and> fa_state y \<noteq> EP_STARTED \<and> fa_data_packets_sent y = n"
  then show "\<exists>y. fe_get_attempt (fe_step m op) k = Some y \<and> fa_state y \<noteq> EP_STARTED \<and>
      fa_data_packets_sent y = n"
    using fe_step_past [of m k _ op] by blast
qed

section \<open>Properties\<close>

text \<open>
  C32: One file transfer at a time. After any calls, a START is admitted only when every
  earlier attempt is closed; it gets a fresh id, and is then the only attempt not closed.
\<close>

theorem file_attempts_exclusive:
  assumes "fe_admit_start s i b l p (run_ops fe_step fe_init ops) = (m', Some k)"
  shows "let m = run_ops fe_step fe_init ops in
    (\<forall>j a. fe_get_attempt m j = Some a \<longrightarrow> fa_state a = EP_CLOSED \<and> j < k) \<and>
    fe_active_sender_boot_id m = Some b \<and>
    (\<forall>j a. fe_get_attempt m' j = Some a \<longrightarrow> (fa_state a = EP_CLOSED \<longleftrightarrow> j \<noteq> k))"
proof -
  let ?m = "run_ops fe_step fe_init ops"
  have inv: "fe_inv ?m" by (rule fe.inv_run [OF fe_init_inv])
  from inv show ?thesis
  proof (cases rule: fe_start_cases [of ?m s i b l p])
    case no
    with assms show ?thesis by simp
  next
    case (started a)
    note D = fe_invD(2,3) [OF inv]
    have c: "fa_state x = EP_CLOSED \<and> j < k" if "fe_get_attempt ?m j = Some x" for j x
      using D [OF that] started assms by simp
    have "fa_state x = EP_CLOSED \<longleftrightarrow> j \<noteq> k" if "fe_get_attempt m' j = Some x" for j x
      using that c [of j x] started assms by (auto split: if_splits)
    with c started show ?thesis unfolding Let_def by blast
  qed
qed

lemma file_attempts_exclusive_witness:
  "let m = run_ops fe_step fe_init [OpenSession 5, AdmitStart 1 2 5 100 [97], AdmitData 5 101 0 990,
       AdmitEnd 5 102, CompleteAttempt 1] in
    map_option fa_state (fe_get_attempt m 1) = Some EP_CLOSED"
proof -
  define m where "m = run_ops fe_step fe_init [OpenSession 5, AdmitStart 1 2 5 100 [97],
    AdmitData 5 101 0 990, AdmitEnd 5 102, CompleteAttempt 1]"
  have "snd (fe_admit_start 1 2 5 103 [98] m) = Some 2" unfolding m_def by code_simp
  then have "fe_admit_start 1 2 5 103 [98] m = (fst (fe_admit_start 1 2 5 103 [98] m), Some 2)"
    by (metis prod.collapse)
  from file_attempts_exclusive [OF this [unfolded m_def], folded m_def]
  have c: "fa_state a = EP_CLOSED" if "fe_get_attempt m j = Some a" for j a
    using that unfolding Let_def by blast
  have "map_option fa_attempt_id (fe_get_attempt m 1) = Some 1" unfolding m_def by code_simp
  then obtain a where "fe_get_attempt m 1 = Some a" by auto
  with c [OF this] show ?thesis unfolding Let_def m_def [symmetric] by simp
qed

text \<open>
  C9: The fence. Once an attempt has left STARTED, by END, by an abort, by completion or by
  the closing of its boot, no later DATA or END packet is ever attributed to it, whatever
  calls follow, and its packet count does not change any more.
\<close>

theorem file_attempt_fenced:
  assumes "m = run_ops fe_step fe_init ops"
    and "fe_get_attempt m k = Some a" and "fa_state a \<noteq> EP_STARTED"
  shows "snd (fe_admit_data b l off n (run_ops fe_step m ops')) \<noteq> Inr k \<and>
    snd (fe_admit_end b l (run_ops fe_step m ops')) \<noteq> Inr k \<and>
    map_option fa_data_packets_sent (fe_get_attempt (run_ops fe_step m ops') k) =
      Some (fa_data_packets_sent a)"
proof -
  let ?m = "run_ops fe_step m ops'"
  have inv: "fe_inv m" unfolding assms(1) by (rule fe.inv_run [OF fe_init_inv])
  then have inv': "fe_inv ?m" by (rule fe.inv_run)
  obtain y where y: "fe_get_attempt ?m k = Some y" "fa_state y \<noteq> EP_STARTED"
    "fa_data_packets_sent y = fa_data_packets_sent a"
    using fe_past.fact_run [OF inv, of k "fa_data_packets_sent a" ops'] assms(2,3) by blast
  have "x \<noteq> k" if "snd (fe_admit_data b l off n ?m) = Inr x \<or> snd (fe_admit_end b l ?m) = Inr x" for x
    using that fe_guard_Inr [OF inv', of b] y
    by (cases "fe_guard b ?m") (auto simp: fe_admit_data_def fe_admit_end_def Let_def)
  with y show ?thesis by auto
qed

lemma file_attempt_fenced_witness:
  "let m = run_ops fe_step fe_init [OpenSession 5, AdmitStart 1 2 5 100 [97], AdmitData 5 101 0 990,
       AbortAttempt 1 102]
   in snd (fe_admit_data 5 103 990 10 (run_ops fe_step m [CompleteAttempt 1, AdmitStart 1 2 5 104 [98]])) \<noteq> Inr 1"
proof -
  let ?m = "run_ops fe_step fe_init [OpenSession 5, AdmitStart 1 2 5 100 [97], AdmitData 5 101 0 990,
       AbortAttempt 1 102]"
  have "map_option fa_state (fe_get_attempt ?m 1) = Some EP_ABORTING" by code_simp
  then obtain a where "fe_get_attempt ?m 1 = Some a" "fa_state a \<noteq> EP_STARTED" by auto
  from file_attempt_fenced [OF refl this] show ?thesis unfolding Let_def by blast
qed

text \<open>
  On every reachable state the statistics are consistent: the reorder buffer has as many
  entries as the current attempt has admitted DATA packets (none without an attempt), a
  current attempt is never closed, and it was started by the boot that is active now.
\<close>

theorem file_epoch_consistent:
  "let m = run_ops fe_step fe_init ops; st = fe_get_stats m in
     fs_data_buffer_depth st = fs_data_packets_sent st \<and>
     (case fe_get_current_attempt m of
        None \<Rightarrow> fs_current_state st = ''IDLE''
      | Some a \<Rightarrow> fs_current_state st \<in> {''STARTED'', ''DRAINING'', ''ABORTING''} \<and>
          fe_active_sender_boot_id m = Some (fa_sender_boot_id a))"
proof -
  define m where "m = run_ops fe_step fe_init ops"
  have inv: "fe_inv m" unfolding m_def by (rule fe.inv_run [OF fe_init_inv])
  show ?thesis
  proof (cases "fe_current m")
    case None
    with fe_invD(4) [OF inv] show ?thesis
      by (simp add: fe_get_stats_def fe_get_current_attempt_def Let_def flip: m_def)
  next
    case (Some i)
    with fe_invD(5) [OF inv Some] show ?thesis
      by (auto simp: fe_get_stats_def fe_get_current_attempt_def Let_def simp flip: m_def)
  qed
qed

end
