(* ===== verification/StorageGuard.thy ===== *)
theory StorageGuard
  imports Interfaces
begin

text \<open>
  \<^verbatim>\<open>gds/storage.py\<close>: durable reservations of the bytes of a volume below a hard watermark. A
  call is one transaction of the writer. The clock in microseconds and the bytes in use are
  arguments of a call; the watermarks are those the constructor computed.
\<close>

section \<open>State\<close>

datatype reservation_state = ACTIVE | RELEASED | EXPIRED

record reservation =
  rv_reservation_id :: int
  rv_volume :: string
  rv_owner :: string
  rv_reserved_bytes :: int
  rv_state :: reservation_state
  rv_expires_at_us :: int
  rv_created_at_us :: int
  rv_released_at_us :: "int option"

text \<open>The table \<^verbatim>\<open>storage_reservations\<close> with its autoincrement key, and the volume of the guard.\<close>

record storage_guard =
  sg_volume :: string
  sg_cap_bytes :: int
  sg_high_watermark_bytes :: int
  sg_hard_watermark_bytes :: int
  sg_reservations :: "reservation list"
  sg_next_id :: int

record storage_snapshot =
  sn_volume :: string
  sn_used_bytes :: int
  sn_reserved_bytes :: int
  sn_cap_bytes :: int
  sn_high_watermark_bytes :: int
  sn_hard_watermark_bytes :: int

definition sn_hard_full :: "storage_snapshot \<Rightarrow> bool" where
  "sn_hard_full sn \<longleftrightarrow> sn_used_bytes sn + sn_reserved_bytes sn \<ge> sn_hard_watermark_bytes sn"

section \<open>Operations\<close>

definition sg_used_bytes :: "int \<Rightarrow> int res" where
  "sg_used_bytes used = (if used < 0 then Inl (ValueError ''usage provider returned a negative value'') else Inr used)"

text \<open>\<^verbatim>\<open>sum(reserved_bytes)\<close> of the active reservations of the volume that satisfy the rest of the query.\<close>

definition sg_active_bytes :: "(reservation \<Rightarrow> bool) \<Rightarrow> storage_guard \<Rightarrow> int" where
  "sg_active_bytes p g = sum_list (map rv_reserved_bytes
     (filter (\<lambda>r. rv_volume r = sg_volume g \<and> rv_state r = ACTIVE \<and> p r) (sg_reservations g)))"

definition sg_snapshot :: "int \<Rightarrow> int \<Rightarrow> storage_guard \<Rightarrow> storage_snapshot res" where
  "sg_snapshot now_us used g =
     rbind (sg_used_bytes used) (\<lambda>used. Inr
       \<lparr> sn_volume = sg_volume g, sn_used_bytes = used,
         sn_reserved_bytes = sg_active_bytes (\<lambda>r. rv_expires_at_us r > now_us) g,
         sn_cap_bytes = sg_cap_bytes g, sn_high_watermark_bytes = sg_high_watermark_bytes g,
         sn_hard_watermark_bytes = sg_hard_watermark_bytes g \<rparr>)"

text \<open>\<^verbatim>\<open>StorageFullError\<close> is a \<^verbatim>\<open>RuntimeError\<close>.\<close>

definition storage_full :: pyerr where
  "storage_full = RuntimeError ''STORAGE_FULL''"

definition sg_ensure_admission :: "int \<Rightarrow> int \<Rightarrow> int \<Rightarrow> storage_guard \<Rightarrow> unit res" where
  "sg_ensure_admission now_us used additional_bytes g =
     (if additional_bytes < 0 then Inl (ValueError ''additional_bytes must be non-negative'')
      else rbind (sg_snapshot now_us used g) (\<lambda>sn.
        if sn_used_bytes sn + sn_reserved_bytes sn + additional_bytes \<ge> sn_hard_watermark_bytes sn
        then Inl storage_full else Inr ()))"

definition expire_row :: "string \<Rightarrow> int \<Rightarrow> reservation \<Rightarrow> reservation" where
  "expire_row volume now_us r =
     (if rv_volume r = volume \<and> rv_state r = ACTIVE \<and> rv_expires_at_us r \<le> now_us
      then r\<lparr> rv_state := EXPIRED \<rparr> else r)"

definition sg_expire :: "int \<Rightarrow> storage_guard \<Rightarrow> storage_guard" where
  "sg_expire now_us g = g\<lparr> sg_reservations := map (expire_row (sg_volume g) now_us) (sg_reservations g) \<rparr>"

definition HOUR_US :: int where "HOUR_US = 3600000000"

text \<open>\<^verbatim>\<open>reserve\<close>; an error rolls the transaction back, the expiry with it.\<close>

definition sg_reserve :: "int \<Rightarrow> int \<Rightarrow> string \<Rightarrow> int \<Rightarrow> int \<Rightarrow> storage_guard \<Rightarrow> storage_guard \<times> int res" where
  "sg_reserve now_us used owner reserved_bytes ttl_us g =
     (if owner = [] then (g, Inl (ValueError ''reservation owner must not be empty''))
      else if reserved_bytes \<le> 0 then (g, Inl (ValueError ''reserved_bytes must be positive''))
      else if ttl_us \<le> 0 then (g, Inl (ValueError ''reservation ttl must be positive''))
      else
        let g1 = sg_expire now_us g in
        case sg_used_bytes used of
          Inl e \<Rightarrow> (g, Inl e)
        | Inr used \<Rightarrow>
        if used + sg_active_bytes (\<lambda>_. True) g1 + reserved_bytes \<ge> sg_hard_watermark_bytes g
        then (g, Inl storage_full)
        else (g1\<lparr> sg_reservations := sg_reservations g1 @
                  [\<lparr> rv_reservation_id = sg_next_id g, rv_volume = sg_volume g, rv_owner = owner,
                     rv_reserved_bytes = reserved_bytes, rv_state = ACTIVE,
                     rv_expires_at_us = now_us + ttl_us, rv_created_at_us = now_us,
                     rv_released_at_us = None \<rparr>],
                sg_next_id := sg_next_id g + 1 \<rparr>, Inr (sg_next_id g)))"

definition release_row :: "int \<Rightarrow> int \<Rightarrow> reservation \<Rightarrow> reservation" where
  "release_row now_us reservation_id r =
     (if rv_reservation_id r = reservation_id \<and> rv_state r = ACTIVE
      then r\<lparr> rv_state := RELEASED, rv_released_at_us := Some now_us \<rparr> else r)"

definition sg_release :: "int \<Rightarrow> int \<Rightarrow> storage_guard \<Rightarrow> storage_guard \<times> unit res" where
  "sg_release now_us reservation_id g =
     (if reservation_id \<le> 0 then (g, Inl (ValueError ''reservation_id must be positive''))
      else (g\<lparr> sg_reservations := map (release_row now_us reservation_id) (sg_reservations g) \<rparr>, Inr ()))"

section \<open>The reservations\<close>

definition sg_holds :: "storage_guard \<Rightarrow> int \<Rightarrow> string \<Rightarrow> bool" where
  "sg_holds g i owner \<longleftrightarrow>
     (\<exists>r \<in> set (sg_reservations g). rv_reservation_id r = i \<and> rv_owner r = owner \<and> rv_volume r = sg_volume g \<and> rv_state r = ACTIVE)"

definition sg_inv :: "storage_guard \<Rightarrow> bool" where
  "sg_inv g \<longleftrightarrow> 0 < sg_next_id g \<and> distinct (map rv_reservation_id (sg_reservations g)) \<and>
     (\<forall>r \<in> set (sg_reservations g). 0 < rv_reservation_id r \<and> rv_reservation_id r < sg_next_id g \<and> 0 < rv_reserved_bytes r)"

datatype storage_op = SgReserve int int string int int | SgRelease int int | SgExpire int

fun sg_step :: "storage_guard \<Rightarrow> storage_op \<Rightarrow> storage_guard" where
  "sg_step g (SgReserve now_us used owner reserved_bytes ttl_us) = fst (sg_reserve now_us used owner reserved_bytes ttl_us g)"
| "sg_step g (SgRelease now_us reservation_id) = fst (sg_release now_us reservation_id g)"
| "sg_step g (SgExpire now_us) = sg_expire now_us g"

lemma row_ids [simp]:
  "rv_reservation_id (expire_row v t r) = rv_reservation_id r" "rv_reserved_bytes (expire_row v t r) = rv_reserved_bytes r"
  "rv_reservation_id (release_row t i r) = rv_reservation_id r" "rv_reserved_bytes (release_row t i r) = rv_reserved_bytes r"
  by (simp_all add: expire_row_def release_row_def)

lemma map_row_ids [simp]:
  "map (rv_reservation_id \<circ> expire_row v t) rs = map rv_reservation_id rs"
  "map (rv_reservation_id \<circ> release_row t i) rs = map rv_reservation_id rs"
  by (simp_all add: comp_def)

lemma sg_expire_inv: "sg_inv g \<Longrightarrow> sg_inv (sg_expire t g)"
  by (auto simp: sg_inv_def sg_expire_def)

lemma sg_reserve_cases:
  obtains (refused) e where "sg_reserve t u owner n ttl g = (g, Inl e)"
  | (granted) "sg_reserve t u owner n ttl g =
      (sg_expire t g\<lparr> sg_reservations := sg_reservations (sg_expire t g) @
         [\<lparr> rv_reservation_id = sg_next_id g, rv_volume = sg_volume g, rv_owner = owner, rv_reserved_bytes = n,
            rv_state = ACTIVE, rv_expires_at_us = t + ttl, rv_created_at_us = t, rv_released_at_us = None \<rparr>],
         sg_next_id := sg_next_id g + 1 \<rparr>, Inr (sg_next_id g))"
      "0 < n" "0 < ttl" "0 \<le> u"
      "u + sg_active_bytes (\<lambda>_. True) (sg_expire t g) + n < sg_hard_watermark_bytes g"
proof (cases "sg_reserve t u owner n ttl g")
  case (Pair g' r)
  show thesis
  proof (cases r)
    case (Inl e)
    with Pair have "g' = g" by (auto simp: sg_reserve_def sg_used_bytes_def Let_def split: if_splits)
    with Pair Inl show thesis by (intro refused) simp
  next
    case (Inr i)
    with Pair show thesis
      by (intro granted) (auto simp: sg_reserve_def sg_used_bytes_def Let_def split: if_splits)
  qed
qed

lemma sg_step_inv: "sg_inv g \<Longrightarrow> sg_inv (sg_step g op)"
proof (cases op)
  case (SgReserve t u owner n ttl)
  assume inv: "sg_inv g"
  show ?thesis
  proof (cases rule: sg_reserve_cases [of t u owner n ttl g])
    case refused
    then show ?thesis using inv SgReserve by simp
  next
    case granted
    have "sg_inv (sg_expire t g)" "sg_next_id (sg_expire t g) = sg_next_id g"
      using inv by (simp_all add: sg_expire_inv) (simp add: sg_expire_def)
    then show ?thesis using SgReserve granted by (fastforce simp: sg_inv_def)
  qed
qed (auto simp: sg_inv_def sg_release_def sg_expire_def)

interpretation storage: op_system sg_step sg_inv
  by unfold_locales (rule sg_step_inv)

text \<open>Ids are never given twice.\<close>

lemma sg_step_next: "sg_next_id g \<le> sg_next_id (sg_step g op)"
proof (cases op)
  case (SgReserve t u owner n ttl)
  then show ?thesis
    by (cases rule: sg_reserve_cases [of t u owner n ttl g]) simp_all
qed (simp_all add: sg_release_def sg_expire_def)

interpretation storage_ids: monotone_system sg_step sg_inv sg_next_id
  by unfold_locales (rule sg_step_next)

end
