(* ===== verification/FileReassembly.thy ===== *)
theory FileReassembly
  imports CfdpChecksum Schemas JsonText StorageGuard
begin

text \<open>
  \<^verbatim>\<open>gds/file_reassembly.py\<close>: the ground side of a file transfer. It stages DATA in a part file,
  keeps the ranges it has and what each sequence index carried in an index, and publishes the
  file on END when it is complete and its size, checksum and digest are those START announced.

  The part files are a map from the epoch (\<^verbatim>\<open>part_path\<close> is formatted from it) to their bytes. The
  tables of the index and \<^verbatim>\<open>file_reassemblies\<close> are lists of rows with their keys; \<open>fr_rows\<close> is
  \<open>None\<close> without a writer. What the object reads from outside is \<open>reassembly_view\<close>: SHA-256,
  the storage clock and usage, whether the part file can be created, \<^verbatim>\<open>int\<close> of a string and
  \<^verbatim>\<open>str\<close> of a value that is not one, and the product store (\<^verbatim>\<open>verify_bundle\<close>, then \<^verbatim>\<open>publish\<close>).
\<close>

section \<open>State\<close>

text \<open>\<^verbatim>\<open>FileReassemblyError\<close> with its code, the SQLite constraint error, and every other exception.\<close>

datatype reassembly_error = Reassembly string | IntegrityError | Raised pyerr

type_synonym 'a fr_res = "reassembly_error + 'a"

record file_epoch_key =
  fk_spacecraft_instance_id :: int
  fk_link_session_id :: int
  fk_file_epoch_id :: int

definition new_file_epoch_key :: "int \<Rightarrow> int \<Rightarrow> int \<Rightarrow> file_epoch_key res" where
  "new_file_epoch_key instance_id session epoch =
     rbind (checked_u64 instance_id) (\<lambda>_. rbind (checked_u64 session) (\<lambda>_. rbind (checked_u64 epoch) (\<lambda>_.
       if epoch = 0 then Inl (ValueError ''file_epoch_id must be non-zero for a FilePacket epoch'')
       else Inr \<lparr> fk_spacecraft_instance_id = instance_id, fk_link_session_id = session, fk_file_epoch_id = epoch \<rparr>)))"

datatype reassembly_status = RECEIVING | VERIFIED | INCOMPLETE | CHECKSUM_FAILED | EPOCH_CANCELED

record reassembly_result =
  rr_key :: file_epoch_key
  rr_state :: reassembly_status
  rr_transfer_id :: "int option"
  rr_product_ref :: "product_ref option"
  rr_bytes_received :: int
  rr_expected_size :: "int option"
  rr_reason :: "string option"
  rr_product :: "py_dict option"

record reassembly =
  re_key :: file_epoch_key
  re_transfer_id :: int
  re_product_ref :: product_ref
  re_expected_size :: int
  re_expected_file_checksum :: int
  re_expected_bundle_sha256 :: string
  re_source_name :: ustr
  re_destination_name :: ustr
  re_state :: reassembly_status
  re_start_payload :: bytes
  re_terminal_reason :: "string option"
  re_origin_request_key :: "request_key option"
  re_created_at_us :: int
  re_updated_at_us :: int
  re_reservation_id :: "int option"
  re_bytes_received :: int
  re_terminal_packet_type :: "file_packet_type option"
  re_terminal_sequence_index :: "int option"
  re_terminal_payload_sha256 :: "string option"

text \<open>A row of \<^verbatim>\<open>file_reassembly_packets\<close> (by epoch and sequence index) and of \<^verbatim>\<open>file_reassembly_ranges\<close> (by epoch and start).\<close>

type_synonym packet_rows = "(file_epoch_key \<times> int, int \<times> int \<times> string) dict"
type_synonym range_rows = "(file_epoch_key \<times> int, int) dict"

record reassembler =
  fr_max_bundle_bytes :: int
  fr_reassembly_timeout_us :: int
  fr_clock_injected :: bool
  fr_states :: "(file_epoch_key, reassembly) dict"
  fr_missing_start :: "(file_epoch_key, string) dict"
  fr_packets :: packet_rows
  fr_ranges :: range_rows
  fr_parts :: "(file_epoch_key, bytes) dict"
  fr_rows :: "(file_epoch_key, reassembly) dict option"
  fr_guard :: "storage_guard option"
  fr_audit :: "(file_epoch_key \<times> string) list"

datatype publication = Published py_dict | Rejected string | Failed pyerr

record reassembly_view =
  fv_sha256 :: "bytes \<Rightarrow> string"
  fv_storage_now_us :: int
  fv_used_bytes :: int
  fv_can_stage :: bool
  fv_int :: "ustr \<Rightarrow> int res"
  fv_str :: "py_value \<Rightarrow> ustr"
  fv_publish :: "(bytes \<Rightarrow> reassembly \<Rightarrow> publication) option"

section \<open>The START payload\<close>

text \<open>\<^verbatim>\<open>int\<close> and \<^verbatim>\<open>str\<close> of a JSON value.\<close>

definition int_of_value :: "(ustr \<Rightarrow> int res) \<Rightarrow> py_value \<Rightarrow> int res" where
  "int_of_value int_of v =
     (case v of
        PInt i \<Rightarrow> Inr i
      | PBool b \<Rightarrow> Inr (if b then 1 else 0)
      | PStr s \<Rightarrow> int_of s
      | _ \<Rightarrow> Inl (TypeError ''int() argument must be a string or a real number''))"

definition str_of_value :: "(py_value \<Rightarrow> ustr) \<Rightarrow> py_value \<Rightarrow> ustr" where
  "str_of_value str v = (case v of PStr s \<Rightarrow> s | _ \<Rightarrow> str v)"

text \<open>\<^verbatim>\<open>_DESTINATION_RE.fullmatch\<close>, with its four groups.\<close>

definition destination_groups :: "ustr \<Rightarrow> (string \<times> string \<times> string \<times> string) option" where
  "destination_groups s =
     (if list_all (\<lambda>ch. ch < 128) s then
        let t = map char_of s;
            boot = slice 2 10 t; product = slice 11 19 t; transfer = slice 20 28 t; sha = slice 29 93 t
        in if t = ''p/'' @ boot @ ''/'' @ product @ ''/'' @ transfer @ ''/'' @ sha @ ''.tar'' \<and> length t = 97 \<and>
              list_all is_hex (boot @ product @ transfer @ sha)
           then Some (boot, product, transfer, sha) else None
      else None)"

definition start_fields :: "string list" where
  "start_fields = [''source'', ''destination'', ''file_size'', ''checksum'', ''product_ref'', ''transfer_id'']"

text \<open>The errors \<^verbatim>\<open>except (TypeError, ValueError)\<close> catches.\<close>

definition value_error :: "pyerr \<Rightarrow> bool" where
  "value_error e \<longleftrightarrow> (case e of ValueError _ \<Rightarrow> True | TypeError _ \<Rightarrow> True | _ \<Rightarrow> False)"

definition invalid_start :: "pyerr \<Rightarrow> reassembly_error" where
  "invalid_start e = (if value_error e then Reassembly ''INVALID_START'' else Raised e)"

definition or_raise :: "'a res \<Rightarrow> 'a fr_res" where
  "or_raise r = (case r of Inl e \<Rightarrow> Inl (Raised e) | Inr x \<Rightarrow> Inr x)"

definition start_identity :: "(ustr \<Rightarrow> int res) \<Rightarrow> py_dict \<Rightarrow> (product_ref \<times> int \<times> int \<times> int) res" where
  "start_identity int_of value =
     rbind (pr_from_dict (pget value ''product_ref'')) (\<lambda>product.
     rbind (int_of_value int_of (pget value ''file_size'')) (\<lambda>size.
     rbind (int_of_value int_of (pget value ''checksum'')) (\<lambda>checksum.
     rbind (checked_value 32 (pget value ''transfer_id'')) (\<lambda>transfer. Inr (product, size, checksum, transfer)))))"

record start_info =
  si_product_ref :: product_ref
  si_file_size :: int
  si_checksum :: int
  si_transfer_id :: int
  si_source :: ustr
  si_destination :: ustr

definition check_start_paths :: "product_ref \<Rightarrow> int \<Rightarrow> ustr \<Rightarrow> ustr \<Rightarrow> string option" where
  "check_start_paths product transfer source destination =
     (if source \<noteq> ustr (''b/'' @ hex_pad 8 (nat (pr_origin_boot_id product)) @ ''/'' @
           hex_pad 8 (nat (pr_product_id product)) @ ''.tar'')
      then Some ''INVALID_START_PATH''
      else case destination_groups destination of
        None \<Rightarrow> Some ''INVALID_START_PATH''
      | Some (boot, product_id, transfer_id, sha) \<Rightarrow>
          if int (hex_int boot) \<noteq> pr_origin_boot_id product \<or> int (hex_int product_id) \<noteq> pr_product_id product \<or>
             int (hex_int transfer_id) \<noteq> transfer
          then Some ''INVALID_START_PATH'' else None)"

definition read_start :: "reassembly_view \<Rightarrow> bytes \<Rightarrow> start_info fr_res" where
  "read_start env payload =
     (case rbind (utf8_decode payload) json_loads of
        Inl e \<Rightarrow> Inl (if e = json_error \<or> e = ValueError ''invalid UTF-8'' then Reassembly ''INVALID_START'' else Raised e)
      | Inr (PDict value) \<Rightarrow>
          (case canonical_json (PDict value) of
             Inl e \<Rightarrow> Inl (Raised e)
           | Inr again \<Rightarrow>
          if again \<noteq> payload then Inl (Reassembly ''INVALID_START'')
          else if set (map fst value) \<noteq> pkey ` set start_fields then Inl (Reassembly ''INVALID_START'')
          else case start_identity (fv_int env) value of
            Inl e \<Rightarrow> Inl (invalid_start e)
          | Inr (product, file_size, checksum, transfer) \<Rightarrow>
          if file_size < 0 \<or> file_size > 0xFFFFFFFF then Inl (Reassembly ''INVALID_START'')
          else case checked_u32 checksum of
            Inl e \<Rightarrow> Inl (Raised e)
          | Inr _ \<Rightarrow>
          let source = str_of_value (fv_str env) (pget value ''source'');
              destination = str_of_value (fv_str env) (pget value ''destination'')
          in case check_start_paths product transfer source destination of
            Some code \<Rightarrow> Inl (Reassembly code)
          | None \<Rightarrow>
          if file_size = 0 then Inl (Reassembly ''INVALID_START'')
          else Inr \<lparr> si_product_ref = product, si_file_size = file_size, si_checksum = checksum,
                 si_transfer_id = transfer, si_source = source, si_destination = destination \<rparr>)
      | Inr _ \<Rightarrow> Inl (Reassembly ''INVALID_START''))"

text \<open>\<^verbatim>\<open>destination.rsplit("/", 1)[-1][:-4]\<close>.\<close>

definition bundle_sha_of :: "ustr \<Rightarrow> ustr" where
  "bundle_sha_of destination = but_last_n 4 (rev (takeWhile (\<lambda>ch. ch \<noteq> 47) (rev destination)))"

section \<open>The index\<close>

definition max_overlap_rows :: nat where "max_overlap_rows = MAX_FILE_DATA_PER_FRAME + 2"

definition packet_metadata :: "file_epoch_key \<Rightarrow> int \<Rightarrow> reassembler \<Rightarrow> (int \<times> int \<times> string) option" where
  "packet_metadata k sequence_index s = map_of (fr_packets s) (k, sequence_index)"

text \<open>The ranges of an epoch in the order of their start.\<close>

definition ranges_of :: "file_epoch_key \<Rightarrow> reassembler \<Rightarrow> (int \<times> int) list" where
  "ranges_of k s = sort_key fst (map (\<lambda>((_, start), stop). (start, stop)) (filter (\<lambda>((k', _), _). k' = k) (fr_ranges s)))"

definition overlap_ranges :: "file_epoch_key \<Rightarrow> int \<Rightarrow> int \<Rightarrow> reassembler \<Rightarrow> (int \<times> int) list fr_res" where
  "overlap_ranges k start stop s =
     (let rows = take (max_overlap_rows + 1) (filter (\<lambda>(a, b). a \<le> stop \<and> b \<ge> start) (ranges_of k s)) in
      if length rows > max_overlap_rows then Inl (Reassembly ''REASSEMBLY_METADATA_LIMIT'') else Inr rows)"

definition next_sequence :: "file_epoch_key \<Rightarrow> reassembler \<Rightarrow> int" where
  "next_sequence k s = fold max (map (snd \<circ> fst) (filter (\<lambda>((k', _), _). k' = k) (fr_packets s))) 0 + 1"

definition coverage_complete :: "reassembly \<Rightarrow> reassembler \<Rightarrow> bool" where
  "coverage_complete e s \<longleftrightarrow>
     re_bytes_received e = re_expected_size e \<and> take 2 (ranges_of (re_key e) s) = [(0, re_expected_size e)]"

text \<open>The \<^verbatim>\<open>CHECK\<close> of \<^verbatim>\<open>file_reassemblies\<close> that an update can break, and the update.\<close>

definition update_row :: "reassembly \<Rightarrow> (file_epoch_key, reassembly) dict \<Rightarrow> (file_epoch_key, reassembly) dict fr_res" where
  "update_row e rows =
     (case map_of rows (re_key e) of
        None \<Rightarrow> Inr rows
      | Some row \<Rightarrow>
          if re_updated_at_us e < re_created_at_us row \<or> re_bytes_received e < 0 then Inl IntegrityError
          else Inr (dput (re_key e) e rows))"

text \<open>
  \<^verbatim>\<open>_persist_data_packet\<close>: one transaction over the index and the row; an error rolls it back.
\<close>

definition persist_data_packet ::
  "reassembly \<Rightarrow> int \<Rightarrow> int \<times> int \<times> string \<Rightarrow> (int \<times> int) list \<Rightarrow> int \<times> int \<Rightarrow> reassembler \<Rightarrow> reassembler \<times> unit fr_res" where
  "persist_data_packet e sequence_index meta old_ranges merged s =
     (let k = re_key e;
          ranges = fold (\<lambda>(start, _). ddel (k, start)) old_ranges (fr_ranges s)
      in if map_of ranges (k, fst merged) \<noteq> None \<or> map_of (fr_packets s) (k, sequence_index) \<noteq> None
         then (s, Inl IntegrityError)
         else case (case fr_rows s of None \<Rightarrow> Inr None | Some rows \<Rightarrow>
                     (case update_row e rows of Inl err \<Rightarrow> Inl err | Inr rows \<Rightarrow> Inr (Some rows))) of
           Inl err \<Rightarrow> (s, Inl err)
         | Inr rows \<Rightarrow>
             (s\<lparr> fr_ranges := dput (k, fst merged) (snd merged) ranges,
                 fr_packets := dput (k, sequence_index) meta (fr_packets s), fr_rows := rows \<rparr>, Inr ()))"

definition clear_index_metadata :: "file_epoch_key \<Rightarrow> reassembler \<Rightarrow> reassembler" where
  "clear_index_metadata k s =
     s\<lparr> fr_packets := filter (\<lambda>((k', _), _). k' \<noteq> k) (fr_packets s),
        fr_ranges := filter (\<lambda>((k', _), _). k' \<noteq> k) (fr_ranges s) \<rparr>"

definition persist_state :: "reassembly \<Rightarrow> reassembler \<Rightarrow> reassembler \<times> unit fr_res" where
  "persist_state e s =
     (case fr_rows s of
        None \<Rightarrow> (clear_index_metadata (re_key e) s, Inr ())
      | Some rows \<Rightarrow>
          (case update_row e rows of
             Inl err \<Rightarrow> (s, Inl err)
           | Inr rows \<Rightarrow> ((clear_index_metadata (re_key e) s)\<lparr> fr_rows := Some rows \<rparr>, Inr ())))"

section \<open>Results and the end of an epoch\<close>

definition fr_result :: "reassembly \<Rightarrow> py_dict option \<Rightarrow> reassembly_result" where
  "fr_result e product =
     \<lparr> rr_key = re_key e, rr_state = re_state e, rr_transfer_id = Some (re_transfer_id e),
       rr_product_ref = Some (re_product_ref e), rr_bytes_received = re_bytes_received e,
       rr_expected_size = Some (re_expected_size e), rr_reason = re_terminal_reason e, rr_product = product \<rparr>"

definition put_state :: "reassembly \<Rightarrow> reassembler \<Rightarrow> reassembler" where
  "put_state e s = s\<lparr> fr_states := dput (re_key e) e (fr_states s) \<rparr>"

definition remove_part :: "file_epoch_key \<Rightarrow> reassembler \<Rightarrow> reassembler" where
  "remove_part k s = s\<lparr> fr_parts := ddel k (fr_parts s) \<rparr>"

text \<open>\<^verbatim>\<open>_release_state\<close>, on the state object \<open>e\<close> of the memory.\<close>

definition clear_row_reservation :: "file_epoch_key \<Rightarrow> reassembler \<Rightarrow> reassembler" where
  "clear_row_reservation k s =
     s\<lparr> fr_rows := map_option (\<lambda>rows. case map_of rows k of None \<Rightarrow> rows
           | Some row \<Rightarrow> dput k (row\<lparr> re_reservation_id := None \<rparr>) rows) (fr_rows s) \<rparr>"

definition release_state :: "reassembly_view \<Rightarrow> reassembly \<Rightarrow> reassembler \<Rightarrow> reassembly \<times> reassembler" where
  "release_state env e s =
     (case (re_reservation_id e, fr_guard s) of
        (Some i, Some g) \<Rightarrow>
          (e\<lparr> re_reservation_id := None \<rparr>,
           clear_row_reservation (re_key e) (s\<lparr> fr_guard := Some (fst (sg_release (fv_storage_now_us env) i g)) \<rparr>))
      | _ \<Rightarrow> (e, s))"

definition audit_failure :: "file_epoch_key \<Rightarrow> string \<Rightarrow> reassembler \<Rightarrow> reassembler" where
  "audit_failure k error_code s =
     (if fr_rows s = None then s else s\<lparr> fr_audit := fr_audit s @ [(k, error_code)] \<rparr>)"

text \<open>
  The end of an epoch: its state object is already changed when \<^verbatim>\<open>_persist_state\<close> runs, and an
  error there leaves the reservation and the part file. The audit entry comes in between.
\<close>

definition close_epoch ::
  "reassembly_view \<Rightarrow> string option \<Rightarrow> reassembly \<Rightarrow> reassembler \<Rightarrow> reassembler \<times> reassembly fr_res" where
  "close_epoch env failure e s =
     (case persist_state e s of
        (s, Inl err) \<Rightarrow> (put_state e s, Inl err)
      | (s, Inr _) \<Rightarrow>
          let s = (case failure of None \<Rightarrow> s | Some code \<Rightarrow> audit_failure (re_key e) code s);
              (e, s) = release_state env e s
          in (remove_part (re_key e) (put_state e s), Inr e))"

definition finish ::
  "reassembly_view \<Rightarrow> string option \<Rightarrow> py_dict option \<Rightarrow> reassembly \<Rightarrow> reassembler \<Rightarrow> reassembler \<times> reassembly_result fr_res" where
  "finish env failure product e s =
     (case close_epoch env failure e s of
        (s, Inl err) \<Rightarrow> (s, Inl err)
      | (s, Inr e) \<Rightarrow> (s, Inr (fr_result e product)))"

section \<open>START\<close>

definition reservation_owner :: "file_epoch_key \<Rightarrow> string" where
  "reservation_owner k =
     ''file-reassembly:'' @ hex_pad 16 (nat (fk_spacecraft_instance_id k)) @ '':'' @
     hex_pad 16 (nat (fk_link_session_id k)) @ '':'' @ hex_pad 16 (nat (fk_file_epoch_id k))"

text \<open>The headroom of a new epoch, for an hour; without a guard nothing is reserved.\<close>

definition reserve_headroom ::
  "reassembly_view \<Rightarrow> file_epoch_key \<Rightarrow> int \<Rightarrow> reassembler \<Rightarrow> reassembler \<times> int option fr_res" where
  "reserve_headroom env k expected_size s =
     (case fr_guard s of
        None \<Rightarrow> (s, Inr None)
      | Some g \<Rightarrow>
          (case sg_reserve (fv_storage_now_us env) (fv_used_bytes env) (reservation_owner k) expected_size HOUR_US g of
             (g, Inl e) \<Rightarrow> (s\<lparr> fr_guard := Some g \<rparr>,
                 Inl (if e = storage_full then Reassembly ''STORAGE_FULL'' else Raised e))
           | (g, Inr i) \<Rightarrow> (s\<lparr> fr_guard := Some g \<rparr>, Inr (Some i))))"

text \<open>\<^verbatim>\<open>INSERT INTO file_reassemblies\<close>, with its primary key and its unique transfer per spacecraft.\<close>

definition persist_start :: "reassembly \<Rightarrow> reassembler \<Rightarrow> reassembler \<times> unit fr_res" where
  "persist_start e s =
     (case fr_rows s of
        None \<Rightarrow> (s, Inr ())
      | Some rows \<Rightarrow>
          if map_of rows (re_key e) \<noteq> None \<or>
             list_ex (\<lambda>(k, row). fk_spacecraft_instance_id k = fk_spacecraft_instance_id (re_key e) \<and>
               re_transfer_id row = re_transfer_id e) rows
          then (s, Inl IntegrityError)
          else (s\<lparr> fr_rows := Some (dput (re_key e) e rows) \<rparr>, Inr ()))"

definition fr_start ::
  "reassembly_view \<Rightarrow> file_packet \<Rightarrow> file_epoch_key \<Rightarrow> int \<Rightarrow> request_key option \<Rightarrow> reassembler
   \<Rightarrow> reassembler \<times> reassembly_result fr_res" where
  "fr_start env packet k received_at_us origin s =
     (if fp_sequence_index packet \<noteq> 0 \<or> fp_offset packet \<noteq> 0 then (s, Inl (Reassembly ''INVALID_START''))
      else case read_start env (fp_payload packet) of
        Inl e \<Rightarrow> (s, Inl e)
      | Inr info \<Rightarrow>
      if pr_spacecraft_instance_id (si_product_ref info) \<noteq> fk_spacecraft_instance_id k
      then (s, Inl (Reassembly ''PRODUCT_TARGET_INSTANCE_MISMATCH''))
      else case map_of (fr_states s) k of
        Some existing \<Rightarrow>
          if re_start_payload existing = fp_payload packet then (s, Inr (fr_result existing None))
          else (s, Inl (Reassembly ''START_CONFLICT''))
      | None \<Rightarrow>
      if list_ex (\<lambda>e. fk_spacecraft_instance_id (re_key e) = fk_spacecraft_instance_id k \<and> re_state e = RECEIVING)
           (dvalues (fr_states s))
      then (s, Inl (Reassembly ''TRANSFER_BUSY''))
      else if si_file_size info > fr_max_bundle_bytes s then (s, Inl (Reassembly ''BUNDLE_TOO_LARGE''))
      else if si_file_size info > 0xFFFFFFFF then (s, Inl (Reassembly ''BUNDLE_TOO_LARGE''))
      else case reserve_headroom env k (si_file_size info) s of
        (s, Inl e) \<Rightarrow> (s, Inl e)
      | (s, Inr reservation) \<Rightarrow>
      if \<not> fv_can_stage env \<or> map_of (fr_parts s) k \<noteq> None
      then (case (reservation, fr_guard s) of
              (Some i, Some g) \<Rightarrow> s\<lparr> fr_guard := Some (fst (sg_release (fv_storage_now_us env) i g)) \<rparr>
            | _ \<Rightarrow> s, Inl (Reassembly ''STAGING_OPEN_FAILED''))
      else
        let s = s\<lparr> fr_parts := dput k [] (fr_parts s) \<rparr>;
            e = \<lparr> re_key = k, re_transfer_id = si_transfer_id info, re_product_ref = si_product_ref info,
              re_expected_size = si_file_size info, re_expected_file_checksum = si_checksum info,
              re_expected_bundle_sha256 = map char_of (bundle_sha_of (si_destination info)),
              re_source_name = si_source info, re_destination_name = si_destination info,
              re_state = RECEIVING, re_start_payload = fp_payload packet, re_terminal_reason = None,
              re_origin_request_key = origin, re_created_at_us = received_at_us,
              re_updated_at_us = received_at_us, re_reservation_id = reservation, re_bytes_received = 0,
              re_terminal_packet_type = None, re_terminal_sequence_index = None,
              re_terminal_payload_sha256 = None \<rparr>;
            s = (if fr_rows s = None then clear_index_metadata k s else s)
        in case persist_start e (put_state e s) of
             (s, Inr _) \<Rightarrow> (s, Inr (fr_result e None))
           | (s, Inl _) \<Rightarrow>
               let s = s\<lparr> fr_states := ddel k (fr_states s) \<rparr>; (_, s) = release_state env e s
               in (remove_part k s, Inl (Reassembly ''DURABLE_STATE_FAILED'')))"

section \<open>DATA\<close>

text \<open>\<^verbatim>\<open>seek\<close> and \<^verbatim>\<open>write\<close>: a hole below the offset is filled with zeros.\<close>

definition write_at :: "nat \<Rightarrow> bytes \<Rightarrow> bytes \<Rightarrow> bytes" where
  "write_at off data file =
     take off file @ replicate (off - length file) 0 @ data @ drop (off + length data) file"

text \<open>The bytes a range shares with the packet differ.\<close>

definition overlap_conflict :: "file_packet \<Rightarrow> bytes \<Rightarrow> int \<times> int \<Rightarrow> bool" where
  "overlap_conflict packet file = (\<lambda>(start, stop).
     let off = fp_offset packet; end_offset = off + int (length (fp_payload packet));
         a = max start off; b = min stop end_offset
     in a < b \<and> slice (nat a) (nat b) file \<noteq> slice (nat (a - off)) (nat (b - off)) (fp_payload packet))"

definition fr_data ::
  "reassembly_view \<Rightarrow> reassembly \<Rightarrow> file_packet \<Rightarrow> int \<Rightarrow> reassembler \<Rightarrow> reassembler \<times> reassembly_result fr_res" where
  "fr_data env e packet received_at_us s =
     (let off = fp_offset packet; payload = fp_payload packet; n = int (length payload); k = re_key e;
          missing = (s, Inl (Raised (OSError ''part file does not exist'')))
      in
      if fp_sequence_index packet = 0 then (s, Inl (Reassembly ''INVALID_DATA''))
      else if off > re_expected_size e \<or> payload = [] \<or> n > re_expected_size e - off
      then (s, Inl (Reassembly ''DATA_RANGE_INVALID''))
      else
        let end_offset = off + n; digest = fv_sha256 env payload in
        case packet_metadata k (fp_sequence_index packet) s of
          Some old \<Rightarrow>
            if old \<noteq> (off, n, digest) then (s, Inl (Reassembly ''FILE_PACKET_CONFLICT''))
            else (case map_of (fr_parts s) k of
                None \<Rightarrow> missing
              | Some file \<Rightarrow>
                  if slice (nat off) (nat end_offset) file \<noteq> payload
                  then (s, Inl (Reassembly ''FILE_PACKET_CONFLICT'')) else (s, Inr (fr_result e None)))
        | None \<Rightarrow>
            (case overlap_ranges k off end_offset s of
               Inl err \<Rightarrow> (s, Inl err)
             | Inr ranges \<Rightarrow>
            (case map_of (fr_parts s) k of
               None \<Rightarrow> missing
             | Some file \<Rightarrow>
               if list_ex (overlap_conflict packet file) ranges
               then (s, Inl (Reassembly ''FILE_PACKET_CONFLICT''))
               else
                 let s = s\<lparr> fr_parts := dput k (write_at (nat off) payload file) (fr_parts s) \<rparr>;
                     merged_start = fold min (map fst ranges) off;
                     merged_end = fold max (map snd ranges) end_offset;
                     previous_coverage = sum_list (map (\<lambda>(start, stop). stop - start) ranges);
                     bytes_received = re_bytes_received e + (merged_end - merged_start - previous_coverage);
                     e1 = e\<lparr> re_bytes_received := bytes_received, re_updated_at_us := received_at_us \<rparr>
                 in case persist_data_packet e1 (fp_sequence_index packet) (off, n, digest) ranges
                           (merged_start, merged_end) s of
                      (s, Inl err) \<Rightarrow> (s, Inl err)
                    | (s, Inr _) \<Rightarrow> (put_state e1 s, Inr (fr_result e1 None)))))"

section \<open>END and CANCEL\<close>

text \<open>\<^verbatim>\<open>stream.read(buffer_bytes)\<close> until it is empty.\<close>

function read_chunks :: "nat \<Rightarrow> bytes \<Rightarrow> bytes list" where
  "read_chunks n file = (if n = 0 \<or> file = [] then [] else take n file # read_chunks n (drop n file))"
  by auto
termination
  by (relation "measure (\<lambda>(n, file). length file)") auto

declare read_chunks.simps [simp del]

text \<open>\<^verbatim>\<open>stream_file_integrity\<close> of \<^verbatim>\<open>product_store.py\<close>: the streaming checksum with a limit.\<close>

fun integrity_loop :: "int option \<Rightarrow> stream_state \<Rightarrow> bytes list \<Rightarrow> stream_state option" where
  "integrity_loop max_bytes st [] = Some st"
| "integrity_loop max_bytes st (chunk # chunks) =
     (if (case max_bytes of None \<Rightarrow> False | Some m \<Rightarrow> int (st_size st + length chunk) > m) then None
      else integrity_loop max_bytes (stream_chunk st chunk) chunks)"

definition IO_BUFFER_BYTES :: nat where "IO_BUFFER_BYTES = 1024 * 1024"

text \<open>The result is the size, the digest and the checksum; \<open>Reassembly\<close> carries the code of a \<^verbatim>\<open>ProductVerificationError\<close>.\<close>

definition stream_file_integrity ::
  "(bytes \<Rightarrow> string) \<Rightarrow> int option \<Rightarrow> nat \<Rightarrow> bytes \<Rightarrow> (nat \<times> string \<times> nat) fr_res" where
  "stream_file_integrity sha256 max_bytes buffer_bytes file =
     (if buffer_bytes = 0 then Inl (Raised (ValueError ''buffer_bytes must be positive''))
      else if (case max_bytes of None \<Rightarrow> False | Some m \<Rightarrow> m < 0)
      then Inl (Raised (ValueError ''max_bytes must be non-negative''))
      else case integrity_loop max_bytes \<lparr> st_checksum = 0, st_size = 0, st_trailing = [], st_digest_input = [] \<rparr>
          (read_chunks buffer_bytes file) of
        None \<Rightarrow> Inl (Reassembly ''BUNDLE_TOO_LARGE'')
      | Some st \<Rightarrow> Inr (st_size st, sha256 (st_digest_input st),
         if st_trailing st \<noteq> []
         then add_u32 (st_checksum st) (be_val (st_trailing st @ replicate (4 - length (st_trailing st)) 0))
         else st_checksum st))"

text \<open>The \<^verbatim>\<open>try\<close> block of \<^verbatim>\<open>_end\<close>: the code of the failure it catches, or what was published.\<close>

definition verify_bundle_file :: "reassembly_view \<Rightarrow> reassembly \<Rightarrow> bytes \<Rightarrow> reassembler \<Rightarrow> publication" where
  "verify_bundle_file env e checksum s =
     (case map_of (fr_parts s) (re_key e) of
        None \<Rightarrow> Rejected ''PRODUCT_VERIFY_FAILED''
      | Some file \<Rightarrow>
          (case stream_file_integrity (fv_sha256 env) (Some (re_expected_size e)) IO_BUFFER_BYTES file of
             Inl (Reassembly code) \<Rightarrow> Rejected code
           | Inl _ \<Rightarrow> Rejected ''PRODUCT_VERIFY_FAILED''
           | Inr (file_size, sha, cfdp) \<Rightarrow>
          if int file_size \<noteq> re_expected_size e then Rejected ''FILE_SIZE_MISMATCH''
          else if be_val checksum \<noteq> cfdp \<or> int cfdp \<noteq> re_expected_file_checksum e
          then Rejected ''FILE_CHECKSUM_MISMATCH''
          else if sha \<noteq> re_expected_bundle_sha256 e then Rejected ''BUNDLE_SHA_MISMATCH''
          else case fv_publish env of
            None \<Rightarrow> Published []
          | Some publish \<Rightarrow> publish file e))"

text \<open>Without a product store the result carries no product.\<close>

definition fr_end ::
  "reassembly_view \<Rightarrow> reassembly \<Rightarrow> file_packet \<Rightarrow> int \<Rightarrow> reassembler \<Rightarrow> reassembler \<times> reassembly_result fr_res" where
  "fr_end env e packet received_at_us s =
     (if fp_sequence_index packet \<noteq> next_sequence (re_key e) s \<or> fp_offset packet \<noteq> re_expected_size e \<or>
         length (fp_payload packet) \<noteq> 4
      then (s, Inl (Reassembly ''INVALID_END''))
      else
        let e = e\<lparr> re_terminal_packet_type := Some END, re_terminal_sequence_index := Some (fp_sequence_index packet),
              re_terminal_payload_sha256 := Some (fv_sha256 env (fp_payload packet)),
              re_updated_at_us := received_at_us \<rparr>
        in if \<not> coverage_complete e s
           then finish env None None (e\<lparr> re_state := INCOMPLETE, re_terminal_reason := Some ''GAP'' \<rparr>) s
           else case verify_bundle_file env e (fp_payload packet) s of
             Failed err \<Rightarrow> (put_state e s, Inl (Raised err))
           | Rejected code \<Rightarrow>
               finish env (Some code) None (e\<lparr> re_state := CHECKSUM_FAILED, re_terminal_reason := Some code \<rparr>) s
           | Published product \<Rightarrow>
               finish env None (if fv_publish env = None then None else Some product)
                 (e\<lparr> re_state := VERIFIED, re_terminal_reason := None \<rparr>) s)"

definition fr_cancel ::
  "reassembly_view \<Rightarrow> reassembly \<Rightarrow> file_packet \<Rightarrow> int \<Rightarrow> reassembler \<Rightarrow> reassembler \<times> reassembly_result fr_res" where
  "fr_cancel env e packet received_at_us s =
     (if fp_sequence_index packet \<noteq> next_sequence (re_key e) s then (s, Inl (Reassembly ''INVALID_CANCEL''))
      else finish env None None
        (e\<lparr> re_terminal_packet_type := Some CANCEL, re_terminal_sequence_index := Some (fp_sequence_index packet),
           re_terminal_payload_sha256 := Some (fv_sha256 env (fp_payload packet)), re_state := EPOCH_CANCELED,
           re_terminal_reason := Some ''REMOTE_CANCEL'', re_updated_at_us := received_at_us \<rparr>) s)"

section \<open>Receiving a packet\<close>

definition is_duplicate_terminal :: "reassembly_view \<Rightarrow> reassembly \<Rightarrow> file_packet \<Rightarrow> bool" where
  "is_duplicate_terminal env e packet \<longleftrightarrow>
     re_terminal_packet_type e = Some (fp_type packet) \<and>
     re_terminal_sequence_index e = Some (fp_sequence_index packet) \<and>
     re_terminal_payload_sha256 e = Some (fv_sha256 env (fp_payload packet))"

definition fr_receive ::
  "reassembly_view \<Rightarrow> file_packet \<Rightarrow> int \<Rightarrow> int \<Rightarrow> int \<Rightarrow> int \<Rightarrow> request_key option \<Rightarrow> reassembler
   \<Rightarrow> reassembler \<times> reassembly_result fr_res" where
  "fr_receive env packet instance_id session epoch received_at_us origin s =
     (case new_file_epoch_key instance_id session epoch of
        Inl e \<Rightarrow> (s, Inl (Raised e))
      | Inr k \<Rightarrow>
      if received_at_us < 0 then (s, Inl (Raised (ValueError ''received_at_us must be non-negative'')))
      else if fp_type packet = START then fr_start env packet k received_at_us origin s
      else case map_of (fr_states s) k of
        None \<Rightarrow>
          (s\<lparr> fr_missing_start := dput k ''MISSING_START'' (fr_missing_start s) \<rparr>,
           Inr \<lparr> rr_key = k, rr_state = INCOMPLETE, rr_transfer_id = None, rr_product_ref = None,
             rr_bytes_received = 0, rr_expected_size = None, rr_reason = Some ''MISSING_START'', rr_product = None \<rparr>)
      | Some e \<Rightarrow>
      if re_state e \<noteq> RECEIVING then
        (if is_duplicate_terminal env e packet then (s, Inr (fr_result e None))
         else (s, Inl (Reassembly ''FILE_PACKET_CONFLICT'')))
      else case fp_type packet of
        DATA \<Rightarrow> fr_data env e packet received_at_us s
      | END \<Rightarrow> fr_end env e packet received_at_us s
      | CANCEL \<Rightarrow> fr_cancel env e packet received_at_us s
      | START \<Rightarrow> (s, Inl (Reassembly ''UNKNOWN_FILE_PACKET'')))"

section \<open>Expiry and restart\<close>

definition expired_epoch :: "int \<Rightarrow> reassembler \<Rightarrow> reassembly \<Rightarrow> bool" where
  "expired_epoch now s e \<longleftrightarrow>
     \<not> (re_state e \<noteq> RECEIVING \<or> (re_updated_at_us e = 0 \<and> \<not> fr_clock_injected s) \<or>
        re_updated_at_us e + fr_reassembly_timeout_us s > now)"

text \<open>The loop of \<^verbatim>\<open>reconcile\<close> over the states as they were when it began; an error of the table ends it.\<close>

fun expire_epochs ::
  "reassembly_view \<Rightarrow> int \<Rightarrow> reassembly list \<Rightarrow> reassembler \<Rightarrow> reassembler \<times> file_epoch_key list fr_res" where
  "expire_epochs env now [] s = (s, Inr [])"
| "expire_epochs env now (e # es) s =
     (if \<not> expired_epoch now s e then expire_epochs env now es s
      else case close_epoch env (Some ''REASSEMBLY_TIMEOUT'')
             (e\<lparr> re_state := EPOCH_CANCELED, re_terminal_reason := Some ''REASSEMBLY_TIMEOUT'',
                re_updated_at_us := now \<rparr>) s of
        (s, Inl err) \<Rightarrow> (s, Inl err)
      | (s, Inr e) \<Rightarrow>
          (case expire_epochs env now es s of
             (s, Inl err) \<Rightarrow> (s, Inl err)
           | (s, Inr expired) \<Rightarrow> (s, Inr (re_key e # expired))))"

definition fr_reconcile :: "reassembly_view \<Rightarrow> int \<Rightarrow> reassembler \<Rightarrow> reassembler \<times> file_epoch_key list fr_res" where
  "fr_reconcile env now s =
     (if now < 0 then (s, Inl (Raised (ValueError ''now_us must be a non-negative integer'')))
      else
        let s = s\<lparr> fr_guard := map_option (sg_expire (fv_storage_now_us env)) (fr_guard s) \<rparr>
        in expire_epochs env now (dvalues (fr_states s)) s)"

text \<open>
  \<^verbatim>\<open>_load_durable_states\<close>: the rows still RECEIVING come back, and one whose part file is gone is
  canceled. The origin request is not a column, so it is lost.
\<close>

fun load_rows :: "reassembly_view \<Rightarrow> reassembly list \<Rightarrow> reassembler \<Rightarrow> reassembler \<times> unit fr_res" where
  "load_rows env [] s = (s, Inr ())"
| "load_rows env (row # rows) s =
     (let e = row\<lparr> re_origin_request_key := None \<rparr>; s = put_state e s in
      if map_of (fr_parts s) (re_key e) \<noteq> None then load_rows env rows s
      else
        let e = e\<lparr> re_state := EPOCH_CANCELED, re_terminal_reason := Some ''STAGING_MISSING'' \<rparr> in
        case persist_state e s of
          (s, Inl err) \<Rightarrow> (put_state e s, Inl err)
        | (s, Inr _) \<Rightarrow>
            let (e, s) = release_state env e s in load_rows env rows (put_state e s))"

text \<open>\<^verbatim>\<open>LIKE 'file-reassembly:%'\<close>, without regard to the case of letters.\<close>

definition lower_ascii :: "char \<Rightarrow> char" where
  "lower_ascii ch = (if 65 \<le> (of_char ch :: nat) \<and> (of_char ch :: nat) \<le> 90 then char_of ((of_char ch :: nat) + 32) else ch)"

definition reassembly_owner :: "string \<Rightarrow> bool" where
  "reassembly_owner owner \<longleftrightarrow> map lower_ascii (take 16 owner) = ''file-reassembly:''"

definition release_orphans :: "reassembly_view \<Rightarrow> reassembler \<Rightarrow> reassembler" where
  "release_orphans env s =
     (case (fr_rows s, fr_guard s) of
        (Some _, Some g) \<Rightarrow>
          let owners = map (reservation_owner \<circ> re_key)
                (filter (\<lambda>e. re_state e = RECEIVING \<and> re_reservation_id e \<noteq> None) (dvalues (fr_states s)));
              rows = filter (\<lambda>r. rv_volume r = sg_volume g \<and> rv_state r = ACTIVE \<and> reassembly_owner (rv_owner r))
                (sg_reservations g)
          in s\<lparr> fr_guard := Some (fold (\<lambda>r g. if rv_owner r \<notin> set owners
                  then fst (sg_release (fv_storage_now_us env) (rv_reservation_id r) g) else g) rows g) \<rparr>
      | _ \<Rightarrow> s)"

text \<open>The constructor, on the tables and the part files an earlier process left; \<open>now\<close> is \<^verbatim>\<open>clock_us()\<close>.\<close>

definition fr_restart :: "reassembly_view \<Rightarrow> int \<Rightarrow> reassembler \<Rightarrow> reassembler \<times> unit fr_res" where
  "fr_restart env now s =
     (let s = s\<lparr> fr_states := [], fr_missing_start := [] \<rparr> in
      case (case fr_rows s of None \<Rightarrow> (s, Inr ())
            | Some rows \<Rightarrow> load_rows env (filter (\<lambda>row. re_state row = RECEIVING) (dvalues rows)) s) of
        (s, Inl err) \<Rightarrow> (s, Inl err)
      | (s, Inr _) \<Rightarrow>
          (case fr_reconcile env now (release_orphans env s) of
             (s, Inl err) \<Rightarrow> (s, Inl err)
           | (s, Inr _) \<Rightarrow> (s, Inr ())))"

end
