(* ===== verification/SessionManager.thy ===== *)
theory SessionManager
  imports Interfaces
begin

text \<open>
  \<^verbatim>\<open>link_sim/session_manager.py\<close>: sessions, their generations, and the test that keeps the
  packets of an old boot or session out. A \<^verbatim>\<open>Session\<close> object is shared by the two
  dictionaries of the manager and mutated in place, so the history is the store here and the
  dictionary of active sessions holds session ids, the references into it.
  \<^verbatim>\<open>create_session\<close> closes the old session before it can raise, so an operation returns the
  state together with its result.
\<close>

section \<open>Data\<close>

datatype session_state = ACTIVE | CLOSING | CLOSED

record session =
  ss_session_id :: int
  ss_spacecraft_instance_id :: int
  ss_sender_boot_id :: int
  ss_state :: session_state
  ss_generation :: int
  ss_created_at_ns :: int
  ss_closed_at_ns :: "int option"

record session_manager =
  sm_active_sessions :: "(int, int) dict"
  sm_session_history :: "(int, session) dict"
  sm_next_session_id :: int
  sm_generation_floors :: "(int, int) dict"

definition MAX_U64 :: int where "MAX_U64 = 0xFFFFFFFFFFFFFFFF"

section \<open>Operations\<close>

definition sm_init :: "int \<Rightarrow> (int, int) dict \<Rightarrow> session_manager res" where
  "sm_init next_session_id generation_floors =
     (if \<not> (1 \<le> next_session_id \<and> next_session_id \<le> MAX_U64)
      then Inl (ValueError ''next_session_id must fit U64 and be positive'')
      else if \<not> list_all (\<lambda>(inst, gen). 1 \<le> inst \<and> inst \<le> MAX_U64 \<and> 0 \<le> gen \<and> gen \<le> MAX_U64)
             generation_floors
      then Inl (ValueError ''generation_floors must contain U64 instance and generation values'')
      else Inr \<lparr> sm_active_sessions = [], sm_session_history = [],
             sm_next_session_id = next_session_id, sm_generation_floors = generation_floors \<rparr>)"

definition sm_get_session :: "session_manager \<Rightarrow> int \<Rightarrow> session option" where
  "sm_get_session s session_id = map_of (sm_session_history s) session_id"

definition sm_get_active_session :: "session_manager \<Rightarrow> int \<Rightarrow> session option" where
  "sm_get_active_session s inst =
     (case map_of (sm_active_sessions s) inst of None \<Rightarrow> None | Some sid \<Rightarrow> sm_get_session s sid)"

text \<open>Closing the session that is still active when another is created.\<close>

definition sm_close_old :: "int \<Rightarrow> int \<Rightarrow> session_manager \<Rightarrow> session_manager" where
  "sm_close_old inst current_time_ns s =
     (case sm_get_active_session s inst of
        None \<Rightarrow> s
      | Some old \<Rightarrow> s\<lparr> sm_session_history := dput (ss_session_id old)
            (old\<lparr> ss_state := CLOSING, ss_closed_at_ns := Some current_time_ns \<rparr>)
            (sm_session_history s) \<rparr>)"

definition sm_prior_generations :: "session_manager \<Rightarrow> int \<Rightarrow> int list" where
  "sm_prior_generations s inst =
     map ss_generation (filter (\<lambda>item. ss_spacecraft_instance_id item = inst)
       (dvalues (sm_session_history s)))"

definition sm_floor :: "session_manager \<Rightarrow> int \<Rightarrow> int" where
  "sm_floor s inst = (case map_of (sm_generation_floors s) inst of None \<Rightarrow> 0 | Some g \<Rightarrow> g)"

definition sm_create_session :: "int \<Rightarrow> int \<Rightarrow> int \<Rightarrow> session_manager \<Rightarrow> session_manager \<times> int res" where
  "sm_create_session inst boot current_time_ns s0 =
     (let s = sm_close_old inst current_time_ns s0;
          session_id = sm_next_session_id s
      in if session_id \<ge> MAX_U64
         then (s, Inl (RuntimeError ''link session ID allocator exhausted''))
         else
           let s = s\<lparr> sm_next_session_id := sm_next_session_id s + 1 \<rparr>;
               generation = foldl max (sm_floor s inst) (sm_prior_generations s inst) + 1
           in if generation > MAX_U64
              then (s, Inl (RuntimeError ''link generation allocator exhausted''))
              else
                let session = \<lparr> ss_session_id = session_id, ss_spacecraft_instance_id = inst,
                      ss_sender_boot_id = boot, ss_state = ACTIVE, ss_generation = generation,
                      ss_created_at_ns = current_time_ns, ss_closed_at_ns = None \<rparr>
                in (s\<lparr> sm_active_sessions := dput inst session_id (sm_active_sessions s),
                       sm_session_history := dput session_id session (sm_session_history s),
                       sm_generation_floors := dput inst generation (sm_generation_floors s) \<rparr>,
                    Inr session_id))"

definition sm_checkpoint :: "session_manager \<Rightarrow> int \<times> (int, int) dict" where
  "sm_checkpoint s = (sm_next_session_id s, sm_generation_floors s)"

definition sm_close_session :: "int \<Rightarrow> int \<Rightarrow> session_manager \<Rightarrow> session_manager \<times> session option" where
  "sm_close_session session_id current_time_ns s =
     (case sm_get_session s session_id of
        None \<Rightarrow> (s, None)
      | Some session \<Rightarrow>
          if ss_state session = CLOSED then (s, Some session)
          else
            let session = session\<lparr> ss_state := CLOSED, ss_closed_at_ns := Some current_time_ns \<rparr>;
                s = s\<lparr> sm_session_history := dput session_id session (sm_session_history s) \<rparr>;
                inst = ss_spacecraft_instance_id session
            in (if sm_get_active_session s inst = Some session
                then s\<lparr> sm_active_sessions := ddel inst (sm_active_sessions s) \<rparr> else s,
                Some session))"

fun state_value :: "session_state \<Rightarrow> string" where
  "state_value ACTIVE = ''ACTIVE''"
| "state_value CLOSING = ''CLOSING''"
| "state_value CLOSED = ''CLOSED''"

definition sm_validate_packet :: "session_manager \<Rightarrow> int \<Rightarrow> int \<Rightarrow> int \<Rightarrow> bool \<times> string option" where
  "sm_validate_packet s session_id boot inst =
     (case sm_get_session s session_id of
        None \<Rightarrow> (False, Some ''UNKNOWN_SESSION'')
      | Some session \<Rightarrow>
          if ss_state session \<noteq> ACTIVE
          then (False, Some (''SESSION_'' @ state_value (ss_state session)))
          else if ss_sender_boot_id session \<noteq> boot then (False, Some ''SENDER_BOOT_MISMATCH'')
          else if ss_spacecraft_instance_id session \<noteq> inst then (False, Some ''INSTANCE_MISMATCH'')
          else
            case sm_get_active_session s inst of
              None \<Rightarrow> (False, Some ''STALE_SESSION'')
            | Some active \<Rightarrow>
                if ss_session_id active \<noteq> session_id then (False, Some ''STALE_SESSION'')
                else (True, None))"

definition sm_should_drop_packet :: "session_manager \<Rightarrow> int \<Rightarrow> int \<Rightarrow> bool \<times> string" where
  "sm_should_drop_packet s session_id boot =
     (case sm_get_session s session_id of
        None \<Rightarrow> (True, ''UNKNOWN_SESSION'')
      | Some session \<Rightarrow>
          if ss_state session = CLOSED then (True, ''SESSION_CLOSED'')
          else if ss_sender_boot_id session \<noteq> boot then (True, ''BOOT_MISMATCH'')
          else if ss_state session = CLOSING then (True, ''SESSION_CLOSING'')
          else (False, ''ACTIVE''))"

record session_stats =
  st_active_sessions :: nat
  st_closing_sessions :: nat
  st_closed_sessions :: nat
  st_total_sessions :: nat
  st_next_session_id :: int

definition sm_get_stats :: "session_manager \<Rightarrow> session_stats" where
  "sm_get_stats s =
     (let states = map ss_state (dvalues (sm_session_history s)) in
      \<lparr> st_active_sessions = length (sm_active_sessions s),
        st_closing_sessions = length (filter (\<lambda>x. x = CLOSING) states),
        st_closed_sessions = length (filter (\<lambda>x. x = CLOSED) states),
        st_total_sessions = length (sm_session_history s),
        st_next_session_id = sm_next_session_id s \<rparr>)"

text \<open>
  The operations that change state. A restart builds a new manager from the checkpoint of
  the old one; when the constructor refuses the checkpoint no new manager comes up.
\<close>

datatype session_op =
    Create int int int      \<comment> \<open>instance, boot, time\<close>
  | Close int int           \<comment> \<open>session id, time\<close>
  | Restart

fun sm_step :: "session_manager \<Rightarrow> session_op \<Rightarrow> session_manager" where
  "sm_step s (Create inst boot t) = fst (sm_create_session inst boot t s)"
| "sm_step s (Close session_id t) = fst (sm_close_session session_id t s)"
| "sm_step s Restart =
     (case sm_checkpoint s of (n, floors) \<Rightarrow>
        case sm_init n floors of Inl _ \<Rightarrow> s | Inr s' \<Rightarrow> s')"

section \<open>The invariant\<close>

text \<open>
  The history is keyed by session id, below the next id; an active entry refers to a session
  of its instance; every session still in state ACTIVE is the active entry of its instance;
  no session has a generation above the floor of its instance.
\<close>

definition sm_inv :: "session_manager \<Rightarrow> bool" where
  "sm_inv s \<longleftrightarrow>
     distinct (dkeys (sm_session_history s)) \<and>
     (\<forall>sid x. sm_get_session s sid = Some x \<longrightarrow>
        ss_session_id x = sid \<and> sid < sm_next_session_id s \<and>
        ss_generation x \<le> sm_floor s (ss_spacecraft_instance_id x) \<and>
        (ss_state x = ACTIVE \<longrightarrow>
           map_of (sm_active_sessions s) (ss_spacecraft_instance_id x) = Some sid)) \<and>
     (\<forall>inst sid. map_of (sm_active_sessions s) inst = Some sid \<longrightarrow>
        map_option ss_spacecraft_instance_id (sm_get_session s sid) = Some inst)"

lemma sm_invI:
  assumes "distinct (dkeys (sm_session_history s))"
    and "\<And>sid x. sm_get_session s sid = Some x \<Longrightarrow>
      ss_session_id x = sid \<and> sid < sm_next_session_id s \<and>
      ss_generation x \<le> sm_floor s (ss_spacecraft_instance_id x)"
    and "\<And>sid x. sm_get_session s sid = Some x \<Longrightarrow> ss_state x = ACTIVE \<Longrightarrow>
      map_of (sm_active_sessions s) (ss_spacecraft_instance_id x) = Some sid"
    and "\<And>inst sid. map_of (sm_active_sessions s) inst = Some sid \<Longrightarrow>
      map_option ss_spacecraft_instance_id (sm_get_session s sid) = Some inst"
  shows "sm_inv s"
  using assms unfolding sm_inv_def by blast

lemma sm_invD:
  assumes "sm_inv s"
  shows "distinct (dkeys (sm_session_history s))"
    and "sm_get_session s sid = Some x \<Longrightarrow> ss_session_id x = sid"
    and "sm_get_session s sid = Some x \<Longrightarrow> sid < sm_next_session_id s"
    and "sm_get_session s sid = Some x \<Longrightarrow> ss_generation x \<le> sm_floor s (ss_spacecraft_instance_id x)"
    and "sm_get_session s sid = Some x \<Longrightarrow> ss_state x = ACTIVE \<Longrightarrow>
      map_of (sm_active_sessions s) (ss_spacecraft_instance_id x) = Some sid"
    and "map_of (sm_active_sessions s) inst = Some sid \<Longrightarrow>
      \<exists>x. sm_get_session s sid = Some x \<and> ss_spacecraft_instance_id x = inst"
  using assms unfolding sm_inv_def by (blast, blast, blast, blast, blast, auto)

lemmas sm_lookups = sm_get_session_def sm_get_active_session_def

lemma sm_init_inv: "sm_init n floors = Inr s \<Longrightarrow> sm_inv s"
  by (auto simp: sm_init_def sm_inv_def sm_lookups)

lemma sm_close_old_frame [simp]:
  "sm_next_session_id (sm_close_old inst t s) = sm_next_session_id s"
  "sm_generation_floors (sm_close_old inst t s) = sm_generation_floors s"
  "sm_active_sessions (sm_close_old inst t s) = sm_active_sessions s"
  by (simp_all add: sm_close_old_def split: option.splits)

lemma sm_close_old_lookup:
  assumes "sm_inv s"
  shows "sm_get_session (sm_close_old inst t s) sid =
    (if map_of (sm_active_sessions s) inst = Some sid
     then map_option (\<lambda>x. x\<lparr> ss_state := CLOSING, ss_closed_at_ns := Some t \<rparr>) (sm_get_session s sid)
     else sm_get_session s sid)"
  using assms by (fastforce simp: sm_close_old_def sm_inv_def sm_lookups split: option.splits)

lemma sm_floor_close_old [simp]: "sm_floor (sm_close_old inst t s) = sm_floor s"
  by (simp add: sm_floor_def fun_eq_iff)

lemma sm_close_old_inv: "sm_inv s \<Longrightarrow> sm_inv (sm_close_old inst t s)"
  unfolding sm_inv_def [of "sm_close_old inst t s"]
proof (intro conjI allI impI)
  assume inv: "sm_inv s"
  show "distinct (dkeys (sm_session_history (sm_close_old inst t s)))"
    using inv by (simp add: sm_inv_def sm_close_old_def split: option.splits)
qed (fastforce simp: sm_close_old_lookup sm_inv_def split: if_splits)+

lemma foldl_max: "(x :: int) \<le> foldl max x ys \<and> (\<forall>y \<in> set ys. y \<le> foldl max x ys)"
proof (induction ys arbitrary: x)
  case Nil
  then show ?case by simp
next
  case (Cons y ys)
  from Cons.IH [of "max x y"] show ?case by auto
qed

text \<open>The two outcomes of a creation, after the old session is closed.\<close>

lemma sm_create_cases:
  obtains (full) e where "sm_create_session inst boot t s = (sm_close_old inst t s, Inl e)"
    "sm_next_session_id s \<ge> MAX_U64"
  | (exhausted) e where "sm_create_session inst boot t s =
      ((sm_close_old inst t s)\<lparr> sm_next_session_id := sm_next_session_id s + 1 \<rparr>, Inl e)"
  | (created) gen s1 where
      "s1 = sm_close_old inst t s"
      "sm_floor s inst < gen" "gen \<le> MAX_U64" "sm_next_session_id s < MAX_U64"
      "sm_create_session inst boot t s =
        (\<lparr> sm_active_sessions = dput inst (sm_next_session_id s) (sm_active_sessions s),
           sm_session_history = dput (sm_next_session_id s)
             \<lparr> ss_session_id = sm_next_session_id s, ss_spacecraft_instance_id = inst,
               ss_sender_boot_id = boot, ss_state = ACTIVE, ss_generation = gen,
               ss_created_at_ns = t, ss_closed_at_ns = None \<rparr> (sm_session_history s1),
           sm_next_session_id = sm_next_session_id s + 1,
           sm_generation_floors = dput inst gen (sm_generation_floors s) \<rparr>,
         Inr (sm_next_session_id s))"
proof -
  let ?s1 = "(sm_close_old inst t s)\<lparr> sm_next_session_id := sm_next_session_id s + 1 \<rparr>"
  define gen where "gen = foldl max (sm_floor ?s1 inst) (sm_prior_generations ?s1 inst) + 1"
  have gen: "sm_floor s inst < gen"
    using foldl_max [of "sm_floor ?s1 inst" "sm_prior_generations ?s1 inst"]
    by (simp add: gen_def sm_floor_def)
  show ?thesis
  proof (cases "sm_next_session_id s \<ge> MAX_U64")
    case True
    then show ?thesis using full by (simp add: sm_create_session_def Let_def)
  next
    case False
    show ?thesis
    proof (cases "gen > MAX_U64")
      case True
      with False show ?thesis
        using exhausted by (simp add: sm_create_session_def Let_def gen_def)
    next
      case f: False
      then have "\<not> MAX_U64 \<le> foldl max (sm_floor ?s1 inst) (sm_prior_generations ?s1 inst)"
        by (simp add: gen_def)
      with f False gen show ?thesis
        by (intro created [of "sm_close_old inst t s" gen])
          (simp_all add: sm_create_session_def Let_def flip: gen_def)
    qed
  qed
qed

lemma sm_create_inv:
  assumes inv: "sm_inv s"
  shows "sm_inv (fst (sm_create_session inst boot t s))"
proof (cases rule: sm_create_cases [of inst boot t s])
  case (full e)
  then show ?thesis using sm_close_old_inv [OF inv] by simp
next
  case (exhausted e)
  then show ?thesis
    using sm_close_old_inv [OF inv, of inst t]
    by (fastforce simp: sm_inv_def sm_lookups sm_floor_def)
next
  case (created gen s1)
  let ?s' = "fst (sm_create_session inst boot t s)" and ?n = "sm_next_session_id s"
  note D = sm_invD [OF inv]
  have look: "sm_get_session s1 sid =
    (if map_of (sm_active_sessions s) inst = Some sid
     then map_option (\<lambda>x. x\<lparr> ss_state := CLOSING, ss_closed_at_ns := Some t \<rparr>) (sm_get_session s sid)
     else sm_get_session s sid)" for sid
    unfolding created(1) by (rule sm_close_old_lookup [OF inv])
  have get: "sm_get_session ?s' sid = (if sid = ?n
      then Some \<lparr> ss_session_id = ?n, ss_spacecraft_instance_id = inst, ss_sender_boot_id = boot,
        ss_state = ACTIVE, ss_generation = gen, ss_created_at_ns = t, ss_closed_at_ns = None \<rparr>
      else sm_get_session s1 sid)" for sid
    unfolding created(5) by (simp add: sm_get_session_def)
  have active: "map_of (sm_active_sessions ?s') i =
      (if i = inst then Some ?n else map_of (sm_active_sessions s) i)" for i
    unfolding created(5) by simp
  have fl: "sm_floor ?s' i = (if i = inst then gen else sm_floor s i)" for i
    unfolding created(5) by (simp add: sm_floor_def)
  have old: "\<exists>y. sm_get_session s sid = Some y \<and> ss_session_id x = ss_session_id y \<and>
      ss_spacecraft_instance_id x = ss_spacecraft_instance_id y \<and> ss_generation x = ss_generation y \<and>
      (ss_state x = ACTIVE \<longrightarrow> x = y \<and> map_of (sm_active_sessions s) inst \<noteq> Some sid)"
    if "sm_get_session s1 sid = Some x" for sid x
    using that unfolding look by (auto split: if_splits)
  show ?thesis
  proof (rule sm_invI)
    show "distinct (dkeys (sm_session_history ?s'))"
      using sm_invD(1) [OF sm_close_old_inv [OF inv, of inst t]] unfolding created(5) by (simp add: created(1))
  next
    fix sid x
    assume x: "sm_get_session ?s' sid = Some x"
    have n: "sm_next_session_id ?s' = ?n + 1" unfolding created(5) by simp
    show "ss_session_id x = sid \<and> sid < sm_next_session_id ?s' \<and>
        ss_generation x \<le> sm_floor ?s' (ss_spacecraft_instance_id x)"
    proof (cases "sid = ?n")
      case True
      then show ?thesis using x unfolding get n fl by auto
    next
      case False
      then obtain y where "sm_get_session s sid = Some y" "ss_session_id x = ss_session_id y"
        "ss_spacecraft_instance_id x = ss_spacecraft_instance_id y" "ss_generation x = ss_generation y"
        using x old unfolding get by auto
      then show ?thesis using D(2-4) [of sid y] created(2) unfolding n fl by auto
    qed
  next
    fix sid x
    assume x: "sm_get_session ?s' sid = Some x" and a: "ss_state x = ACTIVE"
    show "map_of (sm_active_sessions ?s') (ss_spacecraft_instance_id x) = Some sid"
    proof (cases "sid = ?n")
      case True
      then show ?thesis using x unfolding get active by auto
    next
      case False
      then have "sm_get_session s sid = Some x" "map_of (sm_active_sessions s) inst \<noteq> Some sid"
        using x old a unfolding get by auto
      with D(5) [of sid x] a show ?thesis unfolding active by auto
    qed
  next
    fix i sid
    assume m: "map_of (sm_active_sessions ?s') i = Some sid"
    show "map_option ss_spacecraft_instance_id (sm_get_session ?s' sid) = Some i"
    proof (cases "i = inst")
      case True
      then show ?thesis using m unfolding active get by auto
    next
      case False
      then have "map_of (sm_active_sessions s) i = Some sid" using m unfolding active by simp
      from D(6) [OF this] obtain x where "sm_get_session s sid = Some x" "ss_spacecraft_instance_id x = i"
        by blast
      with D(3) [of sid x] show ?thesis unfolding get look by auto
    qed
  qed
qed

definition closed_session :: "int \<Rightarrow> session \<Rightarrow> session" where
  "closed_session t x =
     (if ss_state x = CLOSED then x
      else x\<lparr> ss_state := CLOSED, ss_closed_at_ns := Some t \<rparr>)"

lemma closed_session_simps [simp]:
  "ss_state (closed_session t x) = CLOSED"
  "ss_session_id (closed_session t x) = ss_session_id x"
  "ss_spacecraft_instance_id (closed_session t x) = ss_spacecraft_instance_id x"
  "ss_generation (closed_session t x) = ss_generation x"
  by (simp_all add: closed_session_def)

lemma sm_close_lookup:
  "sm_get_session (fst (sm_close_session sid0 t s)) sid =
    (if sid = sid0 then map_option (closed_session t) (sm_get_session s sid)
     else sm_get_session s sid)"
  by (simp add: sm_close_session_def sm_get_session_def closed_session_def Let_def split: option.splits)

lemma sm_close_frame [simp]:
  "sm_next_session_id (fst (sm_close_session sid0 t s)) = sm_next_session_id s"
  "sm_floor (fst (sm_close_session sid0 t s)) = sm_floor s"
  by (simp_all add: sm_close_session_def sm_floor_def Let_def fun_eq_iff split: option.splits)

lemma if_fun_upd: "F = (if P then g(i := y) else g) \<Longrightarrow> F j = (if P \<and> j = i then y else g j)"
  by simp

lemma sm_close_active:
  assumes "sm_inv s"
  shows "map_of (sm_active_sessions (fst (sm_close_session sid0 t s))) inst =
    (if map_of (sm_active_sessions s) inst = Some sid0 \<and>
        map_option ss_state (sm_get_session s sid0) \<noteq> Some CLOSED
     then None else map_of (sm_active_sessions s) inst)"
proof (cases "sm_get_session s sid0")
  case None
  then show ?thesis using assms by (fastforce simp: sm_close_session_def sm_inv_def)
next
  case (Some x)
  let ?y = "x\<lparr> ss_state := CLOSED, ss_closed_at_ns := Some t \<rparr>"
  let ?s = "s\<lparr> sm_session_history := dput sid0 ?y (sm_session_history s) \<rparr>"
  have "sm_get_active_session ?s (ss_spacecraft_instance_id x) = Some ?y \<longleftrightarrow>
      map_of (sm_active_sessions s) (ss_spacecraft_instance_id x) = Some sid0"
    if "ss_state x \<noteq> CLOSED"
  proof (cases "map_of (sm_active_sessions s) (ss_spacecraft_instance_id x)")
    case None
    then show ?thesis by (simp add: sm_lookups)
  next
    case (Some sid)
    have "ss_session_id ?y = sid0" using assms \<open>sm_get_session s sid0 = Some x\<close> by (simp add: sm_inv_def)
    moreover have "ss_session_id z = sid" if "sm_get_session s sid = Some z" for z
      using assms that by (simp add: sm_inv_def)
    ultimately have "sid \<noteq> sid0 \<Longrightarrow> sm_get_session s sid \<noteq> Some ?y" by blast
    with Some show ?thesis by (auto simp: sm_lookups)
  qed
  moreover have "ss_spacecraft_instance_id x = inst" if "map_of (sm_active_sessions s) inst = Some sid0"
    using assms Some that by (fastforce simp: sm_inv_def)
  ultimately show ?thesis
  proof (cases "ss_state x = CLOSED")
    case True
    then show ?thesis using Some by (simp add: sm_close_session_def)
  next
    case False
    assume i: "map_of (sm_active_sessions s) inst = Some sid0 \<Longrightarrow> ss_spacecraft_instance_id x = inst"
      and e: "ss_state x \<noteq> CLOSED \<Longrightarrow>
        (sm_get_active_session ?s (ss_spacecraft_instance_id x) = Some ?y) =
        (map_of (sm_active_sessions s) (ss_spacecraft_instance_id x) = Some sid0)"
    have m: "map_of (sm_active_sessions (fst (sm_close_session sid0 t s))) inst =
        (if map_of (sm_active_sessions s) (ss_spacecraft_instance_id x) = Some sid0 \<and>
            inst = ss_spacecraft_instance_id x
         then None else map_of (sm_active_sessions s) inst)"
    proof -
      have "fst (sm_close_session sid0 t s) =
          (if sm_get_active_session ?s (ss_spacecraft_instance_id x) = Some ?y
           then ?s\<lparr> sm_active_sessions := ddel (ss_spacecraft_instance_id x) (sm_active_sessions ?s) \<rparr>
           else ?s)"
        unfolding sm_close_session_def Some option.case if_not_P [OF False] Let_def by simp
      then have "map_of (sm_active_sessions (fst (sm_close_session sid0 t s))) =
          (if map_of (sm_active_sessions s) (ss_spacecraft_instance_id x) = Some sid0
           then (map_of (sm_active_sessions s))(ss_spacecraft_instance_id x := None)
           else map_of (sm_active_sessions s))"
        unfolding e [OF False]
        by (cases "map_of (sm_active_sessions s) (ss_spacecraft_instance_id x) = Some sid0") simp_all
      then show ?thesis by (rule if_fun_upd)
    qed
    have st: "map_option ss_state (sm_get_session s sid0) \<noteq> Some CLOSED" using False Some by simp
    show ?thesis
    proof (cases "map_of (sm_active_sessions s) inst = Some sid0")
      case True
      with st m i [OF True] show ?thesis by simp
    qed (auto simp: m)
  qed
qed

lemma sm_close_inv:
  assumes inv: "sm_inv s"
  shows "sm_inv (fst (sm_close_session sid0 t s))"
proof -
  let ?s' = "fst (sm_close_session sid0 t s)"
  note D = sm_invD [OF inv]
  have old: "\<exists>y. sm_get_session s sid = Some y \<and> ss_session_id x = ss_session_id y \<and>
      ss_spacecraft_instance_id x = ss_spacecraft_instance_id y \<and> ss_generation x = ss_generation y \<and>
      (ss_state x = ACTIVE \<longrightarrow> x = y \<and> sid \<noteq> sid0)"
    if "sm_get_session ?s' sid = Some x" for sid x
    using that unfolding sm_close_lookup by (auto split: if_splits)
  show ?thesis
  proof (rule sm_invI)
    show "distinct (dkeys (sm_session_history ?s'))"
      using D(1) by (simp add: sm_close_session_def Let_def split: option.splits)
  next
    fix sid x
    assume "sm_get_session ?s' sid = Some x"
    then show "ss_session_id x = sid \<and> sid < sm_next_session_id ?s' \<and>
        ss_generation x \<le> sm_floor ?s' (ss_spacecraft_instance_id x)"
      using old [of sid x] D(2-4) [of sid] by auto
  next
    fix sid x
    assume "sm_get_session ?s' sid = Some x" "ss_state x = ACTIVE"
    then have "sm_get_session s sid = Some x" "sid \<noteq> sid0" "ss_state x = ACTIVE" using old by blast+
    with D(5) [of sid x] show "map_of (sm_active_sessions ?s') (ss_spacecraft_instance_id x) = Some sid"
      by (simp add: sm_close_active [OF inv])
  next
    fix i sid
    assume "map_of (sm_active_sessions ?s') i = Some sid"
    then have "map_of (sm_active_sessions s) i = Some sid"
      by (auto simp: sm_close_active [OF inv] split: if_splits)
    from D(6) [OF this] obtain x where "sm_get_session s sid = Some x" "ss_spacecraft_instance_id x = i"
      by blast
    then show "map_option ss_spacecraft_instance_id (sm_get_session ?s' sid) = Some i"
      by (cases "sid = sid0") (simp_all add: sm_close_lookup)
  qed
qed

lemma sm_step_inv: "sm_inv s \<Longrightarrow> sm_inv (sm_step s op)"
proof (cases op)
  case Restart
  assume "sm_inv s"
  then show ?thesis
    using sm_init_inv [of "sm_next_session_id s" "sm_generation_floors s"]
    by (auto simp: Restart sm_checkpoint_def split: sum.splits)
qed (simp_all add: sm_create_inv sm_close_inv)

interpretation sm: op_system sm_step sm_inv
  by unfold_locales (rule sm_step_inv)

text \<open>Two quantities that no operation decreases: the next id, and the floor of an instance.\<close>

lemma sm_create_next_id:
  "sm_next_session_id s \<le> sm_next_session_id (fst (sm_create_session inst boot t s))"
  by (cases rule: sm_create_cases [of inst boot t s]) simp_all

lemma sm_create_floor: "sm_floor s i \<le> sm_floor (fst (sm_create_session inst boot t s)) i"
proof (cases rule: sm_create_cases [of inst boot t s])
  case (created gen s1)
  then show ?thesis by (simp add: sm_floor_def)
qed (simp_all add: sm_floor_def)

lemma sm_restart_frame [simp]:
  "sm_next_session_id (sm_step s Restart) = sm_next_session_id s"
  "sm_floor (sm_step s Restart) = sm_floor s"
  by (auto simp: sm_checkpoint_def sm_init_def sm_floor_def)

declare sm_step.simps(3) [simp del]

lemma sm_step_monotone:
  "sm_next_session_id s \<le> sm_next_session_id (sm_step s op)"
  "sm_floor s i \<le> sm_floor (sm_step s op) i"
  by (cases op; simp add: sm_create_next_id sm_create_floor)+

interpretation sm_ids: monotone_system sm_step sm_inv sm_next_session_id
  by unfold_locales (rule sm_step_monotone)

interpretation sm_floors: monotone_system sm_step sm_inv "\<lambda>s. sm_floor s inst" for inst
  by unfold_locales (rule sm_step_monotone)

section \<open>Acceptance\<close>

definition accepts :: "session_manager \<Rightarrow> int \<Rightarrow> int \<Rightarrow> int \<Rightarrow> bool" where
  "accepts s sid boot inst \<longleftrightarrow> fst (sm_validate_packet s sid boot inst)"

lemma accepts_iff:
  assumes "sm_inv s"
  shows "accepts s sid boot inst \<longleftrightarrow>
    (\<exists>x. sm_get_session s sid = Some x \<and> ss_state x = ACTIVE \<and> ss_sender_boot_id x = boot \<and>
         ss_spacecraft_instance_id x = inst)"
proof (cases "sm_get_session s sid")
  case (Some x)
  then show ?thesis
    using sm_invD(2,5) [OF assms Some]
    by (auto simp: accepts_def sm_validate_packet_def sm_get_active_session_def)
qed (simp add: accepts_def sm_validate_packet_def)

lemma accepts_below: "sm_inv s \<Longrightarrow> accepts s sid boot inst \<Longrightarrow> sid < sm_next_session_id s"
  using sm_invD(3) by (auto simp: accepts_iff)

lemma accepts_close_old:
  assumes inv: "sm_inv s" and "accepts (sm_close_old inst t s) sid boot i"
  shows "accepts s sid boot i \<and> i \<noteq> inst"
proof -
  from assms(2) obtain x where x: "sm_get_session (sm_close_old inst t s) sid = Some x"
    "ss_state x = ACTIVE" "ss_sender_boot_id x = boot" "ss_spacecraft_instance_id x = i"
    unfolding accepts_iff [OF sm_close_old_inv [OF inv]] by blast
  then have "sm_get_session s sid = Some x" "map_of (sm_active_sessions s) inst \<noteq> Some sid"
    by (auto simp: sm_close_old_lookup [OF inv] split: if_splits)
  with x sm_invD(5) [OF inv, of sid x] show ?thesis by (auto simp: accepts_iff [OF inv])
qed

text \<open>A creation takes back every acceptance of its instance, and grants only the new id.\<close>

lemma accepts_create:
  assumes inv: "sm_inv s" and a: "accepts (fst (sm_create_session inst boot0 t s)) sid boot i"
  shows "(accepts s sid boot i \<and> i \<noteq> inst) \<or> sid = sm_next_session_id s"
proof (cases rule: sm_create_cases [of inst boot0 t s])
  case (full e)
  then show ?thesis using accepts_close_old [OF inv, of inst t] a by simp
next
  case (exhausted e)
  have l: "sm_get_session (u\<lparr> sm_next_session_id := n \<rparr>) = sm_get_session u"
    "sm_get_active_session (u\<lparr> sm_next_session_id := n \<rparr>) = sm_get_active_session u" for u n
    by (simp_all add: fun_eq_iff sm_lookups split: option.split)
  have "accepts ((sm_close_old inst t s)\<lparr> sm_next_session_id := n \<rparr>) = accepts (sm_close_old inst t s)" for n
    by (simp add: fun_eq_iff accepts_def sm_validate_packet_def l split: option.split)
  then show ?thesis using accepts_close_old [OF inv, of inst t] a exhausted by simp
next
  case (created gen s1)
  show ?thesis
  proof (cases "sid = sm_next_session_id s")
    case False
    then have "sm_get_session (fst (sm_create_session inst boot0 t s)) sid = sm_get_session s1 sid"
      unfolding created(5) by (simp add: sm_get_session_def)
    then have "accepts s1 sid boot i"
      using a unfolding accepts_iff [OF sm_create_inv [OF inv]]
      by (simp add: created(1) accepts_iff [OF sm_close_old_inv [OF inv]])
    then show ?thesis using accepts_close_old [OF inv, of inst t] by (simp add: created(1))
  qed simp
qed

lemma accepts_close:
  assumes inv: "sm_inv s" and "accepts (fst (sm_close_session sid0 t s)) sid boot i"
  shows "accepts s sid boot i \<and> sid \<noteq> sid0"
  using assms(2) unfolding accepts_iff [OF sm_close_inv [OF inv]] accepts_iff [OF inv] sm_close_lookup
  by (auto split: if_splits)

lemma accepts_restart:
  assumes inv: "sm_inv s" and "accepts (sm_step s Restart) sid boot i"
  shows "accepts s sid boot i"
proof (cases "sm_init (sm_next_session_id s) (sm_generation_floors s)")
  case (Inl e)
  then show ?thesis using assms(2) by (simp add: sm_step.simps(3) sm_checkpoint_def)
next
  case (Inr s')
  then have "sm_get_session s' sid = None" by (auto simp: sm_init_def sm_get_session_def)
  then show ?thesis
    using assms(2) Inr by (simp add: sm_step.simps(3) sm_checkpoint_def accepts_def sm_validate_packet_def)
qed

text \<open>What is known and not accepted now is never accepted again.\<close>

interpretation sm_rejected: stable_fact sm_step sm_inv
  "\<lambda>s. sid < sm_next_session_id s \<and> \<not> accepts s sid boot inst" for sid boot inst
proof unfold_locales
  fix s op
  assume inv: "sm_inv s" and f: "sid < sm_next_session_id s \<and> \<not> accepts s sid boot inst"
  have "\<not> accepts (sm_step s op) sid boot inst"
  proof (cases op)
    case (Create i b t)
    then show ?thesis using accepts_create [OF inv, of i b t sid boot inst] f by auto
  next
    case (Close sid0 t)
    then show ?thesis using accepts_close [OF inv, of sid0 t sid boot inst] f by auto
  next
    case Restart
    then show ?thesis using accepts_restart [OF inv, of sid boot inst] f by auto
  qed
  with f sm_step_monotone(1) [of s op]
  show "sid < sm_next_session_id (sm_step s op) \<and> \<not> accepts (sm_step s op) sid boot inst" by simp
qed

section \<open>Properties\<close>

text \<open>
  C2: Boot isolation. From any manager built by the constructor and after any calls, once
  \<^verbatim>\<open>create_session\<close> has returned a new session for an instance, no packet of another session
  that was known before is ever accepted for that instance again, whatever is created,
  closed or restarted from a checkpoint afterwards.
\<close>

theorem session_fenced_forever:
  assumes "sm_init n floors = Inr s0"
    and "sm_create_session inst boot t (run_ops sm_step s0 ops) = (s, Inr sid)"
    and "sid' < sid"
  shows "\<not> fst (sm_validate_packet (run_ops sm_step s ops') sid' boot' inst)"
proof -
  let ?s1 = "run_ops sm_step s0 ops"
  have inv: "sm_inv ?s1" by (rule sm.inv_run [OF sm_init_inv [OF assms(1)]])
  then have inv': "sm_inv s" using sm_create_inv [OF inv, of inst boot t] assms(2) by simp
  have sid: "sid = sm_next_session_id ?s1"
    using assms(2) by (cases rule: sm_create_cases [of inst boot t ?s1]) auto
  have "\<not> accepts s sid' boot' inst"
    using accepts_create [OF inv, of inst boot t sid' boot' inst] assms(2,3) sid by auto
  moreover have "sid' < sm_next_session_id s"
    using sm_create_next_id [of ?s1 inst boot t] assms(2,3) sid by simp
  ultimately show ?thesis using sm_rejected.fact_run [OF inv'] by (simp add: accepts_def)
qed

definition demo_sessions :: "session_manager" where
  "demo_sessions = projr (sm_init 1 [(7, 4)])"

lemma session_fenced_forever_witness:
  "fst (sm_validate_packet (run_ops sm_step demo_sessions [Create 7 10 0]) 1 10 7) \<and>
   \<not> fst (sm_validate_packet (run_ops sm_step
       (fst (sm_create_session 7 11 5 (run_ops sm_step demo_sessions [Create 7 10 0])))
       [Close 2 6, Restart, Create 7 10 8]) 1 10 7)"
proof
  show "fst (sm_validate_packet (run_ops sm_step demo_sessions [Create 7 10 0]) 1 10 7)" by code_simp
  have "sm_init 1 [(7, 4)] = Inr demo_sessions" by code_simp
  moreover have "snd (sm_create_session 7 11 5 (run_ops sm_step demo_sessions [Create 7 10 0])) = Inr 2"
    by code_simp
  then have "sm_create_session 7 11 5 (run_ops sm_step demo_sessions [Create 7 10 0]) =
      (fst (sm_create_session 7 11 5 (run_ops sm_step demo_sessions [Create 7 10 0])), Inr 2)"
    by (metis prod.collapse)
  ultimately show "\<not> fst (sm_validate_packet (run_ops sm_step
       (fst (sm_create_session 7 11 5 (run_ops sm_step demo_sessions [Create 7 10 0])))
       [Close 2 6, Restart, Create 7 10 8]) 1 10 7)"
    by (rule session_fenced_forever) simp
qed

text \<open>
  On every reachable state a packet is accepted exactly when its session exists, is
  ACTIVE, and has the packet's boot and instance; at most one session of an instance is
  accepted at a time, and the answer STALE_SESSION is never given: the other tests already
  exclude it.
\<close>

theorem session_validation_exact:
  assumes "sm_init n floors = Inr s0" and "s = run_ops sm_step s0 ops"
  shows "(sm_validate_packet s sid boot inst = (True, None) \<longleftrightarrow>
      (\<exists>x. sm_get_session s sid = Some x \<and> ss_state x = ACTIVE \<and> ss_sender_boot_id x = boot \<and>
           ss_spacecraft_instance_id x = inst)) \<and>
    (sm_validate_packet s sid boot inst = (True, None) \<longrightarrow>
      sm_validate_packet s sid2 boot2 inst = (True, None) \<longrightarrow> sid = sid2 \<and> boot = boot2) \<and>
    snd (sm_validate_packet s sid boot inst) \<noteq> Some ''STALE_SESSION''"
proof (intro conjI impI)
  have inv: "sm_inv s" unfolding assms(2) by (rule sm.inv_run [OF sm_init_inv [OF assms(1)]])
  have a: "sm_validate_packet s i b k = (True, None) \<longleftrightarrow> accepts s i b k" for i b k
    by (auto simp: accepts_def sm_validate_packet_def split: option.splits)
  show "sm_validate_packet s sid boot inst = (True, None) \<longleftrightarrow>
      (\<exists>x. sm_get_session s sid = Some x \<and> ss_state x = ACTIVE \<and> ss_sender_boot_id x = boot \<and>
           ss_spacecraft_instance_id x = inst)"
    unfolding a by (rule accepts_iff [OF inv])
  have u: "sid = sid2 \<and> boot = boot2" if "accepts s sid boot inst" "accepts s sid2 boot2 inst"
  proof -
    from that obtain x y where
      "sm_get_session s sid = Some x" "ss_state x = ACTIVE" "ss_sender_boot_id x = boot"
      "ss_spacecraft_instance_id x = inst"
      "sm_get_session s sid2 = Some y" "ss_state y = ACTIVE" "ss_sender_boot_id y = boot2"
      "ss_spacecraft_instance_id y = inst"
      unfolding accepts_iff [OF inv] by blast
    with sm_invD(5) [OF inv, of sid x] sm_invD(5) [OF inv, of sid2 y] show ?thesis by simp
  qed
  assume "sm_validate_packet s sid boot inst = (True, None)" "sm_validate_packet s sid2 boot2 inst = (True, None)"
  with u show "sid = sid2" "boot = boot2" unfolding a by blast+
next
  have inv: "sm_inv s" unfolding assms(2) by (rule sm.inv_run [OF sm_init_inv [OF assms(1)]])
  show "snd (sm_validate_packet s sid boot inst) \<noteq> Some ''STALE_SESSION''"
  proof (cases "sm_get_session s sid")
    case (Some x)
    have "''SESSION_'' @ state_value st \<noteq> ''STALE_SESSION''" for st by (cases st) simp_all
    moreover have "sm_get_active_session s (ss_spacecraft_instance_id x) = Some x \<and> ss_session_id x = sid"
      if "ss_state x = ACTIVE"
      using sm_invD(2,5) [OF inv Some] that Some by (simp add: sm_get_active_session_def)
    ultimately show ?thesis using Some by (auto simp: sm_validate_packet_def)
  qed (simp add: sm_validate_packet_def)
qed

lemma session_validation_exact_witness:
  "sm_validate_packet (run_ops sm_step demo_sessions [Create 7 10 0, Create 7 11 1, Create 8 10 2]) 2 11 7 =
     (True, None)"
proof -
  have i: "sm_init 1 [(7, 4)] = Inr demo_sessions" by code_simp
  have "sm_get_session (run_ops sm_step demo_sessions [Create 7 10 0, Create 7 11 1, Create 8 10 2]) 2 =
      Some \<lparr> ss_session_id = 2, ss_spacecraft_instance_id = 7, ss_sender_boot_id = 11,
        ss_state = ACTIVE, ss_generation = 6, ss_created_at_ns = 1, ss_closed_at_ns = None \<rparr>"
    by code_simp
  then show ?thesis
    unfolding conjunct1 [OF session_validation_exact [OF i refl]] by simp
qed

text \<open>
  C29: Session ids and generations only grow. If two creations succeed, one after the other,
  with any calls and restarts from a checkpoint between them, the second id is larger than
  the first, and for the same instance so is the second generation.
\<close>

theorem session_generation_monotone:
  assumes "sm_init n floors = Inr s0"
    and "sm_create_session inst boot t (run_ops sm_step s0 ops) = (s1, Inr sid)"
    and "sm_create_session inst2 boot2 t2 (run_ops sm_step s1 ops2) = (s2, Inr sid2)"
  shows "sid < sid2 \<and>
    (\<exists>x y. sm_get_session s1 sid = Some x \<and> sm_get_session s2 sid2 = Some y \<and>
       (inst = inst2 \<longrightarrow> ss_generation x < ss_generation y))"
proof -
  let ?a = "run_ops sm_step s0 ops" and ?b = "run_ops sm_step s1 ops2"
  have ia: "sm_inv ?a" by (rule sm.inv_run [OF sm_init_inv [OF assms(1)]])
  then have i1: "sm_inv s1" using sm_create_inv [OF ia, of inst boot t] assms(2) by simp
  have step: "\<exists>z. sm_get_session s' i = Some z \<and> i = sm_next_session_id s \<and> ss_generation z = sm_floor s' k \<and>
      sm_next_session_id s' = i + 1 \<and> sm_floor s k < sm_floor s' k"
    if "sm_create_session k b u s = (s', Inr i)" for s s' k b u i
    using that
    by (cases rule: sm_create_cases [of k b u s]) (auto simp: sm_get_session_def sm_floor_def)
  from step [OF assms(2)] obtain x where x: "sm_get_session s1 sid = Some x"
    "ss_generation x = sm_floor s1 inst" "sm_next_session_id s1 = sid + 1" by blast
  from step [OF assms(3)] obtain y where y: "sm_get_session s2 sid2 = Some y"
    "sid2 = sm_next_session_id ?b" "ss_generation y = sm_floor s2 inst2"
    "sm_floor ?b inst2 < sm_floor s2 inst2" by blast
  have "sm_next_session_id s1 \<le> sm_next_session_id ?b" "sm_floor s1 inst2 \<le> sm_floor ?b inst2"
    by (rule sm_ids.level_run [OF i1], rule sm_floors.level_run [OF i1])
  with x y show ?thesis by fastforce
qed

lemma session_generation_monotone_witness:
  "(1 :: int) < 2 \<and> (\<exists>x y.
     sm_get_session (fst (sm_create_session 7 10 0 demo_sessions)) 1 = Some x \<and>
     sm_get_session (fst (sm_create_session 7 10 9
        (sm_step (fst (sm_create_session 7 10 0 demo_sessions)) Restart))) 2 = Some y \<and>
     ss_generation x < ss_generation y)"
proof -
  have i: "sm_init 1 [(7, 4)] = Inr demo_sessions" by code_simp
  let ?s1 = "fst (sm_create_session 7 10 0 demo_sessions)"
  have "snd (sm_create_session 7 10 0 demo_sessions) = Inr 1" by code_simp
  then have 1: "sm_create_session 7 10 0 (run_ops sm_step demo_sessions []) = (?s1, Inr 1)"
    by (metis prod.collapse run_ops_simps(1))
  have "snd (sm_create_session 7 10 9 (sm_step ?s1 Restart)) = Inr 2" by code_simp
  then have 2: "sm_create_session 7 10 9 (run_ops sm_step ?s1 [Restart]) =
      (fst (sm_create_session 7 10 9 (sm_step ?s1 Restart)), Inr 2)"
    by (metis prod.collapse run_ops_simps)
  from session_generation_monotone [OF i 1 2] show ?thesis by simp
qed

end
