(* ===== verification/VirtualClock.thy ===== *)
theory VirtualClock
  imports ContactSchedule "HOL-Library.Product_Lexorder" "HOL-Library.Multiset"
begin

text \<open>
  \<^verbatim>\<open>link_sim/virtual_clock.py\<close>: the virtual clock and its event queue. The heap is a list
  sorted by the comparison key, of which \<^verbatim>\<open>heappush\<close> inserts and \<^verbatim>\<open>heappop\<close> takes the first;
  the order of events with equal keys is the one detail \<^verbatim>\<open>heapq\<close> decides otherwise, and no
  lemma here depends on it. A callback is a value of a type parameter; what it does is the
  parameter \<open>beh\<close>, the calls it makes on the clock when it runs at a time. An exception of a
  call leaves the callback, and the running loop.
\<close>

section \<open>Data\<close>

record 'c event =
  ev_due_time :: sim_time
  ev_direction :: int
  ev_link_frame_id :: int
  ev_copy_index :: int
  ev_callback :: 'c

definition ev_key :: "'c event \<Rightarrow> int \<times> int \<times> int \<times> int" where
  "ev_key e = (ev_due_time e, ev_direction e, ev_link_frame_id e, ev_copy_index e)"

record 'c vclock =
  vc_current_time :: sim_time
  vc_event_queue :: "'c event list"
  vc_admission_order :: int

definition vc_init :: "sim_time option \<Rightarrow> 'c vclock" where
  "vc_init start_time =
     \<lparr> vc_current_time = (case start_time of None \<Rightarrow> 0 | Some t \<Rightarrow> t),
       vc_event_queue = [], vc_admission_order = 0 \<rparr>"

section \<open>Operations\<close>

definition heap_push :: "'c event \<Rightarrow> 'c event list \<Rightarrow> 'c event list" where
  "heap_push e q = insort_key ev_key e q"

definition vc_push :: "sim_time \<Rightarrow> 'c \<Rightarrow> int \<Rightarrow> int \<Rightarrow> int \<Rightarrow> 'c vclock \<Rightarrow> 'c vclock" where
  "vc_push due_time callback direction link_frame_id copy_index c =
     c\<lparr> vc_event_queue := heap_push
          \<lparr> ev_due_time = due_time, ev_direction = direction, ev_link_frame_id = link_frame_id,
            ev_copy_index = copy_index, ev_callback = callback \<rparr> (vc_event_queue c) \<rparr>"

definition vc_schedule ::
  "int \<Rightarrow> 'c \<Rightarrow> int \<Rightarrow> int \<Rightarrow> int \<Rightarrow> 'c vclock \<Rightarrow> 'c vclock \<times> unit res" where
  "vc_schedule delay_ns callback direction link_frame_id copy_index c =
     (if delay_ns < 0 then (c, Inl (ValueError ''Delay cannot be negative''))
      else case time_add (vc_current_time c) delay_ns of
        Inl e \<Rightarrow> (c, Inl e)
      | Inr due_time \<Rightarrow> (vc_push due_time callback direction link_frame_id copy_index c, Inr ()))"

definition vc_schedule_at ::
  "sim_time \<Rightarrow> 'c \<Rightarrow> int \<Rightarrow> int \<Rightarrow> int \<Rightarrow> 'c vclock \<Rightarrow> 'c vclock \<times> unit res" where
  "vc_schedule_at due_time callback direction link_frame_id copy_index c =
     (if due_time < vc_current_time c then (c, Inl (ValueError ''Cannot schedule in past''))
      else (vc_push due_time callback direction link_frame_id copy_index c, Inr ()))"

text \<open>The calls a callback makes, in order, up to the first that raises.\<close>

datatype 'c clock_call =
    Schedule int 'c int int int
  | ScheduleAt sim_time 'c int int int

fun vc_call :: "'c clock_call \<Rightarrow> 'c vclock \<Rightarrow> 'c vclock \<times> unit res" where
  "vc_call (Schedule delay cb d f i) c = vc_schedule delay cb d f i c"
| "vc_call (ScheduleAt due cb d f i) c = vc_schedule_at due cb d f i c"

fun vc_calls :: "'c clock_call list \<Rightarrow> 'c vclock \<Rightarrow> 'c vclock \<times> unit res" where
  "vc_calls [] c = (c, Inr ())"
| "vc_calls (x # xs) c =
     (case vc_call x c of (c', Inl e) \<Rightarrow> (c', Inl e) | (c', Inr _) \<Rightarrow> vc_calls xs c')"

type_synonym 'c behaviour = "'c \<Rightarrow> sim_time \<Rightarrow> 'c clock_call list"

definition vc_advance_to_next_event :: "'c behaviour \<Rightarrow> 'c vclock \<Rightarrow> 'c vclock \<times> bool res" where
  "vc_advance_to_next_event beh c =
     (case vc_event_queue c of
        [] \<Rightarrow> (c, Inr False)
      | event # rest \<Rightarrow>
          let c = c\<lparr> vc_event_queue := rest, vc_current_time := ev_due_time event \<rparr>
          in case vc_calls (beh (ev_callback event) (ev_due_time event)) c of
               (c', Inl e) \<Rightarrow> (c', Inl e)
             | (c', Inr _) \<Rightarrow> (c', Inr True))"

text \<open>
  The loop of \<^verbatim>\<open>run_until\<close> and of \<^verbatim>\<open>run_until_idle\<close>: \<open>continue\<close> is the loop condition, of the
  queue and the count. A loop that never ends is None. \<open>log\<close> lists the events executed; its
  length is the count the methods return.
\<close>

partial_function (option) vc_loop ::
  "('c event list \<Rightarrow> nat \<Rightarrow> bool) \<Rightarrow> 'c behaviour \<Rightarrow> 'c event list \<Rightarrow> 'c vclock \<Rightarrow>
     ('c vclock \<times> 'c event list \<times> unit res) option" where
  "vc_loop continue beh log c =
     (case vc_event_queue c of
        [] \<Rightarrow> Some (c, log, Inr ())
      | event # rest \<Rightarrow>
          if \<not> continue (event # rest) (length log) then Some (c, log, Inr ())
          else case vc_advance_to_next_event beh c of
            (c', Inl e) \<Rightarrow> Some (c', log @ [event], Inl e)
          | (c', Inr _) \<Rightarrow> vc_loop continue beh (log @ [event]) c')"

declare vc_loop.simps [code]

definition due_by :: "sim_time \<Rightarrow> 'c event list \<Rightarrow> nat \<Rightarrow> bool" where
  "due_by end_time q n \<longleftrightarrow> q \<noteq> [] \<and> ev_due_time (hd q) \<le> end_time"

definition below :: "nat option \<Rightarrow> 'c event list \<Rightarrow> nat \<Rightarrow> bool" where
  "below max_events q n \<longleftrightarrow> (case max_events of None \<Rightarrow> True | Some m \<Rightarrow> n < m)"

definition vc_run_until ::
  "'c behaviour \<Rightarrow> sim_time \<Rightarrow> 'c vclock \<Rightarrow> ('c vclock \<times> 'c event list \<times> nat res) option" where
  "vc_run_until beh end_time c =
     (case vc_loop (due_by end_time) beh [] c of
        None \<Rightarrow> None
      | Some (c', log, Inl e) \<Rightarrow> Some (c', log, Inl e)
      | Some (c', log, Inr _) \<Rightarrow>
          Some (if end_time > vc_current_time c' then c'\<lparr> vc_current_time := end_time \<rparr> else c',
                log, Inr (length log)))"

definition vc_run_until_idle ::
  "'c behaviour \<Rightarrow> nat option \<Rightarrow> 'c vclock \<Rightarrow> ('c vclock \<times> 'c event list \<times> nat res) option" where
  "vc_run_until_idle beh max_events c =
     (case vc_loop (below max_events) beh [] c of
        None \<Rightarrow> None
      | Some (c', log, Inl e) \<Rightarrow> Some (c', log, Inl e)
      | Some (c', log, Inr _) \<Rightarrow> Some (c', log, Inr (length log)))"

definition vc_peek_next_event_time :: "'c vclock \<Rightarrow> sim_time option" where
  "vc_peek_next_event_time c =
     (case vc_event_queue c of [] \<Rightarrow> None | e # _ \<Rightarrow> Some (ev_due_time e))"

definition vc_has_pending_events :: "'c vclock \<Rightarrow> bool" where
  "vc_has_pending_events c \<longleftrightarrow> vc_event_queue c \<noteq> []"

definition vc_clear :: "'c vclock \<Rightarrow> 'c vclock" where
  "vc_clear c = c\<lparr> vc_event_queue := [] \<rparr>"

definition vc_get_admission_order :: "'c vclock \<Rightarrow> 'c vclock \<times> int" where
  "vc_get_admission_order c =
     (c\<lparr> vc_admission_order := vc_admission_order c + 1 \<rparr>, vc_admission_order c)"

definition vc_reset :: "sim_time option \<Rightarrow> 'c vclock \<Rightarrow> 'c vclock" where
  "vc_reset start_time c = vc_init start_time"

section \<open>The invariant\<close>

text \<open>The queue is sorted and holds nothing that is due in the past.\<close>

definition vc_inv :: "'c vclock \<Rightarrow> bool" where
  "vc_inv c \<longleftrightarrow> sorted (map ev_key (vc_event_queue c)) \<and>
     (\<forall>e \<in> set (vc_event_queue c). vc_current_time c \<le> ev_due_time e)"

lemma key_due: "ev_key x \<le> ev_key y \<Longrightarrow> ev_due_time x \<le> ev_due_time y"
  by (auto simp: ev_key_def less_eq_prod_def)

lemma vc_push_simps [simp]:
  "vc_current_time (vc_push due cb d f i c) = vc_current_time c"
  "mset (vc_event_queue (vc_push due cb d f i c)) =
     add_mset \<lparr> ev_due_time = due, ev_direction = d, ev_link_frame_id = f, ev_copy_index = i,
       ev_callback = cb \<rparr> (mset (vc_event_queue c))"
  "vc_inv (vc_push due cb d f i c) \<longleftrightarrow> vc_inv c \<and> vc_current_time c \<le> due"
  by (auto simp: vc_push_def vc_inv_def heap_push_def sorted_insort_key set_insort_key)

text \<open>What the calls of a callback do: the time stands still and events are only added.\<close>

definition added :: "'c vclock \<Rightarrow> 'c vclock \<Rightarrow> 'c event multiset \<Rightarrow> bool" where
  "added c c' new \<longleftrightarrow> vc_current_time c' = vc_current_time c \<and> (vc_inv c \<longrightarrow> vc_inv c') \<and>
     mset (vc_event_queue c') = mset (vc_event_queue c) + new"

lemma vc_call_added:
  assumes "vc_call x c = (c', r)"
  shows "\<exists>new. added c c' new \<and>
    (\<forall>e \<in># new. case x of Schedule delay _ _ _ _ \<Rightarrow> ev_due_time e = vc_current_time c + delay \<and> 0 \<le> delay
                       | ScheduleAt due _ _ _ _ \<Rightarrow> ev_due_time e = due)"
proof (cases x)
  case (Schedule delay cb d f i)
  show ?thesis
  proof (cases "delay < 0 \<or> (\<exists>e. time_add (vc_current_time c) delay = Inl e)")
    case True
    then have "c' = c" using assms by (auto simp: Schedule vc_schedule_def split: if_splits sum.splits)
    then show ?thesis by (intro exI [of _ "{#}"]) (simp add: added_def)
  next
    case False
    then obtain due where due: "time_add (vc_current_time c) delay = Inr due" "0 \<le> delay"
      by (cases "time_add (vc_current_time c) delay") auto
    then have "c' = vc_push due cb d f i c" "due = vc_current_time c + delay"
      using assms by (simp add: Schedule vc_schedule_def, simp add: time_add_Inr)
    then show ?thesis
      using due(2) by (intro exI [of _ "{#\<lparr> ev_due_time = due, ev_direction = d, ev_link_frame_id = f,
        ev_copy_index = i, ev_callback = cb \<rparr>#}"]) (simp add: added_def Schedule)
  qed
next
  case (ScheduleAt due cb d f i)
  show ?thesis
  proof (cases "due < vc_current_time c")
    case True
    then have "c' = c" using assms by (auto simp: ScheduleAt vc_schedule_at_def)
    then show ?thesis by (intro exI [of _ "{#}"]) (simp add: added_def)
  next
    case False
    then have "c' = vc_push due cb d f i c" using assms by (auto simp: ScheduleAt vc_schedule_at_def)
    then show ?thesis
      using False by (intro exI [of _ "{#\<lparr> ev_due_time = due, ev_direction = d, ev_link_frame_id = f,
        ev_copy_index = i, ev_callback = cb \<rparr>#}"]) (simp add: added_def ScheduleAt)
  qed
qed

text \<open>A call that schedules strictly into the future of the time it is made at.\<close>

fun later :: "sim_time \<Rightarrow> 'c clock_call \<Rightarrow> bool" where
  "later t (Schedule delay _ _ _ _) \<longleftrightarrow> 0 < delay"
| "later t (ScheduleAt due _ _ _ _) \<longleftrightarrow> t < due"

lemma vc_calls_added:
  "vc_calls xs c = (c', r) \<Longrightarrow> \<exists>new. added c c' new \<and>
     ((\<forall>x \<in> set xs. later (vc_current_time c) x) \<longrightarrow> (\<forall>e \<in># new. vc_current_time c < ev_due_time e))"
proof (induction xs arbitrary: c)
  case Nil
  then show ?case by (intro exI [of _ "{#}"]) (simp add: added_def)
next
  case (Cons x xs)
  obtain c1 r1 where c1: "vc_call x c = (c1, r1)" by force
  from vc_call_added [OF c1] obtain new1 where n1: "added c c1 new1"
    and l1: "\<forall>e \<in># new1. case x of Schedule delay _ _ _ _ \<Rightarrow>
        ev_due_time e = vc_current_time c + delay \<and> 0 \<le> delay | ScheduleAt due _ _ _ _ \<Rightarrow> ev_due_time e = due"
    by blast
  have l1': "\<forall>e \<in># new1. vc_current_time c < ev_due_time e" if "later (vc_current_time c) x"
    using l1 that by (cases x) auto
  show ?case
  proof (cases r1)
    case (Inl e)
    then have "c' = c1" using Cons.prems c1 by simp
    with n1 l1' show ?thesis by auto
  next
    case (Inr u)
    then have "vc_calls xs c1 = (c', r)" using Cons.prems c1 by simp
    from Cons.IH [OF this] obtain new2 where n2: "added c1 c' new2"
      and l2: "(\<forall>x \<in> set xs. later (vc_current_time c1) x) \<longrightarrow> (\<forall>e \<in># new2. vc_current_time c1 < ev_due_time e)"
      by blast
    have "added c c' (new1 + new2)" using n1 n2 by (simp add: added_def)
    moreover have "vc_current_time c1 = vc_current_time c" using n1 by (simp add: added_def)
    ultimately show ?thesis
      using l1' l2 by (intro exI [of _ "new1 + new2"]) auto
  qed
qed

lemma vc_advance:
  assumes inv: "vc_inv c" and q: "vc_event_queue c = e # rest"
    and a: "vc_advance_to_next_event beh c = (c', r)"
  shows "\<exists>new. vc_inv c' \<and> vc_current_time c' = ev_due_time e \<and>
    mset (vc_event_queue c') = mset rest + new \<and>
    ((\<forall>x \<in> set (beh (ev_callback e) (ev_due_time e)). later (ev_due_time e) x) \<longrightarrow>
       (\<forall>x \<in># new. ev_due_time e < ev_due_time x))"
proof -
  let ?c = "c\<lparr> vc_event_queue := rest, vc_current_time := ev_due_time e \<rparr>"
  obtain c1 r1 where c1: "vc_calls (beh (ev_callback e) (ev_due_time e)) ?c = (c1, r1)" by force
  have "c1 = c'" using a c1 by (auto simp: vc_advance_to_next_event_def q Let_def split: sum.splits)
  moreover have "vc_inv ?c"
    using inv by (auto simp: vc_inv_def q dest: key_due)
  moreover from vc_calls_added [OF c1] obtain new where "added ?c c1 new"
    "(\<forall>x \<in> set (beh (ev_callback e) (ev_due_time e)). later (vc_current_time ?c) x) \<longrightarrow>
       (\<forall>x \<in># new. vc_current_time ?c < ev_due_time x)" by blast
  ultimately show ?thesis by (intro exI [of _ new]) (simp add: added_def)
qed

text \<open>The loop executes events in time order, drops none, and stops where its condition says.\<close>

definition executed :: "('c event list \<Rightarrow> nat \<Rightarrow> bool) \<Rightarrow> 'c vclock \<Rightarrow> 'c event list \<Rightarrow> 'c vclock \<Rightarrow> bool" where
  "executed continue c es c' \<longleftrightarrow> vc_inv c' \<and> vc_current_time c \<le> vc_current_time c' \<and>
     vc_current_time c' = (if es = [] then vc_current_time c else ev_due_time (last es)) \<and>
     sorted (map ev_due_time es) \<and>
     (\<forall>e \<in> set es. vc_current_time c \<le> ev_due_time e \<and> ev_due_time e \<le> vc_current_time c' \<and>
        (\<exists>q n. continue (e # q) n)) \<and>
     mset (vc_event_queue c) \<subseteq># mset es + mset (vc_event_queue c')"

lemma vc_loop_executed':
  assumes h: "vc_loop continue beh log c = Some y"
  shows "vc_inv c \<longrightarrow>
     (case y of (c', log', r) \<Rightarrow>
       \<exists>es. log' = log @ es \<and> executed continue c es c' \<and>
         (is_ok r \<longrightarrow> vc_event_queue c' = [] \<or> \<not> continue (vc_event_queue c') (length log')))"
proof (rule vc_loop.raw_induct [OF _ h, where P = "\<lambda>continue beh log c y. vc_inv c \<longrightarrow>
     (case y of (c', log', r) \<Rightarrow>
       \<exists>es. log' = log @ es \<and> executed continue c es c' \<and>
         (is_ok r \<longrightarrow> vc_event_queue c' = [] \<or> \<not> continue (vc_event_queue c') (length log')))"], goal_cases)
  case (1 loop continue beh log c y)
  show ?case
  proof (intro impI)
  assume inv: "vc_inv c"
  obtain c' log' r where y: "y = (c', log', r)" by (cases y)
  have "\<exists>es. log' = log @ es \<and> executed continue c es c' \<and>
       (is_ok r \<longrightarrow> vc_event_queue c' = [] \<or> \<not> continue (vc_event_queue c') (length log'))"
  proof (cases "vc_event_queue c")
    case Nil
    with 1(2) y inv show ?thesis by (intro exI [of _ "[]"]) (auto simp: executed_def)
  next
    case (Cons e rest)
    show ?thesis
    proof (cases "continue (e # rest) (length log)")
      case False
      with 1(2) y Cons inv show ?thesis by (intro exI [of _ "[]"]) (auto simp: executed_def)
    next
      case True
      obtain c1 r1 where c1: "vc_advance_to_next_event beh c = (c1, r1)" by force
      from vc_advance [OF inv Cons c1] obtain new where i1: "vc_inv c1"
        and t1: "vc_current_time c1 = ev_due_time e" and m1: "mset (vc_event_queue c1) = mset rest + new"
        by blast
      have ge: "vc_current_time c \<le> ev_due_time e" using inv by (simp add: vc_inv_def Cons)
      have r0: "executed continue c [e] c1"
        using i1 t1 m1 ge True by (auto simp: executed_def Cons)
      show ?thesis
      proof (cases r1)
        case (Inl x)
        then have "c' = c1" "log' = log @ [e]" "r = Inl x" using 1(2) y True Cons c1 by auto
        with r0 show ?thesis by auto
      next
        case (Inr u)
        then have "loop continue beh (log @ [e]) c1 = Some (c', log', r)"
          using 1(2) y True Cons c1 by simp
        from 1(1) [OF this] i1 obtain es where l: "log' = (log @ [e]) @ es"
          and r: "executed continue c1 es c'"
          and stop: "is_ok r \<longrightarrow> vc_event_queue c' = [] \<or> \<not> continue (vc_event_queue c') (length log')"
          by blast
        have "mset (vc_event_queue c) \<subseteq># mset (e # es) + mset (vc_event_queue c')"
        proof -
          have "mset rest \<subseteq># mset es + mset (vc_event_queue c')"
            using r m1 unfolding executed_def by (metis mset_subset_eq_add_left subset_mset.order_trans)
          then show ?thesis by (simp add: Cons)
        qed
        then have "executed continue c (e # es) c'"
          using r r0 t1 ge by (auto simp: executed_def)
        with l stop show ?thesis by (intro exI [of _ "e # es"]) simp
      qed
    qed
  qed
then show "case y of (c', log', r) \<Rightarrow>
       \<exists>es. log' = log @ es \<and> executed continue c es c' \<and>
         (is_ok r \<longrightarrow> vc_event_queue c' = [] \<or> \<not> continue (vc_event_queue c') (length log'))"
    by (simp add: y)
  qed
qed

lemmas vc_loop_executed = vc_loop_executed' [rule_format, where y = "(c', log', r)" for c' log' r, simplified]

lemma vc_init_inv: "vc_inv (vc_init t)"
  by (simp add: vc_inv_def vc_init_def)

section \<open>Termination\<close>

text \<open>
  Callbacks that schedule strictly into the future cannot keep \<^verbatim>\<open>run_until\<close> busy: every event
  is replaced by finitely many that have less time left, which is a descent in the multiset
  of the times left.
\<close>

definition left :: "sim_time \<Rightarrow> 'c event multiset \<Rightarrow> nat multiset" where
  "left end_time q = image_mset (\<lambda>e. nat (end_time + 1 - ev_due_time e)) q"

lemma left_descends:
  assumes "ev_due_time e \<le> end_time" and "\<forall>x \<in># new. ev_due_time e < ev_due_time x"
  shows "(left end_time (rest + new), left end_time (add_mset e rest)) \<in> mult less_than"
proof -
  let ?k = "nat (end_time + 1 - ev_due_time e)"
  have "\<forall>k \<in> set_mset (left end_time new). \<exists>j \<in> set_mset {#?k#}. (k, j) \<in> less_than"
    using assms by (force simp: left_def)
  then have "(left end_time rest + left end_time new, left end_time rest + {#?k#}) \<in> mult less_than"
    by (intro one_step_implies_mult) simp_all
  then show ?thesis by (simp add: left_def)
qed

lemma vc_loop_returns:
  assumes "\<forall>cb t. \<forall>x \<in> set (beh cb t). later t x" and "vc_inv c"
  shows "vc_loop (due_by end_time) beh log c \<noteq> None"
  using assms(2)
proof (induction c arbitrary: log rule: wf_induct_rule [OF wf_inv_image [OF wf_mult [OF wf_less_than],
      where f = "\<lambda>c. left end_time (mset (vc_event_queue c))"]])
  case (1 c log)
  show ?case
  proof (cases "vc_event_queue c")
    case Nil
    then show ?thesis by (simp add: vc_loop.simps)
  next
    case (Cons e rest)
    show ?thesis
    proof (cases "ev_due_time e \<le> end_time")
      case False
      then show ?thesis by (simp add: vc_loop.simps Cons due_by_def)
    next
      case True
      obtain c1 r1 where c1: "vc_advance_to_next_event beh c = (c1, r1)" by force
      from vc_advance [OF 1(2) Cons c1] assms(1) obtain new where i1: "vc_inv c1"
        and m: "mset (vc_event_queue c1) = mset rest + new" "\<forall>x \<in># new. ev_due_time e < ev_due_time x"
        by blast
      from left_descends [OF True m(2), of "mset rest"]
      have "(left end_time (mset (vc_event_queue c1)), left end_time (mset (vc_event_queue c))) \<in> mult less_than"
        by (simp add: m(1) Cons)
      then have IH: "vc_loop (due_by end_time) beh l c1 \<noteq> None" for l
        using 1(1) [of c1 l] i1 by (simp add: in_inv_image)
      have "due_by end_time (e # rest) (length log)" using True by (simp add: due_by_def)
      then show ?thesis
        using IH [of "log @ [e]"] by (subst vc_loop.simps) (simp add: Cons c1 split: sum.split)
    qed
  qed
qed

section \<open>Properties\<close>

text \<open>
  C23: Whatever the callbacks schedule, when \<^verbatim>\<open>run_until\<close> returns it has executed events in
  the order of their due times, each between the old time and the end time and with the
  clock at its due time; it has lost none; and unless a callback raised, the clock is at the
  later of its old time and the end time and everything still pending is due after that.
\<close>

theorem clock_run_until_ordered:
  assumes "vc_inv c" and "vc_run_until beh end_time c = Some (c', log, r)"
  shows "vc_inv c' \<and> vc_current_time c \<le> vc_current_time c' \<and> sorted (map ev_due_time log) \<and>
    (\<forall>e \<in> set log. vc_current_time c \<le> ev_due_time e \<and> ev_due_time e \<le> end_time) \<and>
    mset (vc_event_queue c) \<subseteq># mset log + mset (vc_event_queue c') \<and>
    (\<forall>n. r = Inr n \<longrightarrow> n = length log \<and> vc_current_time c' = max (vc_current_time c) end_time \<and>
       (\<forall>e \<in> set (vc_event_queue c'). end_time < ev_due_time e))"
proof -
  obtain c1 r1 where l: "vc_loop (due_by end_time) beh [] c = Some (c1, log, r1)"
    and e: "(c', r) = (case r1 of Inl e \<Rightarrow> (c1, Inl e)
      | Inr _ \<Rightarrow> (if end_time > vc_current_time c1 then c1\<lparr> vc_current_time := end_time \<rparr> else c1, Inr (length log)))"
    using assms(2) by (auto simp: vc_run_until_def split: option.splits sum.splits)
  from vc_loop_executed' [OF l] assms(1) have x: "executed (due_by end_time) c log c1"
    and stop: "is_ok r1 \<longrightarrow> vc_event_queue c1 = [] \<or> \<not> due_by end_time (vc_event_queue c1) (length log)"
    by auto
  from x have i1: "vc_inv c1" and t1: "vc_current_time c \<le> vc_current_time c1"
    and s: "sorted (map ev_due_time log)" and m: "mset (vc_event_queue c) \<subseteq># mset log + mset (vc_event_queue c1)"
    and d: "\<forall>e \<in> set log. vc_current_time c \<le> ev_due_time e \<and> ev_due_time e \<le> end_time"
    and last: "vc_current_time c1 = (if log = [] then vc_current_time c else ev_due_time (last log))"
    by (auto simp: executed_def due_by_def)
  have le: "vc_current_time c1 \<le> max (vc_current_time c) end_time"
    using d last by (cases "log = []") (auto simp: le_max_iff_disj)
  show ?thesis
  proof (cases r1)
    case (Inl x)
    then have "c' = c1" "r = Inl x" using e by simp_all
    with i1 t1 s m d show ?thesis by simp
  next
    case (Inr u)
    then have c': "c' = (if end_time > vc_current_time c1 then c1\<lparr> vc_current_time := end_time \<rparr> else c1)"
      and r: "r = Inr (length log)" using e by simp_all
    have after: "end_time < ev_due_time x" if "x \<in> set (vc_event_queue c1)" for x
    proof (cases "vc_event_queue c1")
      case (Cons y ys)
      then have "end_time < ev_due_time y" using stop Inr by (simp add: due_by_def)
      moreover have "ev_due_time y \<le> ev_due_time x"
        using i1 that by (auto simp: vc_inv_def Cons dest: key_due)
      ultimately show ?thesis by simp
    qed (use that in simp)
    have "vc_inv c'" using i1 after by (auto simp: c' vc_inv_def less_imp_le)
    moreover have "vc_current_time c' = max (vc_current_time c) end_time"
      using le t1 by (auto simp: c')
    moreover have "vc_event_queue c' = vc_event_queue c1" by (simp add: c')
    ultimately show ?thesis using s m d r after by simp
  qed
qed

definition demo_beh :: "nat behaviour" where
  "demo_beh cb t = (if cb = 0 then [] else [Schedule 5 (cb - 1) 0 7 0, ScheduleAt (t + 9) 0 1 8 0])"

definition demo_clock :: "nat vclock" where
  "demo_clock = fst (vc_calls [Schedule 10 1 0 7 0, Schedule 3 0 1 8 0] (vc_init None))"

lemma demo_clock_inv: "vc_inv demo_clock"
proof -
  have "\<exists>c r. vc_calls [Schedule 10 1 0 7 0, Schedule 3 0 1 8 0] (vc_init None :: nat vclock) = (c, r)" by force
  then obtain c r where c: "vc_calls [Schedule 10 1 0 7 0, Schedule 3 0 1 8 0] (vc_init None :: nat vclock) = (c, r)"
    by blast
  with vc_calls_added [OF c] vc_init_inv [of None] show ?thesis by (auto simp: demo_clock_def added_def)
qed

lemma clock_run_until_ordered_witness:
  "\<exists>c' log. vc_run_until demo_beh 16 demo_clock = Some (c', log, Inr 3) \<and>
     vc_current_time c' = 16 \<and> length log = 3 \<and> sorted (map ev_due_time log)"
proof -
  have "map_option (\<lambda>(c', log, r). r) (vc_run_until demo_beh 16 demo_clock) = Some (Inr 3)" by code_simp
  then obtain c' log where r: "vc_run_until demo_beh 16 demo_clock = Some (c', log, Inr 3)" by auto
  have "vc_current_time demo_clock = 0" by code_simp
  with r clock_run_until_ordered [OF demo_clock_inv r] show ?thesis by auto
qed

text \<open>
  C36: \<^verbatim>\<open>run_until\<close> returns whenever every callback only schedules strictly into the future,
  however many events it schedules.
\<close>

theorem clock_run_until_returns:
  assumes "\<forall>cb t. \<forall>x \<in> set (beh cb t). later t x" and "vc_inv c"
  shows "\<exists>c' log r. vc_run_until beh end_time c = Some (c', log, r)"
  using vc_loop_returns [OF assms, of end_time "[]"]
  by (auto simp: vc_run_until_def split: sum.split)

lemma clock_run_until_returns_witness:
  "\<exists>c' log r. vc_run_until demo_beh 1000000 demo_clock = Some (c', log, r)"
  by (rule clock_run_until_returns [OF _ demo_clock_inv]) (simp add: demo_beh_def)

end
