(* ===== verification/LinkSimulator.thy ===== *)
theory LinkSimulator
  imports ControlMessages SessionManager FileEpoch FaultModel VirtualClock FilePackets Ccsds
begin

text \<open>
  \<^verbatim>\<open>link_sim/link_simulator.py\<close>: the link itself, composed of the session manager, the file
  epoch manager, the contact schedule, the fault model and the virtual clock. The callback of a
  scheduled event is the record of what its closure captures. Every operation returns the state
  it leaves together with its result, an exception included. The callbacks \<^verbatim>\<open>on_accepted\<close> and
  \<^verbatim>\<open>on_consumed\<close> only observe: what they are called with is the list \<open>ls_notified\<close>; what
  \<^verbatim>\<open>state_changed\<close> can persist is the list \<open>ls_saved\<close>; what the transport accepts is
  \<open>ls_sent\<close>. SHA-256, the transport, \<^verbatim>\<open>on_delivered\<close> and \<^verbatim>\<open>str\<close> of a value that is not a string
  are parameters.
\<close>

section \<open>State\<close>

record callbacks =
  cb_accepted :: bool
  cb_consumed :: bool
  cb_delivered :: "(transport_frame \<Rightarrow> ustr option res) option"

text \<open>What the closure \<^verbatim>\<open>deliver\<close> captures.\<close>

record delivery =
  dl_egress_envelope :: sideband_envelope
  dl_frame_bytes :: bytes
  dl_copy_index :: int
  dl_packet_type :: "file_packet_type option"
  dl_epoch_id :: int
  dl_session :: "session option"
  dl_spacecraft_instance_id :: int
  dl_link_frame_id :: int
  dl_callbacks :: callbacks

record admission =
  ad_admission_order :: int
  ad_link_frame_id :: int
  ad_ingress_time_ns :: int
  ad_spacecraft_instance_id :: int
  ad_sender_frame_id :: int
  ad_session_id :: int
  ad_direction :: direction
  ad_frame_length :: int

record link_env =
  le_sha256 :: "bytes \<Rightarrow> bytes"
  le_transport :: "(transport_frame \<Rightarrow> unit res) option"
  le_str :: "py_value \<Rightarrow> ustr"

record link_checkpoint =
  lk_next_link_frame_id :: int
  lk_session_manager :: "int \<times> (int, int) dict"

record link_simulator =
  ls_simulation_run_id :: int
  ls_seed :: int
  ls_uplink_profile :: fault_profile
  ls_downlink_profile :: fault_profile
  ls_clock :: "delivery vclock"
  ls_contact_schedule :: contact_schedule
  ls_fault_model :: fault_model
  ls_session_manager :: session_manager
  ls_file_epoch_manager :: file_epoch_manager
  ls_next_link_frame_id :: int
  ls_uplink_available_ns :: int
  ls_downlink_available_ns :: int
  ls_admission_log :: "admission list"
  ls_control_events :: "link_control list"
  ls_notified :: "link_control list"
  ls_saved :: "link_checkpoint list"
  ls_sent :: "transport_frame list"

definition ls_init ::
  "int \<Rightarrow> int \<Rightarrow> fault_profile \<Rightarrow> fault_profile \<Rightarrow> contact_schedule \<Rightarrow> session_manager \<Rightarrow> int \<Rightarrow> link_simulator res" where
  "ls_init simulation_run_id seed uplink downlink schedule sessions next_link_frame_id =
     (if \<not> (1 \<le> next_link_frame_id \<and> next_link_frame_id \<le> 0xFFFFFFFFFFFFFFFF)
      then Inl (ValueError ''next_link_frame_id must fit U64 and be positive'')
      else Inr
        \<lparr> ls_simulation_run_id = simulation_run_id, ls_seed = seed, ls_uplink_profile = uplink,
          ls_downlink_profile = downlink, ls_clock = vc_init None, ls_contact_schedule = schedule,
          ls_fault_model = \<lparr> fm_seed = seed, fm_simulation_run_id = simulation_run_id \<rparr>,
          ls_session_manager = sessions, ls_file_epoch_manager = fe_init,
          ls_next_link_frame_id = next_link_frame_id, ls_uplink_available_ns = 0,
          ls_downlink_available_ns = 0, ls_admission_log = [], ls_control_events = [],
          ls_notified = [], ls_saved = [], ls_sent = [] \<rparr>)"

text \<open>A call that may raise, followed by the rest of the method.\<close>

definition after :: "'s \<times> 'a res \<Rightarrow> ('s \<Rightarrow> 'a \<Rightarrow> 's \<times> 'b res) \<Rightarrow> 's \<times> 'b res" where
  "after r k = (case r of (s, Inl e) \<Rightarrow> (s, Inl e) | (s, Inr x) \<Rightarrow> k s x)"

lemma after_simps [simp]:
  "after (s, Inl e) k = (s, Inl e)"
  "after (s, Inr x) k = k s x"
  by (simp_all add: after_def)

definition try_res :: "'a res \<Rightarrow> 's \<Rightarrow> 's \<times> 'a res" where
  "try_res r s = (s, r)"

section \<open>Control messages and checkpoints\<close>

definition ls_checkpoint :: "link_simulator \<Rightarrow> link_checkpoint" where
  "ls_checkpoint s =
     \<lparr> lk_next_link_frame_id = ls_next_link_frame_id s,
       lk_session_manager = sm_checkpoint (ls_session_manager s) \<rparr>"

definition ls_checkpoint_changed :: "link_simulator \<Rightarrow> link_simulator" where
  "ls_checkpoint_changed s = s\<lparr> ls_saved := ls_saved s @ [ls_checkpoint s] \<rparr>"

text \<open>The message of a session (or of none), before it is checked.\<close>

definition control_message ::
  "link_control_type \<Rightarrow> session option \<Rightarrow> int \<Rightarrow> int \<Rightarrow> int \<Rightarrow> int \<Rightarrow> ustr option \<Rightarrow> ustr option \<Rightarrow> link_control" where
  "control_message message_type session inst link_frame_id file_epoch_id copy_index status reason =
     \<lparr> lc_message_type = message_type, lc_spacecraft_instance_id = inst,
       lc_sender_boot_id = (case session of None \<Rightarrow> 0 | Some x \<Rightarrow> ss_sender_boot_id x),
       lc_link_session_id = (case session of None \<Rightarrow> 0 | Some x \<Rightarrow> ss_session_id x),
       lc_link_generation = (case session of None \<Rightarrow> 0 | Some x \<Rightarrow> ss_generation x),
       lc_link_frame_id = link_frame_id, lc_file_epoch_id = file_epoch_id, lc_copy_index = copy_index,
       lc_status = status, lc_reason = reason \<rparr>"

definition ls_control :: "link_control \<Rightarrow> link_simulator \<Rightarrow> link_simulator \<times> link_control res" where
  "ls_control message s =
     (case lc_post_init message of
        Inl e \<Rightarrow> (s, Inl e)
      | Inr m \<Rightarrow> (s\<lparr> ls_control_events := ls_control_events s @ [m] \<rparr>, Inr m))"

definition ls_notify :: "bool \<Rightarrow> link_control \<Rightarrow> link_simulator \<Rightarrow> link_simulator" where
  "ls_notify present m s = (if present then s\<lparr> ls_notified := ls_notified s @ [m] \<rparr> else s)"

section \<open>Sessions\<close>

definition ls_now :: "link_simulator \<Rightarrow> sim_time" where
  "ls_now s = vc_current_time (ls_clock s)"

definition ls_open :: "int \<Rightarrow> int \<Rightarrow> link_simulator \<Rightarrow> link_simulator \<times> int res" where
  "ls_open inst boot s =
     (case sm_create_session inst boot (ls_now s) (ls_session_manager s) of
        (sm, r) \<Rightarrow> (s\<lparr> ls_session_manager := sm \<rparr>, r))"

definition ls_announce ::
  "link_control_type \<Rightarrow> int \<Rightarrow> int \<Rightarrow> link_simulator \<Rightarrow> link_simulator \<times> int res" where
  "ls_announce message_type inst session_id s =
     (let session = sm_get_session (ls_session_manager s) session_id in
      after (ls_control (control_message message_type session inst 0 0 0 None None) s) (\<lambda>s _.
      after (ls_control (control_message SESSION_READY session inst 0 0 0 (Some (ustr ''READY'')) None) s)
        (\<lambda>s _. (s, Inr session_id))))"

definition ls_create_session :: "int \<Rightarrow> int \<Rightarrow> link_simulator \<Rightarrow> link_simulator \<times> int res" where
  "ls_create_session inst boot s =
     after (ls_open inst boot s) (\<lambda>s session_id.
       let s = ls_checkpoint_changed s;
           s = s\<lparr> ls_file_epoch_manager := fe_open_session boot (ls_file_epoch_manager s) \<rparr>
       in ls_announce OPEN_SESSION inst session_id s)"

definition ls_close_session :: "int \<Rightarrow> link_simulator \<Rightarrow> link_simulator \<times> unit res" where
  "ls_close_session session_id s =
     (case sm_close_session session_id (ls_now s) (ls_session_manager s) of
        (sm, None) \<Rightarrow> (s\<lparr> ls_session_manager := sm \<rparr>, Inl (ValueError ''Unknown session''))
      | (sm, Some session) \<Rightarrow>
          let s = s\<lparr> ls_session_manager := sm,
                ls_file_epoch_manager := fe_close_session (ss_sender_boot_id session) (ls_file_epoch_manager s) \<rparr>
          in after (ls_control (control_message SESSION_RESET (Some session) (ss_spacecraft_instance_id session)
                0 0 0 None (Some (ustr ''SESSION_CLOSED''))) s) (\<lambda>s _. (s, Inr ())))"

definition ls_reset_session :: "int \<Rightarrow> int \<Rightarrow> link_simulator \<Rightarrow> link_simulator \<times> int res" where
  "ls_reset_session inst boot s =
     (let s = (case sm_get_active_session (ls_session_manager s) inst of
                 None \<Rightarrow> s
               | Some active \<Rightarrow> s\<lparr> ls_session_manager :=
                   fst (sm_close_session (ss_session_id active) (ls_now s) (ls_session_manager s)) \<rparr>);
          s = s\<lparr> ls_file_epoch_manager := fe_open_session boot (ls_file_epoch_manager s) \<rparr>
      in after (ls_open inst boot s) (\<lambda>s session_id.
           ls_announce SESSION_RESET inst session_id (ls_checkpoint_changed s)))"

definition ls_abort_file_epoch :: "int \<Rightarrow> ustr \<Rightarrow> link_simulator \<Rightarrow> link_simulator \<times> bool res" where
  "ls_abort_file_epoch file_epoch_id reason s =
     (case fe_get_current_attempt (ls_file_epoch_manager s) of
        None \<Rightarrow> (s, Inr False)
      | Some current \<Rightarrow>
          if fa_epoch_id current \<noteq> file_epoch_id then (s, Inr False)
          else case fe_abort_attempt (fa_attempt_id current) 0 (ls_file_epoch_manager s) of
            (fe, result) \<Rightarrow>
              let s = s\<lparr> ls_file_epoch_manager := fe \<rparr>;
                  session = sm_get_session (ls_session_manager s) (fa_session_id current)
              in after (ls_control (control_message ABORT_FILE_EPOCH session (fa_spacecraft_instance_id current)
                    0 file_epoch_id 0 None (Some reason)) s) (\<lambda>s _. (s, Inr result)))"

section \<open>Admission\<close>

text \<open>The outer \<open>None\<close> of the source's two: without any session the gate is open.\<close>

definition ls_session_for_ingress :: "sideband_envelope \<Rightarrow> link_simulator \<Rightarrow> session option" where
  "ls_session_for_ingress e s =
     (let sm = ls_session_manager s in
      if sm_session_history sm = [] then None
      else case sm_get_session sm (env_link_session_id e) of
        None \<Rightarrow> None
      | Some session \<Rightarrow>
          if ss_state session \<noteq> ACTIVE then None
          else if ss_spacecraft_instance_id session \<noteq> env_spacecraft_instance_id e then None
          else case sm_get_active_session sm (env_spacecraft_instance_id e) of
            None \<Rightarrow> None
          | Some active \<Rightarrow> if ss_session_id active \<noteq> ss_session_id session then None else Some session)"

definition FILE_APID :: int where "FILE_APID = 3"

definition file_packet_info :: "bytes \<Rightarrow> file_packet option res" where
  "file_packet_info frame_bytes =
     (let caught = (\<lambda>e. case e of ValueError _ \<Rightarrow> Inr None | TypeError _ \<Rightarrow> Inr None | _ \<Rightarrow> Inl e) in
      case decode_tm_frame frame_bytes of
        Inl e \<Rightarrow> caught e
      | Inr tm \<Rightarrow>
          if sp_apid (tm_packet tm) \<noteq> FILE_APID then Inr None
          else case decode_file_packet (sp_payload (tm_packet tm)) 3 of
            Inl e \<Rightarrow> caught e
          | Inr packet \<Rightarrow> Inr (Some packet))"

definition start_path :: "(py_value \<Rightarrow> ustr) \<Rightarrow> bytes \<Rightarrow> ustr res" where
  "start_path str payload =
     (case rbind (utf8_decode payload) json_loads of
        Inl e \<Rightarrow> if e = json_error \<or> e = ValueError ''invalid UTF-8'' then Inr [] else Inl e
      | Inr (PDict metadata) \<Rightarrow> Inr
          (case dget ''destination'' metadata of None \<Rightarrow> [] | Some (PStr path) \<Rightarrow> path | Some v \<Rightarrow> str v)
      | Inr _ \<Rightarrow> Inr [])"

text \<open>The epoch, the reason of a rejection and the type of a file packet.\<close>

type_synonym file_admission = "int \<times> string option \<times> file_packet_type option"

definition refused_reason :: "string + int \<Rightarrow> string option" where
  "refused_reason r = (case r of Inl reason \<Rightarrow> Some reason | Inr _ \<Rightarrow> None)"

definition admit_file_packet ::
  "link_env \<Rightarrow> session \<Rightarrow> int \<Rightarrow> file_packet \<Rightarrow> file_epoch_manager \<Rightarrow> file_epoch_manager \<times> file_admission res" where
  "admit_file_packet env session link_frame_id info fe =
     (let boot = ss_sender_boot_id session; t = Some (fp_type info) in
      if fp_type info = START then
        (case start_path (le_str env) (fp_payload info) of
           Inl e \<Rightarrow> (fe, Inl e)
         | Inr path \<Rightarrow>
             case fe_admit_start (ss_session_id session) (ss_spacecraft_instance_id session) boot link_frame_id path fe of
               (fe, None) \<Rightarrow> (fe, Inr (0, Some ''TRANSFER_BUSY'', t))
             | (fe, Some attempt) \<Rightarrow> (fe, Inr (attempt, None, t)))
      else case fe_get_current_attempt fe of
        None \<Rightarrow> (fe, Inr (0, Some ''NO_ACTIVE_TRANSFER'', t))
      | Some current \<Rightarrow>
          if fa_session_id current \<noteq> ss_session_id session
          then (fe, Inr (0, Some ''NO_ACTIVE_TRANSFER'', t))
          else if fp_type info = DATA then
            (case fe_admit_data boot link_frame_id (fp_offset info) (int (length (fp_payload info))) fe of
               (fe, r) \<Rightarrow> (fe, Inr (fa_epoch_id current, refused_reason r, t)))
          else if fp_type info = END then
            (case fe_admit_end boot link_frame_id fe of
               (fe, r) \<Rightarrow> (fe, Inr (fa_epoch_id current, refused_reason r, t)))
          else (fst (fe_abort_attempt (fa_attempt_id current) link_frame_id fe), Inr (fa_epoch_id current, None, t)))"

definition ls_admit_file_epoch ::
  "link_env \<Rightarrow> direction \<Rightarrow> session option \<Rightarrow> int \<Rightarrow> bytes \<Rightarrow> link_simulator \<Rightarrow> link_simulator \<times> file_admission res" where
  "ls_admit_file_epoch env direction session link_frame_id frame_bytes s =
     (if direction \<noteq> EGRESS then (s, Inr (0, None, None))
      else case file_packet_info frame_bytes of
        Inl e \<Rightarrow> (s, Inl e)
      | Inr None \<Rightarrow> (s, Inr (0, None, None))
      | Inr (Some info) \<Rightarrow>
          case session of
            None \<Rightarrow> (s, Inr (0, Some ''NO_ACTIVE_SESSION'', Some (fp_type info)))
          | Some session \<Rightarrow>
              case admit_file_packet env session link_frame_id info (ls_file_epoch_manager s) of
                (fe, r) \<Rightarrow> (s\<lparr> ls_file_epoch_manager := fe \<rparr>, r))"

section \<open>Delivery\<close>

fun error_name :: "pyerr \<Rightarrow> string" where
  "error_name (ValueError _) = ''ValueError''"
| "error_name (TypeError _) = ''TypeError''"
| "error_name (RuntimeError _) = ''RuntimeError''"
| "error_name (OverflowError _) = ''OverflowError''"
| "error_name (OSError _) = ''OSError''"
| "error_name (AssertionError _) = ''AssertionError''"
| "error_name KeyError = ''KeyError''"
| "error_name IndexError = ''IndexError''"
| "error_name StructError = ''error''"
| "error_name ZeroDivisionError = ''ZeroDivisionError''"

definition dl_consumed :: "delivery \<Rightarrow> ustr \<Rightarrow> ustr option \<Rightarrow> link_control" where
  "dl_consumed d status reason =
     control_message FRAME_CONSUMED (dl_session d) (dl_spacecraft_instance_id d) (dl_link_frame_id d)
       (dl_epoch_id d) (dl_copy_index d) (Some status) reason"

definition ls_emit_consumed :: "callbacks \<Rightarrow> link_control \<Rightarrow> link_simulator \<Rightarrow> link_simulator \<times> unit res" where
  "ls_emit_consumed cb message s =
     after (ls_control message s) (\<lambda>s m. (ls_notify (cb_consumed cb) m s, Inr ()))"

definition ls_send :: "link_env \<Rightarrow> transport_frame \<Rightarrow> link_simulator \<Rightarrow> link_simulator \<times> unit res" where
  "ls_send env frame s =
     (case le_transport env of
        None \<Rightarrow> (s, Inr ())
      | Some sender \<Rightarrow>
          case sender frame of
            Inl e \<Rightarrow> (s, Inl e)
          | Inr _ \<Rightarrow> (s\<lparr> ls_sent := ls_sent s @ [frame] \<rparr>, Inr ()))"

definition delivered_status :: "callbacks \<Rightarrow> transport_frame \<Rightarrow> ustr res" where
  "delivered_status cb frame =
     (case cb_delivered cb of
        None \<Rightarrow> Inr (ustr ''FRAME_CONSUMED'')
      | Some on_delivered \<Rightarrow> rbind (on_delivered frame) (\<lambda>status. Inr
          (case status of None \<Rightarrow> ustr ''FRAME_CONSUMED'' | Some t \<Rightarrow> if t = [] then ustr ''FRAME_CONSUMED'' else t)))"

definition ls_complete_file :: "delivery \<Rightarrow> link_simulator \<Rightarrow> link_simulator" where
  "ls_complete_file d s =
     (if dl_packet_type d \<in> {Some END, Some CANCEL} \<and> dl_epoch_id d \<noteq> 0 then
        (case fe_get_current_attempt (ls_file_epoch_manager s) of
           None \<Rightarrow> s
         | Some current \<Rightarrow>
             if fa_epoch_id current = dl_epoch_id d
             then s\<lparr> ls_file_epoch_manager :=
               fst (fe_complete_attempt (fa_attempt_id current) (ls_file_epoch_manager s)) \<rparr>
             else s)
      else s)"

text \<open>The body of the \<^verbatim>\<open>try\<close>.\<close>

definition ls_hand_over :: "link_env \<Rightarrow> delivery \<Rightarrow> transport_frame \<Rightarrow> link_simulator \<Rightarrow> link_simulator \<times> unit res" where
  "ls_hand_over env d frame s =
     after (ls_send env frame s) (\<lambda>s _.
     after (try_res (delivered_status (dl_callbacks d) frame) s) (\<lambda>s status.
     ls_emit_consumed (dl_callbacks d) (dl_consumed d status None) (ls_complete_file d s)))"

definition ls_deliver :: "link_env \<Rightarrow> delivery \<Rightarrow> link_simulator \<Rightarrow> link_simulator \<times> unit res" where
  "ls_deliver env d s =
     after (try_res (new_transport_frame (dl_egress_envelope d) (dl_frame_bytes d) (dl_copy_index d)) s) (\<lambda>s frame.
     case ls_hand_over env d frame s of
       (s, Inr _) \<Rightarrow> (s, Inr ())
     | (s, Inl e) \<Rightarrow>
         ls_emit_consumed (dl_callbacks d) (dl_consumed d (ustr ''FRAME_FAILED'') (Some (ustr (error_name e)))) s)"

definition egress_envelope ::
  "sideband_envelope \<Rightarrow> session option \<Rightarrow> int \<Rightarrow> int \<Rightarrow> int \<Rightarrow> nat \<Rightarrow> sideband_envelope" where
  "egress_envelope e session link_frame_id epoch_id copy_index frame_length =
     \<lparr> env_magic = ENVELOPE_MAGIC, env_version = (if copy_index = 0 then 1 else 2), env_direction = EGRESS,
       env_reserved = 0, env_spacecraft_instance_id = env_spacecraft_instance_id e,
       env_sender_boot_id = (case session of Some x \<Rightarrow> ss_sender_boot_id x | None \<Rightarrow> env_sender_boot_id e),
       env_link_session_id = env_link_session_id e, env_sender_frame_id = env_sender_frame_id e,
       env_link_frame_id = link_frame_id, env_file_epoch_id = epoch_id,
       env_frame_length = int frame_length, env_copy_index = copy_index \<rparr>"

text \<open>What \<^verbatim>\<open>_schedule_delivery\<close> is given about the frame, besides the copy and its decision.\<close>

record admitted =
  am_link_frame_id :: int
  am_frame_bytes :: bytes
  am_envelope :: sideband_envelope
  am_direction :: direction
  am_session :: "session option"
  am_epoch_id :: int
  am_packet_type :: "file_packet_type option"
  am_callbacks :: callbacks

definition delivery_of :: "admitted \<Rightarrow> int \<Rightarrow> bytes \<Rightarrow> delivery" where
  "delivery_of a copy_index frame_bytes =
     \<lparr> dl_egress_envelope = egress_envelope (am_envelope a) (am_session a) (am_link_frame_id a)
         (am_epoch_id a) copy_index (length frame_bytes),
       dl_frame_bytes = frame_bytes, dl_copy_index = copy_index, dl_packet_type = am_packet_type a,
       dl_epoch_id = am_epoch_id a, dl_session = am_session a,
       dl_spacecraft_instance_id = env_spacecraft_instance_id (am_envelope a),
       dl_link_frame_id = am_link_frame_id a, dl_callbacks = am_callbacks a \<rparr>"

definition ls_schedule_delivery ::
  "admitted \<Rightarrow> int \<Rightarrow> fault_decision \<Rightarrow> link_simulator \<Rightarrow> link_simulator \<times> unit res" where
  "ls_schedule_delivery a copy_index decision s =
     after (try_res (if fd_is_corrupted decision \<and> fd_corrupted_bits decision \<noteq> []
         then corrupt_frame (am_frame_bytes a) (fd_corrupted_bits decision) else Inr (am_frame_bytes a)) s)
       (\<lambda>s frame_bytes.
     let d = delivery_of a copy_index frame_bytes in
     after (try_res (validate_egress (dl_egress_envelope d) None None None) s) (\<lambda>s _.
     after (try_res (simulation_time (fd_release_ns decision)) s) (\<lambda>s delivery_time.
     case vc_schedule_at delivery_time d (direction_value (am_direction a)) (am_link_frame_id a) copy_index
         (ls_clock s) of
       (clock, r) \<Rightarrow> (s\<lparr> ls_clock := clock \<rparr>, r))))"

section \<open>Admitting a frame\<close>

definition ls_available :: "direction \<Rightarrow> link_simulator \<Rightarrow> int" where
  "ls_available direction s =
     (if direction = INGRESS then ls_uplink_available_ns s else ls_downlink_available_ns s)"

definition ls_set_available :: "direction \<Rightarrow> int \<Rightarrow> link_simulator \<Rightarrow> link_simulator" where
  "ls_set_available direction t s =
     (if direction = INGRESS then s\<lparr> ls_uplink_available_ns := t \<rparr> else s\<lparr> ls_downlink_available_ns := t \<rparr>)"

definition ls_profile :: "direction \<Rightarrow> link_simulator \<Rightarrow> fault_profile" where
  "ls_profile direction s =
     (if direction = INGRESS then ls_uplink_profile s else ls_downlink_profile s)"

text \<open>The decision about one copy; the link is busy until its release.\<close>

definition ls_apply_faults ::
  "link_env \<Rightarrow> admitted \<Rightarrow> int \<Rightarrow> int \<Rightarrow> bool \<Rightarrow> link_simulator \<Rightarrow> link_simulator \<times> fault_decision res" where
  "ls_apply_faults env a ingress_time copy_index include_duplicate s =
     (let d = am_direction a in
      after (try_res (apply_faults (le_sha256 env) (ls_fault_model s) (ls_profile d s) (direction_value d)
          (am_link_frame_id a) (int (length (am_frame_bytes a)) * 8) ingress_time (ls_available d s)
          copy_index include_duplicate) s) (\<lambda>s decision.
        (ls_set_available d (fd_release_ns decision) s, Inr decision)))"

definition am_control :: "admitted \<Rightarrow> link_control_type \<Rightarrow> int \<Rightarrow> string \<Rightarrow> ustr option \<Rightarrow> link_control" where
  "am_control a message_type copy_index status reason =
     control_message message_type (am_session a) (env_spacecraft_instance_id (am_envelope a))
       (am_link_frame_id a) (am_epoch_id a) copy_index (Some (ustr status)) reason"

definition ls_lost :: "admitted \<Rightarrow> int \<Rightarrow> string \<Rightarrow> link_simulator \<Rightarrow> link_simulator \<times> unit res" where
  "ls_lost a copy_index reason s =
     ls_emit_consumed (am_callbacks a) (am_control a FRAME_CONSUMED copy_index ''FRAME_LOST'' (Some (ustr reason))) s"

text \<open>From the fault decision on: the frame, then its duplicate.\<close>

definition ls_duplicate :: "link_env \<Rightarrow> admitted \<Rightarrow> int \<Rightarrow> link_simulator \<Rightarrow> link_simulator \<times> unit res" where
  "ls_duplicate env a ingress_time s =
     after (ls_apply_faults env a ingress_time 1 False s) (\<lambda>s duplicate.
       if \<not> fd_is_lost duplicate then ls_schedule_delivery a 1 duplicate s
       else ls_lost a 1 ''FAULT_DUPLICATE_COPY_LOSS'' s)"

definition ls_transmit :: "link_env \<Rightarrow> admitted \<Rightarrow> int \<Rightarrow> link_simulator \<Rightarrow> link_simulator \<times> unit res" where
  "ls_transmit env a ingress_time s =
     after (ls_apply_faults env a ingress_time 0 True s) (\<lambda>s decision.
       if fd_is_lost decision then ls_lost a 0 ''FAULT_LOSS'' s
       else after (ls_schedule_delivery a 0 decision s) (\<lambda>s _.
         if fd_has_duplicate decision then ls_duplicate env a ingress_time s else (s, Inr ())))"

text \<open>The locked part: the admission order, the frame id, the log entry.\<close>

definition ls_allocate :: "sideband_envelope \<Rightarrow> direction \<Rightarrow> link_simulator \<Rightarrow> link_simulator \<times> int res" where
  "ls_allocate e direction s =
     (case vc_get_admission_order (ls_clock s) of (clock, order) \<Rightarrow>
        let s = s\<lparr> ls_clock := clock \<rparr>; link_frame_id = ls_next_link_frame_id s in
        if link_frame_id \<ge> 0xFFFFFFFFFFFFFFFF
        then (s, Inl (RuntimeError ''link frame ID allocator exhausted''))
        else (s\<lparr> ls_next_link_frame_id := ls_next_link_frame_id s + 1,
                 ls_admission_log := ls_admission_log s @
                   [\<lparr> ad_admission_order = order, ad_link_frame_id = link_frame_id, ad_ingress_time_ns = ls_now s,
                      ad_spacecraft_instance_id = env_spacecraft_instance_id e,
                      ad_sender_frame_id = env_sender_frame_id e, ad_session_id = env_link_session_id e,
                      ad_direction = direction, ad_frame_length = env_frame_length e \<rparr>] \<rparr>,
              Inr link_frame_id))"

definition ls_accept :: "link_env \<Rightarrow> admitted \<Rightarrow> int \<Rightarrow> link_simulator \<Rightarrow> link_simulator \<times> int option res" where
  "ls_accept env a ingress_time s =
     after (ls_control (am_control a FRAME_ACCEPTED 0 ''ACCEPTED'' None) s) (\<lambda>s accepted.
       let s = ls_notify (cb_accepted (am_callbacks a)) accepted s in
       after (ls_transmit env a ingress_time s) (\<lambda>s _. (s, Inr (Some (am_link_frame_id a)))))"

definition ls_refuse :: "admitted \<Rightarrow> string \<Rightarrow> link_simulator \<Rightarrow> link_simulator \<times> int option res" where
  "ls_refuse a reason s =
     (if cb_consumed (am_callbacks a)
      then after (ls_emit_consumed (am_callbacks a)
        (am_control a FRAME_CONSUMED 0 ''FILE_EPOCH_REJECTED'' (Some (ustr reason))) s) (\<lambda>s _. (s, Inr None))
      else (s, Inr None))"

definition ls_admit_frame ::
  "link_env \<Rightarrow> transport_frame \<Rightarrow> direction \<Rightarrow> callbacks \<Rightarrow> link_simulator \<Rightarrow> link_simulator \<times> int option res" where
  "ls_admit_frame env tf direction cb s =
     (let e = tf_envelope tf; frame_bytes = tf_frame_bytes tf; session = ls_session_for_ingress e s in
      if validate_ingress e \<noteq> Inr () then (s, Inr None)
      else if cs_should_drop_frame (ls_contact_schedule s) (ls_now s) then (s, Inr None)
      else if sm_session_history (ls_session_manager s) \<noteq> [] \<and> session = None then (s, Inr None)
      else
        let ingress_time = ls_now s in
        after (ls_allocate e direction s) (\<lambda>s link_frame_id.
        after (ls_admit_file_epoch env direction session link_frame_id frame_bytes (ls_checkpoint_changed s))
          (\<lambda>s (epoch_id, epoch_error, packet_type).
        let a = \<lparr> am_link_frame_id = link_frame_id, am_frame_bytes = frame_bytes, am_envelope = e,
              am_direction = direction, am_session = session, am_epoch_id = epoch_id,
              am_packet_type = packet_type, am_callbacks = cb \<rparr>
        in case epoch_error of
             Some reason \<Rightarrow> ls_refuse a reason s
           | None \<Rightarrow> ls_accept env a ingress_time s)))"

section \<open>Running the clock\<close>

definition ls_pop :: "delivery event \<Rightarrow> delivery event list \<Rightarrow> link_simulator \<Rightarrow> link_simulator" where
  "ls_pop event rest s =
     s\<lparr> ls_clock := (ls_clock s)\<lparr> vc_event_queue := rest, vc_current_time := ev_due_time event \<rparr> \<rparr>"

definition ls_advance :: "link_env \<Rightarrow> link_simulator \<Rightarrow> link_simulator \<times> bool res" where
  "ls_advance env s =
     (case vc_event_queue (ls_clock s) of
        [] \<Rightarrow> (s, Inr False)
      | event # rest \<Rightarrow> after (ls_deliver env (ev_callback event) (ls_pop event rest s)) (\<lambda>s _. (s, Inr True)))"

lemma ls_emit_clock: "ls_clock (fst (ls_emit_consumed cb m s)) = ls_clock s"
  by (simp add: ls_emit_consumed_def ls_control_def ls_notify_def after_def split: sum.split)

lemma ls_deliver_clock: "ls_clock (fst (ls_deliver env d s)) = ls_clock s"
proof -
  have "ls_clock (fst (ls_send env frame s)) = ls_clock s" for frame s
    by (simp add: ls_send_def split: option.split sum.split)
  moreover have "ls_clock (ls_complete_file d s) = ls_clock s" for s
    by (simp add: ls_complete_file_def split: option.split)
  ultimately have "ls_clock (fst (ls_hand_over env d frame s)) = ls_clock s" for frame s
    by (cases "ls_send env frame s"; cases "delivered_status (dl_callbacks d) frame")
      (auto simp: ls_hand_over_def after_def try_res_def ls_emit_clock split: sum.split dest!: arg_cong [where f = fst])
  then show ?thesis
    by (auto simp: ls_deliver_def after_def try_res_def ls_emit_clock split: sum.split prod.split)
      (metis fst_conv)+
qed

lemma ls_advance_shorter:
  assumes "ls_advance env s = (s', Inr True)"
  shows "length (vc_event_queue (ls_clock s')) < length (vc_event_queue (ls_clock s))"
proof -
  obtain e rest where q: "vc_event_queue (ls_clock s) = e # rest"
    and d: "fst (ls_deliver env (ev_callback e) (ls_pop e rest s)) = s'"
    using assms by (auto simp: ls_advance_def after_def split: list.splits sum.splits prod.splits)
  have "ls_clock s' = ls_clock (ls_pop e rest s)" unfolding d [symmetric] by (rule ls_deliver_clock)
  then show ?thesis using q by (simp add: ls_pop_def)
qed

text \<open>\<^verbatim>\<open>run_until_idle\<close> of the clock, on the callbacks of the link; they schedule nothing.\<close>

function ls_run_until_idle :: "link_env \<Rightarrow> nat \<Rightarrow> link_simulator \<Rightarrow> link_simulator \<times> nat res" where
  "ls_run_until_idle env n s =
     (case ls_advance env s of
        (s', Inl e) \<Rightarrow> (s', Inl e)
      | (s', Inr False) \<Rightarrow> (s', Inr n)
      | (s', Inr True) \<Rightarrow> ls_run_until_idle env (Suc n) s')"
  by auto
termination
  by (relation "measure (\<lambda>(env, n, s). length (vc_event_queue (ls_clock s)))") (auto intro: ls_advance_shorter [OF sym])

declare ls_run_until_idle.simps [simp del]

record link_stats =
  lt_simulation_run_id :: string
  lt_seed :: string
  lt_next_link_frame_id :: int
  lt_frames_admitted :: nat
  lt_active_sessions :: nat
  lt_session :: session_stats
  lt_file_epoch :: file_epoch_stats
  lt_current_time_ns :: int

definition ls_get_stats :: "link_simulator \<Rightarrow> link_stats" where
  "ls_get_stats s =
     (let session_stats = sm_get_stats (ls_session_manager s) in
      \<lparr> lt_simulation_run_id = ''0x'' @ hex_pad 16 (nat (ls_simulation_run_id s)),
        lt_seed = ''0x'' @ hex_pad 16 (nat (ls_seed s)), lt_next_link_frame_id = ls_next_link_frame_id s,
        lt_frames_admitted = length (ls_admission_log s), lt_active_sessions = st_active_sessions session_stats,
        lt_session = session_stats, lt_file_epoch = fe_get_stats (ls_file_epoch_manager s),
        lt_current_time_ns = ls_now s \<rparr>)"

text \<open>The calls on a link.\<close>

datatype link_op =
    LinkCreate int int
  | LinkClose int
  | LinkReset int int
  | LinkAbort int ustr
  | LinkAdmit transport_frame direction callbacks
  | LinkAdvance
  | LinkRun

fun ls_step :: "link_env \<Rightarrow> link_simulator \<Rightarrow> link_op \<Rightarrow> link_simulator" where
  "ls_step env s (LinkCreate inst boot) = fst (ls_create_session inst boot s)"
| "ls_step env s (LinkClose session_id) = fst (ls_close_session session_id s)"
| "ls_step env s (LinkReset inst boot) = fst (ls_reset_session inst boot s)"
| "ls_step env s (LinkAbort file_epoch_id reason) = fst (ls_abort_file_epoch file_epoch_id reason s)"
| "ls_step env s (LinkAdmit tf direction cb) = fst (ls_admit_frame env tf direction cb s)"
| "ls_step env s LinkAdvance = fst (ls_advance env s)"
| "ls_step env s LinkRun = fst (ls_run_until_idle env 0 s)"

end
