(* ===== verification/LinkProperties.thy ===== *)
theory LinkProperties
  imports LinkSimulator
begin

text \<open>
  What \<open>LinkSimulator\<close> guarantees: an invariant over the queue of scheduled copies, the frames
  sent and the control events, which every operation keeps, and the properties that follow.
\<close>

section \<open>The invariant\<close>

text \<open>A copy of a frame is identified by its frame id and its copy index.\<close>

type_synonym copy_id = "int \<times> int"

definition ev_id :: "delivery event \<Rightarrow> copy_id" where
  "ev_id e = (ev_link_frame_id e, ev_copy_index e)"

definition tf_id :: "transport_frame \<Rightarrow> copy_id" where
  "tf_id tf = (env_link_frame_id (tf_envelope tf), env_copy_index (tf_envelope tf))"

definition lc_id :: "link_control \<Rightarrow> copy_id" where
  "lc_id m = (lc_link_frame_id m, lc_copy_index m)"

definition consumed :: "link_simulator \<Rightarrow> copy_id list" where
  "consumed s = map lc_id (filter (\<lambda>m. lc_message_type m = FRAME_CONSUMED) (ls_control_events s))"

abbreviation ls_queue :: "link_simulator \<Rightarrow> delivery event list" where
  "ls_queue s \<equiv> vc_event_queue (ls_clock s)"

definition pending_copies :: "link_simulator \<Rightarrow> copy_id list" where
  "pending_copies s = map ev_id (ls_queue s)"

definition frame_direction :: "link_simulator \<Rightarrow> int \<Rightarrow> direction option" where
  "frame_direction s f = map_of (map (\<lambda>a. (ad_link_frame_id a, ad_direction a)) (ls_admission_log s)) f"

text \<open>The copies of one direction: those sent, then those scheduled, in order.\<close>

definition sent_of :: "direction \<Rightarrow> link_simulator \<Rightarrow> copy_id list" where
  "sent_of d s = map tf_id (filter (\<lambda>tf. frame_direction s (env_link_frame_id (tf_envelope tf)) = Some d) (ls_sent s))"

definition queued_of :: "direction \<Rightarrow> link_simulator \<Rightarrow> copy_id list" where
  "queued_of d s = map ev_id (filter (\<lambda>e. ev_direction e = direction_value d) (ls_queue s))"

definition delivery_ok :: "link_simulator \<Rightarrow> delivery event \<Rightarrow> bool" where
  "delivery_ok s e \<longleftrightarrow>
     (let d = ev_callback e; v = dl_egress_envelope d in
      dl_link_frame_id d = ev_link_frame_id e \<and> dl_copy_index d = ev_copy_index e \<and>
      env_link_frame_id v = ev_link_frame_id e \<and> env_copy_index v = ev_copy_index e \<and>
      env_frame_length v = int (length (dl_frame_bytes d)) \<and> ev_copy_index e \<in> {0, 1} \<and>
      lc_post_init (dl_consumed d [] None) = Inr (dl_consumed d [] None) \<and>
      map_option direction_value (frame_direction s (ev_link_frame_id e)) = Some (ev_direction e) \<and>
      ev_due_time e \<le> (if ev_direction e = 0 then ls_uplink_available_ns s else ls_downlink_available_ns s))"

text \<open>Every copy known to the link is below the bound; a copy is scheduled or consumed at most once.\<close>

definition link_inv :: "copy_id \<Rightarrow> link_simulator \<Rightarrow> bool" where
  "link_inv b s \<longleftrightarrow>
     vc_inv (ls_clock s) \<and>
     (\<forall>d. sorted_wrt (<) (sent_of d s @ queued_of d s)) \<and>
     (\<forall>e \<in> set (ls_queue s). delivery_ok s e) \<and>
     (\<forall>tf \<in> set (ls_sent s). frame_direction s (env_link_frame_id (tf_envelope tf)) \<noteq> None) \<and>
     (\<forall>i \<in> set (map tf_id (ls_sent s)) \<union> set (pending_copies s) \<union> set (consumed s). i < b) \<and>
     distinct (consumed s @ pending_copies s) \<and>
     (\<forall>a \<in> set (ls_admission_log s). ad_link_frame_id a < ls_next_link_frame_id s) \<and>
     fst b \<le> ls_next_link_frame_id s"

text \<open>What the invariant is about; the rest of the state may change freely.\<close>

definition link_view ::
  "link_simulator \<Rightarrow> delivery vclock \<times> transport_frame list \<times> copy_id list \<times> admission list \<times> int \<times> int \<times> int" where
  "link_view s = (ls_clock s, ls_sent s, consumed s, ls_admission_log s, ls_next_link_frame_id s,
     ls_uplink_available_ns s, ls_downlink_available_ns s)"

lemma link_inv_view: "link_view s' = link_view s \<Longrightarrow> link_inv b s' \<longleftrightarrow> link_inv b s"
  by (simp add: link_inv_def link_view_def pending_copies_def sent_of_def queued_of_def frame_direction_def delivery_ok_def Let_def)

text \<open>Control messages.\<close>

lemma msg_valid_text:
  "lc_post_init (m\<lparr> lc_status := st, lc_reason := r \<rparr>) = Inr m' \<longleftrightarrow>
     m' = m\<lparr> lc_status := st, lc_reason := r \<rparr> \<and> lc_post_init m = Inr m"
  by (auto simp: lc_post_init_Inr)

lemma ls_control_cases:
  obtains (raised) e where "ls_control m s = (s, Inl e)"
  | (recorded) "lc_post_init m = Inr m" "ls_control m s = (s\<lparr> ls_control_events := ls_control_events s @ [m] \<rparr>, Inr m)"
  by (cases "lc_post_init m") (auto simp: ls_control_def lc_post_init_Inr)

lemma ls_control_view: "lc_message_type m \<noteq> FRAME_CONSUMED \<Longrightarrow> link_view (fst (ls_control m s)) = link_view s"
  by (rule ls_control_cases [of m s]) (simp_all add: link_view_def consumed_def)

lemma after_view:
  assumes "link_view (fst r) = v" and "\<And>s x. link_view s = v \<Longrightarrow> link_view (fst (k s x)) = v"
  shows "link_view (fst (after r k)) = v"
  using assms by (cases r; cases "snd r") auto

lemma session_view [simp]:
  "link_view (s\<lparr> ls_session_manager := sm \<rparr>) = link_view s"
  "link_view (s\<lparr> ls_file_epoch_manager := fe \<rparr>) = link_view s"
  "link_view (ls_checkpoint_changed s) = link_view s"
  "link_view (ls_notify p m s) = link_view s"
  by (simp_all add: link_view_def consumed_def ls_checkpoint_changed_def ls_notify_def)

lemma control_message_simps [simp]:
  "lc_message_type (control_message t x i f ep c st r) = t"
  "lc_link_frame_id (control_message t x i f ep c st r) = f"
  "lc_copy_index (control_message t x i f ep c st r) = c"
  by (simp_all add: control_message_def)

lemma ls_announce_view: "t \<noteq> FRAME_CONSUMED \<Longrightarrow> link_view (fst (ls_announce t inst sid s)) = link_view s"
  unfolding ls_announce_def Let_def by (intro after_view) (simp_all add: ls_control_view)

lemma ls_open_view: "link_view (fst (ls_open inst boot s)) = link_view s"
  by (simp add: ls_open_def split: prod.split)

lemma ls_create_view: "link_view (fst (ls_create_session inst boot s)) = link_view s"
  unfolding ls_create_session_def Let_def by (intro after_view) (simp_all add: ls_open_view ls_announce_view)

lemma ls_close_view: "link_view (fst (ls_close_session sid s)) = link_view s"
  by (auto simp: ls_close_session_def Let_def ls_control_view intro!: after_view split: prod.split option.split)

lemma ls_reset_view: "link_view (fst (ls_reset_session inst boot s)) = link_view s"
  unfolding ls_reset_session_def Let_def
  by (intro after_view) (simp_all add: ls_open_view ls_announce_view split: option.split)

lemma ls_abort_view: "link_view (fst (ls_abort_file_epoch k reason s)) = link_view s"
  by (auto simp: ls_abort_file_epoch_def Let_def ls_control_view intro!: after_view split: prod.split option.split)

section \<open>Scheduling a copy\<close>

lemma insort_last: "\<forall>y \<in> set xs. f y < f x \<Longrightarrow> insort_key f x xs = xs @ [x]"
  by (induction xs) auto

lemma frame_direction_cong: "ls_admission_log s' = ls_admission_log s \<Longrightarrow> frame_direction s' f = frame_direction s f"
  by (simp add: frame_direction_def)

text \<open>A frame whose messages are valid, and whose direction is the logged one.\<close>

definition admit_ok :: "admitted \<Rightarrow> link_simulator \<Rightarrow> bool" where
  "admit_ok a s \<longleftrightarrow> frame_direction s (am_link_frame_id a) = Some (am_direction a) \<and>
     (\<forall>c \<in> {0, 1}. lc_post_init (am_control a FRAME_CONSUMED c [] None) = Inr (am_control a FRAME_CONSUMED c [] None))"

definition event_of :: "admitted \<Rightarrow> int \<Rightarrow> bytes \<Rightarrow> sim_time \<Rightarrow> delivery event" where
  "event_of a c frame_bytes t =
     \<lparr> ev_due_time = t, ev_direction = direction_value (am_direction a), ev_link_frame_id = am_link_frame_id a,
       ev_copy_index = c, ev_callback = delivery_of a c frame_bytes \<rparr>"

definition scheduled :: "delivery event \<Rightarrow> link_simulator \<Rightarrow> link_simulator" where
  "scheduled e s = s\<lparr> ls_clock := (ls_clock s)\<lparr> vc_event_queue := insort_key ev_key e (ls_queue s) \<rparr> \<rparr>"

lemma ls_schedule_cases:
  obtains (raised) e where "ls_schedule_delivery a c dec s = (s, Inl e)"
  | (pushed) fb where "ls_now s \<le> fd_release_ns dec"
      "ls_schedule_delivery a c dec s = (scheduled (event_of a c fb (fd_release_ns dec)) s, Inr ())"
proof -
  let ?fb = "if fd_is_corrupted dec \<and> fd_corrupted_bits dec \<noteq> []
         then corrupt_frame (am_frame_bytes a) (fd_corrupted_bits dec) else Inr (am_frame_bytes a)"
  show ?thesis
  proof (cases ?fb)
    case (Inl e)
    then show ?thesis by (intro raised [of e]) (simp add: ls_schedule_delivery_def try_res_def)
  next
    case (Inr fb)
    let ?env = "dl_egress_envelope (delivery_of a c fb)"
    consider e where "validate_egress ?env None None None = Inl e"
      | e where "validate_egress ?env None None None = Inr ()" "simulation_time (fd_release_ns dec) = Inl e"
      | "validate_egress ?env None None None = Inr ()" "simulation_time (fd_release_ns dec) = Inr (fd_release_ns dec)"
      by (cases "validate_egress ?env None None None"; cases "simulation_time (fd_release_ns dec)")
        (auto simp: simulation_time_def split: if_splits)
    then show ?thesis
    proof cases
      case 1
      with Inr show ?thesis by (intro raised [of e]) (simp add: ls_schedule_delivery_def try_res_def Let_def)
    next
      case 2
      with Inr show ?thesis by (intro raised [of e]) (simp add: ls_schedule_delivery_def try_res_def Let_def)
    next
      case 3
      show ?thesis
      proof (cases "fd_release_ns dec < ls_now s")
        case True
        with Inr 3 show ?thesis
          by (intro raised [of "ValueError ''Cannot schedule in past''"])
            (simp add: ls_schedule_delivery_def try_res_def Let_def vc_schedule_at_def ls_now_def)
      next
        case False
        with Inr 3 show ?thesis
          by (intro pushed [of fb])
            (simp_all add: ls_schedule_delivery_def try_res_def Let_def vc_schedule_at_def ls_now_def vc_push_def
              heap_push_def scheduled_def event_of_def)
      qed
    qed
  qed
qed

lemma link_invD:
  assumes "link_inv b s"
  shows "vc_inv (ls_clock s)" and "sorted_wrt (<) (sent_of d s @ queued_of d s)"
    and "e \<in> set (ls_queue s) \<Longrightarrow> delivery_ok s e"
    and "tf \<in> set (ls_sent s) \<Longrightarrow> frame_direction s (env_link_frame_id (tf_envelope tf)) \<noteq> None"
    and "tf \<in> set (ls_sent s) \<Longrightarrow> tf_id tf < b" and "e \<in> set (ls_queue s) \<Longrightarrow> ev_id e < b"
    and "i \<in> set (consumed s) \<Longrightarrow> i < b"
    and "distinct (consumed s @ pending_copies s)"
    and "m \<in> set (ls_admission_log s) \<Longrightarrow> ad_link_frame_id m < ls_next_link_frame_id s"
    and "fst b \<le> ls_next_link_frame_id s"
  using assms by (auto simp: link_inv_def pending_copies_def)

lemma delivery_ok_queue [simp]: "delivery_ok (scheduled e s) = delivery_ok s"
  by (simp add: delivery_ok_def scheduled_def frame_direction_def fun_eq_iff)

lemma scheduled_simps [simp]:
  "ls_sent (scheduled e s) = ls_sent s" "consumed (scheduled e s) = consumed s"
  "ls_admission_log (scheduled e s) = ls_admission_log s"
  "ls_next_link_frame_id (scheduled e s) = ls_next_link_frame_id s"
  "ls_queue (scheduled e s) = insort_key ev_key e (ls_queue s)"
  "vc_current_time (ls_clock (scheduled e s)) = vc_current_time (ls_clock s)"
  "frame_direction (scheduled e s) = frame_direction s"
  "sent_of d (scheduled e s) = sent_of d s"
  by (simp_all add: scheduled_def consumed_def frame_direction_def sent_of_def fun_eq_iff)

lemma event_of_simps [simp]:
  "ev_due_time (event_of a c fb t) = t" "ev_link_frame_id (event_of a c fb t) = am_link_frame_id a"
  "ev_copy_index (event_of a c fb t) = c" "ev_direction (event_of a c fb t) = direction_value (am_direction a)"
  "ev_id (event_of a c fb t) = (am_link_frame_id a, c)"
  "ev_callback (event_of a c fb t) = delivery_of a c fb"
  by (simp_all add: event_of_def ev_id_def)

lemma direction_value_inj: "direction_value d = direction_value d' \<longleftrightarrow> d = d'"
  by (cases d; cases d') simp_all

lemma available_of_event:
  "ls_available d s = (if direction_value d = 0 then ls_uplink_available_ns s else ls_downlink_available_ns s)"
  by (cases d) (simp_all add: ls_available_def)

lemma queued_scheduled:
  assumes inv: "link_inv (am_link_frame_id a, c) s" and t: "t = ls_available (am_direction a) s"
  shows "queued_of d (scheduled (event_of a c fb t) s) =
    queued_of d s @ (if d = am_direction a then [(am_link_frame_id a, c)] else [])"
proof -
  let ?e = "event_of a c fb t"
  have s: "sorted (map ev_key (ls_queue s))" using link_invD(1) [OF inv] by (simp add: vc_inv_def)
  show ?thesis
  proof (cases "d = am_direction a")
    case True
    let ?q = "filter (\<lambda>e. ev_direction e = direction_value d) (ls_queue s)"
    have "ev_key y < ev_key ?e" if "y \<in> set ?q" for y
    proof -
      from that have y: "y \<in> set (ls_queue s)" "ev_direction y = direction_value d" by auto
      have "ev_due_time y \<le> t" using link_invD(3) [OF inv y(1)] y(2) t True
        by (simp add: delivery_ok_def Let_def available_of_event)
      moreover have "ev_id y < (am_link_frame_id a, c)" using link_invD(6) [OF inv y(1)] .
      ultimately show ?thesis using y(2) True by (auto simp: ev_key_def ev_id_def less_prod_def)
    qed
    then have "insort_key ev_key ?e ?q = ?q @ [?e]" by (intro insort_last) blast
    moreover have "filter (\<lambda>e. ev_direction e = direction_value d) (insort_key ev_key ?e (ls_queue s)) = insort_key ev_key ?e ?q"
      using True s by (intro filter_insort) simp_all
    ultimately show ?thesis using True by (simp add: queued_of_def)
  next
    case False
    then show ?thesis by (simp add: queued_of_def filter_insort_triv direction_value_inj)
  qed
qed

lemma delivery_ok_new:
  assumes "admit_ok a s" "c \<in> {0, 1}" "t = ls_available (am_direction a) s"
  shows "delivery_ok s (event_of a c fb t)"
  using assms
  by (cases "am_direction a")
    (auto simp: delivery_ok_def Let_def admit_ok_def delivery_of_def egress_envelope_def available_of_event
      dl_consumed_def am_control_def control_message_def lc_post_init_Inr)

lemma scheduled_inv:
  assumes inv: "link_inv (am_link_frame_id a, c) s" and a: "admit_ok a s" and c: "c \<in> {0, 1}"
    and t: "t = ls_available (am_direction a) s" "ls_now s \<le> t"
  shows "link_inv (am_link_frame_id a, c + 1) (scheduled (event_of a c fb t) s)"
proof -
  let ?e = "event_of a c fb t" and ?i = "(am_link_frame_id a, c)"
  note d = link_invD [OF inv]
  have up: "i < (am_link_frame_id a, c + 1)" if "i < ?i" for i using that by (auto simp: less_prod_def)
  have "vc_inv (ls_clock (scheduled ?e s))"
    using d(1) t(2) by (auto simp: vc_inv_def scheduled_def sorted_insort_key set_insort_key ls_now_def)
  moreover have "sorted_wrt (<) (sent_of d (scheduled ?e s) @ queued_of d (scheduled ?e s))" for d
    using d(2) [of d] d(5,6) unfolding queued_scheduled [OF inv t(1)]
    by (auto simp: sorted_wrt_append sent_of_def queued_of_def)
  moreover have "distinct (consumed s @ map ev_id (insort_key ev_key ?e (ls_queue s)))"
  proof -
    have "mset (consumed s @ map ev_id (insort_key ev_key ?e (ls_queue s))) = mset (?i # consumed s @ pending_copies s)"
      by (simp add: pending_copies_def)
    moreover have "\<forall>i \<in> set (consumed s @ pending_copies s). i < ?i" using d(6,7) by (auto simp: pending_copies_def)
    then have "?i \<notin> set (consumed s @ pending_copies s)" by blast
    ultimately show ?thesis using d(8) by (metis distinct.simps(2) mset_eq_imp_distinct_iff)
  qed
  ultimately show ?thesis
    using d(3-7) d(9,10) delivery_ok_new [OF a c t(1)]
    by (auto simp: link_inv_def pending_copies_def set_insort_key intro: up)
qed

section \<open>Admitting a frame\<close>

definition accounted :: "link_simulator \<Rightarrow> copy_id set" where
  "accounted s = set (consumed s) \<union> set (pending_copies s)"

lemma apply_faults_release:
  assumes "apply_faults sha256 m p direction frame_id frame_bits ingress avail copy dup = Inr d" "0 \<le> frame_bits"
  shows "avail \<le> fd_release_ns d"
proof -
  from assms(1) obtain j r t where val: "fault_profile_validate p = Inr ()"
    and t: "schedule_frame p frame_bits ingress avail j r = Inr t" and d: "fd_release_ns d = ft_release_ns t"
    unfolding apply_faults_def Let_def by (auto simp: rbind_Inr_iff)
  note v = fault_profile_valid [OF val] and s = schedule_frame_spec [OF t]
  have "0 \<le> (frame_bits * 10 ^ 9 + fp_bitrate_bps p - 1) div fp_bitrate_bps p"
    using v(5) assms(2) by (intro pos_imp_zdiv_nonneg_iff [THEN iffD2]) simp_all
  then have "0 \<le> ft_tx_duration_ns t" using s by simp
  with s d show ?thesis by linarith
qed

lemma ls_available_set [simp]: "ls_available d (ls_set_available d t s) = t"
  by (simp add: ls_available_def ls_set_available_def)

lemma ls_set_available_simps [simp]:
  "ls_clock (ls_set_available d t s) = ls_clock s" "ls_sent (ls_set_available d t s) = ls_sent s"
  "consumed (ls_set_available d t s) = consumed s" "ls_admission_log (ls_set_available d t s) = ls_admission_log s"
  "ls_next_link_frame_id (ls_set_available d t s) = ls_next_link_frame_id s"
  "frame_direction (ls_set_available d t s) = frame_direction s"
  "ls_now (ls_set_available d t s) = ls_now s"
  "sent_of d' (ls_set_available d t s) = sent_of d' s" "queued_of d' (ls_set_available d t s) = queued_of d' s"
  "pending_copies (ls_set_available d t s) = pending_copies s" "admit_ok a (ls_set_available d t s) = admit_ok a s"
  by (simp_all add: ls_set_available_def consumed_def frame_direction_def ls_now_def sent_of_def queued_of_def
      pending_copies_def admit_ok_def fun_eq_iff)

lemma delivery_ok_available:
  "delivery_ok s e \<Longrightarrow> ls_available d s \<le> t \<Longrightarrow> delivery_ok (ls_set_available d t s) e"
  by (cases d) (auto simp: delivery_ok_def Let_def ls_set_available_def ls_available_def frame_direction_def)

lemma link_inv_available: "link_inv b s \<Longrightarrow> ls_available d s \<le> t \<Longrightarrow> link_inv b (ls_set_available d t s)"
  by (simp add: link_inv_def delivery_ok_available)

lemma link_inv_weaken: "link_inv b s \<Longrightarrow> b \<le> b' \<Longrightarrow> fst b' \<le> ls_next_link_frame_id s \<Longrightarrow> link_inv b' s"
  unfolding link_inv_def by (meson order_less_le_trans)

lemma ls_apply_faults_cases:
  obtains (raised) e where "ls_apply_faults env a t c dup s = (s, Inl e)"
  | (decided) dec where "ls_available (am_direction a) s \<le> fd_release_ns dec"
      "ls_apply_faults env a t c dup s = (ls_set_available (am_direction a) (fd_release_ns dec) s, Inr dec)"
proof (cases "apply_faults (le_sha256 env) (ls_fault_model s) (ls_profile (am_direction a) s)
    (direction_value (am_direction a)) (am_link_frame_id a) (int (length (am_frame_bytes a)) * 8) t
    (ls_available (am_direction a) s) c dup")
  case (Inl e)
  then show ?thesis by (intro raised [of e]) (simp add: ls_apply_faults_def try_res_def Let_def)
next
  case (Inr dec)
  then show ?thesis
    by (intro decided [of dec]) (auto simp: ls_apply_faults_def try_res_def Let_def dest: apply_faults_release)
qed

text \<open>Recording that a copy is consumed.\<close>

lemma ls_notify_simps [simp]:
  "ls_file_epoch_manager (ls_notify p m s) = ls_file_epoch_manager s"
  "ls_session_manager (ls_notify p m s) = ls_session_manager s" "ls_saved (ls_notify p m s) = ls_saved s"
  "ls_clock (ls_notify p m s) = ls_clock s" "ls_sent (ls_notify p m s) = ls_sent s"
  by (simp_all add: ls_notify_def)

lemma ls_emit_ok:
  assumes "lc_post_init m = Inr m"
  obtains s' where "ls_emit_consumed cb m s = (s', Inr ())"
    "link_view s' = link_view (s\<lparr> ls_control_events := ls_control_events s @ [m] \<rparr>)"
    "ls_file_epoch_manager s' = ls_file_epoch_manager s" "ls_session_manager s' = ls_session_manager s"
    "ls_saved s' = ls_saved s"
  by (rule that [of "ls_notify (cb_consumed cb) m (s\<lparr> ls_control_events := ls_control_events s @ [m] \<rparr>)"])
    (use assms in \<open>simp_all add: ls_emit_consumed_def ls_control_def\<close>)

lemma consumed_inv:
  assumes inv: "link_inv (f, c) s"
    and v: "link_view s' = (ls_clock s, ls_sent s, consumed s @ [(f, c)], ls_admission_log s, ls_next_link_frame_id s,
      ls_uplink_available_ns s, ls_downlink_available_ns s)"
  shows "link_inv (f, c + 1) s' \<and> accounted s' = insert (f, c) (accounted s)"
proof -
  note d = link_invD [OF inv]
  have up: "i < (f, c + 1)" if "i < (f, c)" for i using that by (auto simp: less_prod_def)
  have eq: "ls_clock s' = ls_clock s" "ls_sent s' = ls_sent s" "consumed s' = consumed s @ [(f, c)]"
    "ls_admission_log s' = ls_admission_log s" "ls_next_link_frame_id s' = ls_next_link_frame_id s"
    "ls_uplink_available_ns s' = ls_uplink_available_ns s" "ls_downlink_available_ns s' = ls_downlink_available_ns s"
    using v by (simp_all add: link_view_def)
  have fr: "frame_direction s' = frame_direction s" "pending_copies s' = pending_copies s" "sent_of d s' = sent_of d s"
    "queued_of d s' = queued_of d s" "delivery_ok s' = delivery_ok s" for d
    by (simp_all add: eq frame_direction_def pending_copies_def sent_of_def queued_of_def delivery_ok_def fun_eq_iff)
  have "\<forall>i \<in> set (consumed s @ pending_copies s). i < (f, c)" using d(6,7) by (auto simp: pending_copies_def)
  then have "(f, c) \<notin> set (consumed s @ pending_copies s)" by blast
  with d show ?thesis
    by (auto simp: link_inv_def eq fr accounted_def pending_copies_def intro: up)
qed

lemma am_control_ok:
  assumes "admit_ok a s" "c \<in> {0, 1}"
  shows "lc_post_init (am_control a FRAME_CONSUMED c st r) = Inr (am_control a FRAME_CONSUMED c st r)"
  using assms by (auto simp: admit_ok_def am_control_def control_message_def lc_post_init_Inr)

lemma ls_lost_inv:
  assumes inv: "link_inv (am_link_frame_id a, c) s" and a: "admit_ok a s" and c: "c \<in> {0, 1}"
  obtains s' where "ls_lost a c reason s = (s', Inr ())" "link_inv (am_link_frame_id a, c + 1) s'"
    "accounted s' = insert (am_link_frame_id a, c) (accounted s)"
proof -
  obtain s' where s': "ls_lost a c reason s = (s', Inr ())"
    "link_view s' = link_view (s\<lparr> ls_control_events := ls_control_events s @
      [am_control a FRAME_CONSUMED c ''FRAME_LOST'' (Some (ustr reason))] \<rparr>)"
    unfolding ls_lost_def by (rule ls_emit_ok [OF am_control_ok [OF a c]]) blast
  then have "link_view s' = (ls_clock s, ls_sent s, consumed s @ [(am_link_frame_id a, c)], ls_admission_log s,
      ls_next_link_frame_id s, ls_uplink_available_ns s, ls_downlink_available_ns s)"
    by (simp add: link_view_def consumed_def am_control_def lc_id_def)
  from consumed_inv [OF inv this] s'(1) show ?thesis by (blast intro: that)
qed

lemma ls_schedule_inv:
  assumes inv: "link_inv (am_link_frame_id a, c) s" and a: "admit_ok a s" and c: "c \<in> {0, 1}"
    and t: "fd_release_ns dec = ls_available (am_direction a) s"
  obtains (raised) e where "ls_schedule_delivery a c dec s = (s, Inl e)"
  | (pushed) s' where "ls_schedule_delivery a c dec s = (s', Inr ())" "link_inv (am_link_frame_id a, c + 1) s'"
      "accounted s' = insert (am_link_frame_id a, c) (accounted s)" "admit_ok a s'"
proof (rule ls_schedule_cases [of a c dec s])
  fix fb
  assume s': "ls_now s \<le> fd_release_ns dec"
    "ls_schedule_delivery a c dec s = (scheduled (event_of a c fb (fd_release_ns dec)) s, Inr ())"
  show ?thesis
  proof (rule pushed [OF s'(2)])
    show "link_inv (am_link_frame_id a, c + 1) (scheduled (event_of a c fb (fd_release_ns dec)) s)"
      using scheduled_inv [OF inv a c t s'(1)] .
    show "accounted (scheduled (event_of a c fb (fd_release_ns dec)) s) = insert (am_link_frame_id a, c) (accounted s)"
      by (auto simp: accounted_def pending_copies_def set_insort_key)
    show "admit_ok a (scheduled (event_of a c fb (fd_release_ns dec)) s)" using a by (simp add: admit_ok_def)
  qed
qed (rule raised)

lemma bump: "link_inv (f, c) s \<Longrightarrow> c \<le> c' \<Longrightarrow> link_inv (f, c') s"
  by (rule link_inv_weaken) (auto simp: less_eq_prod_def dest: link_invD(10))

lemma ls_duplicate_inv:
  assumes inv: "link_inv (am_link_frame_id a, 1) s" and a: "admit_ok a s"
  shows "link_inv (am_link_frame_id a, 2) (fst (ls_duplicate env a t s)) \<and>
    accounted s \<subseteq> accounted (fst (ls_duplicate env a t s))"
proof (rule ls_apply_faults_cases [of env a t 1 False s])
  fix e
  assume "ls_apply_faults env a t 1 False s = (s, Inl e)"
  then show ?thesis using bump [OF inv, of 2] by (simp add: ls_duplicate_def)
next
  fix dec :: fault_decision
  let ?s = "ls_set_available (am_direction a) (fd_release_ns dec) s"
  assume r: "ls_available (am_direction a) s \<le> fd_release_ns dec" "ls_apply_faults env a t 1 False s = (?s, Inr dec)"
  have inv': "link_inv (am_link_frame_id a, 1) ?s" by (rule link_inv_available [OF inv r(1)])
  have a': "admit_ok a ?s" using a by simp
  have acc: "accounted ?s = accounted s" by (simp add: accounted_def)
  show ?thesis
  proof (cases "fd_is_lost dec")
    case True
    obtain s' where "ls_lost a 1 ''FAULT_DUPLICATE_COPY_LOSS'' ?s = (s', Inr ())"
      "link_inv (am_link_frame_id a, 1 + 1) s'" "accounted s' = insert (am_link_frame_id a, 1) (accounted ?s)"
      by (rule ls_lost_inv [OF inv' a']) auto
    with r(2) True acc show ?thesis by (auto simp: ls_duplicate_def)
  next
    case False
    have avail: "fd_release_ns dec = ls_available (am_direction a) ?s" by simp
    show ?thesis
    proof (rule ls_schedule_inv [OF inv' a' _ avail])
      fix e
      assume "ls_schedule_delivery a 1 dec ?s = (?s, Inl e)"
      with r(2) False acc bump [OF inv', of 2] show ?thesis by (simp add: ls_duplicate_def)
    next
      fix s'
      assume "ls_schedule_delivery a 1 dec ?s = (s', Inr ())" "link_inv (am_link_frame_id a, 1 + 1) s'"
        "accounted s' = insert (am_link_frame_id a, 1) (accounted ?s)"
      with r(2) False acc show ?thesis by (auto simp: ls_duplicate_def)
    qed simp
  qed
qed

lemma ls_transmit_inv:
  assumes inv: "link_inv (am_link_frame_id a, 0) s" and a: "admit_ok a s"
  shows "link_inv (am_link_frame_id a, 2) (fst (ls_transmit env a t s)) \<and>
    accounted s \<subseteq> accounted (fst (ls_transmit env a t s)) \<and>
    (is_ok (snd (ls_transmit env a t s)) \<longrightarrow> (am_link_frame_id a, 0) \<in> accounted (fst (ls_transmit env a t s)))"
proof (rule ls_apply_faults_cases [of env a t 0 True s])
  fix e
  assume "ls_apply_faults env a t 0 True s = (s, Inl e)"
  then show ?thesis using bump [OF inv, of 2] by (simp add: ls_transmit_def)
next
  fix dec :: fault_decision
  let ?s = "ls_set_available (am_direction a) (fd_release_ns dec) s"
  assume r: "ls_available (am_direction a) s \<le> fd_release_ns dec" "ls_apply_faults env a t 0 True s = (?s, Inr dec)"
  have inv': "link_inv (am_link_frame_id a, 0) ?s" by (rule link_inv_available [OF inv r(1)])
  have a': "admit_ok a ?s" using a by simp
  have acc: "accounted ?s = accounted s" by (simp add: accounted_def)
  show ?thesis
  proof (cases "fd_is_lost dec")
    case True
    obtain s' where "ls_lost a 0 ''FAULT_LOSS'' ?s = (s', Inr ())"
      "link_inv (am_link_frame_id a, 0 + 1) s'" "accounted s' = insert (am_link_frame_id a, 0) (accounted ?s)"
      by (rule ls_lost_inv [OF inv' a']) auto
    with r(2) True acc bump [of "am_link_frame_id a" 1 s' 2] show ?thesis by (auto simp: ls_transmit_def)
  next
    case False
    have avail: "fd_release_ns dec = ls_available (am_direction a) ?s" by simp
    show ?thesis
    proof (rule ls_schedule_inv [OF inv' a' _ avail])
      fix e
      assume "ls_schedule_delivery a 0 dec ?s = (?s, Inl e)"
      with r(2) False acc bump [OF inv', of 2] show ?thesis by (simp add: ls_transmit_def)
    next
      fix s'
      assume s': "ls_schedule_delivery a 0 dec ?s = (s', Inr ())" "link_inv (am_link_frame_id a, 0 + 1) s'"
        "accounted s' = insert (am_link_frame_id a, 0) (accounted ?s)" "admit_ok a s'"
      then have i1: "link_inv (am_link_frame_id a, 1) s'" by simp
      note dup = ls_duplicate_inv [OF i1 s'(4), of env t]
      show ?thesis
      proof (cases "fd_has_duplicate dec")
        case True
        then have "ls_transmit env a t s = ls_duplicate env a t s'" using r(2) False s'(1) by (simp add: ls_transmit_def)
        with dup s'(3) acc show ?thesis by auto
      next
        case no: False
        then have "ls_transmit env a t s = (s', Inr ())" using r(2) False s'(1) by (simp add: ls_transmit_def)
        with s'(3) acc bump [OF i1, of 2] show ?thesis by auto
      qed
    qed simp
  qed
qed

text \<open>The frame id and its log entry.\<close>

lemma ls_allocate_cases:
  obtains (exhausted) s' e where "ls_allocate e0 d s = (s', Inl e)"
      "s' = s\<lparr> ls_clock := (ls_clock s)\<lparr> vc_admission_order := vc_admission_order (ls_clock s) + 1 \<rparr> \<rparr>"
  | (allocated) s' where "ls_allocate e0 d s = (s', Inr (ls_next_link_frame_id s))"
      "ls_clock s' = (ls_clock s)\<lparr> vc_admission_order := vc_admission_order (ls_clock s) + 1 \<rparr>"
      "ls_sent s' = ls_sent s" "consumed s' = consumed s" "ls_next_link_frame_id s' = ls_next_link_frame_id s + 1"
      "ls_uplink_available_ns s' = ls_uplink_available_ns s" "ls_downlink_available_ns s' = ls_downlink_available_ns s"
      "ls_session_manager s' = ls_session_manager s" "ls_file_epoch_manager s' = ls_file_epoch_manager s"
      "ls_saved s' = ls_saved s" "ls_contact_schedule s' = ls_contact_schedule s"
      "\<exists>a. ls_admission_log s' = ls_admission_log s @ [a] \<and> ad_link_frame_id a = ls_next_link_frame_id s \<and>
        ad_direction a = d"
proof (cases "ls_next_link_frame_id s \<ge> 0xFFFFFFFFFFFFFFFF")
  case True
  then show ?thesis
    by (intro exhausted) (simp_all add: ls_allocate_def vc_get_admission_order_def Let_def)
next
  case False
  then show ?thesis
    by (intro allocated [of "fst (ls_allocate e0 d s)"])
      (simp_all add: ls_allocate_def vc_get_admission_order_def Let_def consumed_def)
qed

lemma link_inv_order:
  "link_inv b (s\<lparr> ls_clock := (ls_clock s)\<lparr> vc_admission_order := n \<rparr> \<rparr>) \<longleftrightarrow> link_inv b s"
  by (simp add: link_inv_def vc_inv_def sent_of_def queued_of_def pending_copies_def consumed_def frame_direction_def
      delivery_ok_def)

lemma allocated_inv:
  assumes inv: "link_inv b s"
    and s': "ls_clock s' = (ls_clock s)\<lparr> vc_admission_order := n \<rparr>" "ls_sent s' = ls_sent s" "consumed s' = consumed s"
      "ls_next_link_frame_id s' = ls_next_link_frame_id s + 1"
      "ls_uplink_available_ns s' = ls_uplink_available_ns s" "ls_downlink_available_ns s' = ls_downlink_available_ns s"
      "ls_admission_log s' = ls_admission_log s @ [x]" "ad_link_frame_id x = ls_next_link_frame_id s"
    and b: "b \<le> (ls_next_link_frame_id s, 0)"
  shows "link_inv (ls_next_link_frame_id s, 0) s'" and "accounted s' = accounted s"
    and "frame_direction s' (ls_next_link_frame_id s) = Some (ad_direction x)"
proof -
  note d = link_invD [OF inv]
  have old: "frame_direction s (ls_next_link_frame_id s) = None"
    unfolding frame_direction_def map_of_eq_None_iff using d(9) by fastforce
  have dir: "frame_direction s' f = (if f = ls_next_link_frame_id s then Some (ad_direction x) else frame_direction s f)" for f
    using old by (simp add: frame_direction_def s' map_add_def split: option.split)
  then show "frame_direction s' (ls_next_link_frame_id s) = Some (ad_direction x)" by simp
  have pend: "pending_copies s' = pending_copies s" "queued_of d s' = queued_of d s" for d
    by (simp_all add: pending_copies_def queued_of_def s')
  have same: "frame_direction s' (env_link_frame_id (tf_envelope tf)) = frame_direction s (env_link_frame_id (tf_envelope tf))"
    if "tf \<in> set (ls_sent s)" for tf
    using d(4) [OF that] old by (auto simp: dir)
  have sent: "sent_of d s' = sent_of d s" for d
    unfolding sent_of_def s' by (intro arg_cong [where f = "map tf_id"] filter_cong refl) (simp add: same)
  have ok: "delivery_ok s' e" if "e \<in> set (ls_queue s)" for e
  proof -
    have "delivery_ok s e" by (rule d(3) [OF that])
    moreover then have "ev_link_frame_id e \<noteq> ls_next_link_frame_id s" using old by (auto simp: delivery_ok_def Let_def)
    ultimately show ?thesis by (auto simp: delivery_ok_def Let_def dir s')
  qed
  have up: "i < (ls_next_link_frame_id s, 0)" if "i < b" for i using that b by (rule order_less_le_trans)
  have "vc_inv (ls_clock s')" using d(1) by (simp add: s' vc_inv_def)
  moreover have "\<forall>i \<in> set (map tf_id (ls_sent s)) \<union> set (pending_copies s) \<union> set (consumed s). i < (ls_next_link_frame_id s, 0)"
    using d(5-7) by (auto simp: pending_copies_def simp del: split_paired_All intro!: up)
  moreover have "\<forall>m \<in> set (ls_admission_log s). ad_link_frame_id m < ls_next_link_frame_id s + 1"
    using d(9) by (meson less_add_one order_less_trans)
  moreover have "distinct (consumed s @ pending_copies s)" by (rule d(8))
  moreover have "\<forall>tf \<in> set (ls_sent s). frame_direction s (env_link_frame_id (tf_envelope tf)) \<noteq> None" using d(4) by blast
  ultimately show "link_inv (ls_next_link_frame_id s, 0) s'"
    using d(2) ok by (simp add: link_inv_def s' pend sent same pending_copies_def)
  show "accounted s' = accounted s" by (simp add: accounted_def pend s')
qed

lemma after_return:
  "fst (after p (\<lambda>s _. (s, Inr x))) = fst p"
  "snd (after p (\<lambda>s _. (s, Inr x))) = (case snd p of Inl e \<Rightarrow> Inl e | Inr _ \<Rightarrow> Inr x)"
  by (cases p; cases "snd p"; simp)+

text \<open>What the transmission of a frame leaves alone.\<close>

definition rest_view ::
  "link_simulator \<Rightarrow> int \<times> session_manager \<times> file_epoch_manager \<times> link_checkpoint list \<times> admission list" where
  "rest_view s = (ls_next_link_frame_id s, ls_session_manager s, ls_file_epoch_manager s, ls_saved s, ls_admission_log s)"

lemma after_frame:
  assumes "F (fst r) = v" and "\<And>s x. F s = v \<Longrightarrow> F (fst (k s x)) = v"
  shows "F (fst (after r k)) = v"
  using assms by (cases r; cases "snd r") auto

lemma ls_control_rest [simp]: "rest_view (fst (ls_control m s)) = rest_view s"
  by (rule ls_control_cases [of m s]) (simp_all add: rest_view_def)

lemma ls_notify_rest [simp]: "rest_view (ls_notify p m s) = rest_view s"
  by (simp add: rest_view_def ls_notify_def)

lemma ls_emit_rest [simp]: "rest_view (fst (ls_emit_consumed cb m s)) = rest_view s"
  unfolding ls_emit_consumed_def by (rule after_frame) simp_all

lemma ls_schedule_rest [simp]: "rest_view (fst (ls_schedule_delivery a c dec s)) = rest_view s"
  by (rule ls_schedule_cases [of a c dec s]) (simp_all add: rest_view_def scheduled_def)

lemma ls_apply_faults_rest [simp]: "rest_view (fst (ls_apply_faults env a t c dup s)) = rest_view s"
  by (rule ls_apply_faults_cases [of env a t c dup s]) (simp_all add: rest_view_def ls_set_available_def)

lemma ls_lost_rest [simp]: "rest_view (fst (ls_lost a c reason s)) = rest_view s"
  by (simp add: ls_lost_def)

lemmas after_rest = after_frame [where F = rest_view]

lemma ls_duplicate_rest [simp]: "rest_view (fst (ls_duplicate env a t s)) = rest_view s"
  unfolding ls_duplicate_def by (rule after_rest) simp_all

lemma ls_transmit_rest [simp]: "rest_view (fst (ls_transmit env a t s)) = rest_view s"
  unfolding ls_transmit_def
proof (rule after_rest)
  fix s' and decision :: fault_decision
  assume s': "rest_view s' = rest_view s"
  have "rest_view (fst (after (ls_schedule_delivery a 0 decision s') (\<lambda>s _.
      if fd_has_duplicate decision then ls_duplicate env a t s else (s, Inr ())))) = rest_view s'"
    by (rule after_rest) simp_all
  then show "rest_view (fst (if fd_is_lost decision then ls_lost a 0 ''FAULT_LOSS'' s'
      else after (ls_schedule_delivery a 0 decision s') (\<lambda>s _.
        if fd_has_duplicate decision then ls_duplicate env a t s else (s, Inr ())))) = rest_view s"
    using s' by simp
qed simp

lemma ls_accept_rest [simp]: "rest_view (fst (ls_accept env a t s)) = rest_view s"
  unfolding ls_accept_def Let_def by (rule after_rest) (simp_all add: after_return)

lemma ls_refuse_rest [simp]: "rest_view (fst (ls_refuse a reason s)) = rest_view s"
  by (simp add: ls_refuse_def after_return)

definition ls_inv :: "link_simulator \<Rightarrow> bool" where
  "ls_inv s \<longleftrightarrow> link_inv (ls_next_link_frame_id s, 0) s"

lemma ls_inv_close: "link_inv (f, c) s \<Longrightarrow> ls_next_link_frame_id s = f + 1 \<Longrightarrow> ls_inv s"
  unfolding ls_inv_def by (rule link_inv_weaken) (auto simp: less_eq_prod_def)

lemma accounted_view: "link_view s' = link_view s \<Longrightarrow> accounted s' = accounted s"
  by (simp add: link_view_def accounted_def pending_copies_def)

lemma ls_accept_inv:
  assumes inv: "link_inv (am_link_frame_id a, 0) s" and d: "frame_direction s (am_link_frame_id a) = Some (am_direction a)"
  shows "\<exists>c. link_inv (am_link_frame_id a, c) (fst (ls_accept env a t s))"
    and "accounted s \<subseteq> accounted (fst (ls_accept env a t s))"
    and "snd (ls_accept env a t s) = Inr (Some f) \<Longrightarrow> f = am_link_frame_id a \<and> (f, 0) \<in> accounted (fst (ls_accept env a t s))"
proof -
  let ?m = "am_control a FRAME_ACCEPTED 0 ''ACCEPTED'' None"
  have "\<exists>c. link_inv (am_link_frame_id a, c) (fst (ls_accept env a t s)) \<and>
      accounted s \<subseteq> accounted (fst (ls_accept env a t s)) \<and>
      (snd (ls_accept env a t s) = Inr (Some f) \<longrightarrow> f = am_link_frame_id a \<and> (f, 0) \<in> accounted (fst (ls_accept env a t s)))"
  proof (rule ls_control_cases [of ?m s])
    fix e
    assume "ls_control ?m s = (s, Inl e)"
    then show ?thesis using inv by (auto simp: ls_accept_def)
  next
    let ?s = "ls_notify (cb_accepted (am_callbacks a)) ?m (s\<lparr> ls_control_events := ls_control_events s @ [?m] \<rparr>)"
    assume m: "lc_post_init ?m = Inr ?m"
      "ls_control ?m s = (s\<lparr> ls_control_events := ls_control_events s @ [?m] \<rparr>, Inr ?m)"
    have view: "link_view ?s = link_view s" using ls_control_view [of ?m s] m(2) by (simp add: am_control_def)
    then have "frame_direction ?s = frame_direction s" by (simp add: link_view_def frame_direction_def fun_eq_iff)
    then have ok: "admit_ok a ?s"
      using m(1) d by (auto simp: admit_ok_def am_control_def control_message_def lc_post_init_Inr)
    have inv': "link_inv (am_link_frame_id a, 0) ?s" using inv by (simp only: link_inv_view [OF view])
    note tr = ls_transmit_inv [OF inv' ok, of env t]
    have eq: "ls_accept env a t s = after (ls_transmit env a t ?s) (\<lambda>s _. (s, Inr (Some (am_link_frame_id a))))"
      by (simp add: ls_accept_def m(2))
    have "is_ok (snd (ls_transmit env a t ?s)) \<and> f = am_link_frame_id a"
      if "snd (ls_accept env a t s) = Inr (Some f)"
      using that unfolding eq after_return by (auto simp: is_ok_def split: sum.splits)
    with tr accounted_view [OF view] show ?thesis unfolding eq after_return(1) by blast
  qed
  then show "\<exists>c. link_inv (am_link_frame_id a, c) (fst (ls_accept env a t s))"
    "accounted s \<subseteq> accounted (fst (ls_accept env a t s))"
    "snd (ls_accept env a t s) = Inr (Some f) \<Longrightarrow> f = am_link_frame_id a \<and> (f, 0) \<in> accounted (fst (ls_accept env a t s))"
    by blast+
qed

lemma ls_refuse_inv:
  assumes inv: "link_inv (am_link_frame_id a, 0) s"
  shows "\<exists>c. link_inv (am_link_frame_id a, c) (fst (ls_refuse a reason s))"
    and "accounted s \<subseteq> accounted (fst (ls_refuse a reason s))"
    and "snd (ls_refuse a reason s) \<noteq> Inr (Some f)"
proof -
  let ?m = "am_control a FRAME_CONSUMED 0 ''FILE_EPOCH_REJECTED'' (Some (ustr reason))"
  have "\<exists>c. link_inv (am_link_frame_id a, c) (fst (ls_refuse a reason s)) \<and>
      accounted s \<subseteq> accounted (fst (ls_refuse a reason s)) \<and> snd (ls_refuse a reason s) \<noteq> Inr (Some f)"
  proof (rule ls_control_cases [of ?m s])
    fix e
    assume "ls_control ?m s = (s, Inl e)"
    then show ?thesis using inv by (auto simp: ls_refuse_def ls_emit_consumed_def)
  next
    assume m: "lc_post_init ?m = Inr ?m"
    show ?thesis
    proof (cases "cb_consumed (am_callbacks a)")
      case True
      obtain s' where s': "ls_emit_consumed (am_callbacks a) ?m s = (s', Inr ())"
        "link_view s' = link_view (s\<lparr> ls_control_events := ls_control_events s @ [?m] \<rparr>)"
        using ls_emit_ok [OF m] by blast
      then have "link_view s' = (ls_clock s, ls_sent s, consumed s @ [(am_link_frame_id a, 0)], ls_admission_log s,
          ls_next_link_frame_id s, ls_uplink_available_ns s, ls_downlink_available_ns s)"
        by (simp add: link_view_def consumed_def am_control_def lc_id_def)
      from consumed_inv [OF inv this] s'(1) True show ?thesis by (auto simp: ls_refuse_def)
    next
      case False
      then show ?thesis using inv by (auto simp: ls_refuse_def)
    qed
  qed
  then show "\<exists>c. link_inv (am_link_frame_id a, c) (fst (ls_refuse a reason s))"
    "accounted s \<subseteq> accounted (fst (ls_refuse a reason s))" "snd (ls_refuse a reason s) \<noteq> Inr (Some f)"
    by blast+
qed

lemma ls_admit_file_epoch_state:
  obtains fe where "fst (ls_admit_file_epoch env d x f fb s) = s\<lparr> ls_file_epoch_manager := fe \<rparr>"
  by (rule that [of "ls_file_epoch_manager (fst (ls_admit_file_epoch env d x f fb s))"])
    (simp add: ls_admit_file_epoch_def split: sum.split option.split prod.split)

text \<open>The frame an admission works on, with its result; what is left of an admission.\<close>

definition admitted_of ::
  "transport_frame \<Rightarrow> direction \<Rightarrow> callbacks \<Rightarrow> session option \<Rightarrow> int \<Rightarrow> int \<Rightarrow> file_packet_type option \<Rightarrow> admitted" where
  "admitted_of tf d cb x f epoch t =
     \<lparr> am_link_frame_id = f, am_frame_bytes = tf_frame_bytes tf, am_envelope = tf_envelope tf,
       am_direction = d, am_session = x, am_epoch_id = epoch, am_packet_type = t, am_callbacks = cb \<rparr>"

definition admit_gate :: "transport_frame \<Rightarrow> link_simulator \<Rightarrow> bool" where
  "admit_gate tf s \<longleftrightarrow> validate_ingress (tf_envelope tf) = Inr () \<and>
     \<not> cs_should_drop_frame (ls_contact_schedule s) (ls_now s) \<and>
     (sm_session_history (ls_session_manager s) = [] \<or> ls_session_for_ingress (tf_envelope tf) s \<noteq> None)"

lemma ls_admit_closed: "\<not> admit_gate tf s \<Longrightarrow> ls_admit_frame env tf d cb s = (s, Inr None)"
  by (auto simp: ls_admit_frame_def admit_gate_def Let_def)

lemma ls_admit_exhausted:
  "admit_gate tf s \<Longrightarrow> ls_allocate (tf_envelope tf) d s = (s', Inl e) \<Longrightarrow> ls_admit_frame env tf d cb s = (s', Inl e)"
  by (auto simp: ls_admit_frame_def admit_gate_def Let_def)

lemma ls_admit_open:
  assumes "admit_gate tf s" "ls_allocate (tf_envelope tf) d s = (s1, Inr f)"
    and "ls_admit_file_epoch env d (ls_session_for_ingress (tf_envelope tf) s) f (tf_frame_bytes tf)
      (ls_checkpoint_changed s1) = (s2, r)"
  shows "ls_admit_frame env tf d cb s =
    (case r of
       Inl e \<Rightarrow> (s2, Inl e)
     | Inr (epoch, reason, t) \<Rightarrow>
         let a = admitted_of tf d cb (ls_session_for_ingress (tf_envelope tf) s) f epoch t in
         case reason of Some why \<Rightarrow> ls_refuse a why s2 | None \<Rightarrow> ls_accept env a (ls_now s) s2)"
  using assms by (auto simp: ls_admit_frame_def admit_gate_def Let_def admitted_of_def split: sum.split option.split)

lemma admitted_of_simps [simp]:
  "am_link_frame_id (admitted_of tf d cb x f epoch t) = f" "am_direction (admitted_of tf d cb x f epoch t) = d"
  "am_session (admitted_of tf d cb x f epoch t) = x" "am_envelope (admitted_of tf d cb x f epoch t) = tf_envelope tf"
  "am_callbacks (admitted_of tf d cb x f epoch t) = cb" "am_packet_type (admitted_of tf d cb x f epoch t) = t"
  "am_epoch_id (admitted_of tf d cb x f epoch t) = epoch"
  by (simp_all add: admitted_of_def)

definition admit_post :: "link_simulator \<Rightarrow> link_simulator \<times> int option res \<Rightarrow> bool" where
  "admit_post s p \<longleftrightarrow> ls_inv (fst p) \<and> accounted s \<subseteq> accounted (fst p) \<and>
     (case snd p of
        Inr (Some f) \<Rightarrow> f = ls_next_link_frame_id s \<and> (f, 0) \<in> accounted (fst p)
      | _ \<Rightarrow> True)"

lemma ls_admit_post:
  assumes inv: "ls_inv s"
  shows "admit_post s (ls_admit_frame env tf d cb s)"
proof (cases "admit_gate tf s")
  case False
  then show ?thesis using inv by (simp add: ls_admit_closed admit_post_def)
next
  case gate: True
  let ?f = "ls_next_link_frame_id s"
  show ?thesis
  proof (rule ls_allocate_cases [of "tf_envelope tf" d s])
    fix s' e
    assume "ls_allocate (tf_envelope tf) d s = (s', Inl e)"
      and s': "s' = s\<lparr> ls_clock := (ls_clock s)\<lparr> vc_admission_order := vc_admission_order (ls_clock s) + 1 \<rparr> \<rparr>"
    then have "ls_admit_frame env tf d cb s = (s', Inl e)" by (intro ls_admit_exhausted gate)
    moreover have "ls_inv s'" using inv unfolding ls_inv_def s' link_inv_order by simp
    moreover have "accounted s' = accounted s" by (simp add: s' accounted_def pending_copies_def consumed_def)
    ultimately show ?thesis by (simp add: admit_post_def)
  next
    fix s1
    assume alloc: "ls_allocate (tf_envelope tf) d s = (s1, Inr ?f)" "ls_next_link_frame_id s1 = ?f + 1"
      and s1: "ls_clock s1 = (ls_clock s)\<lparr> vc_admission_order := vc_admission_order (ls_clock s) + 1 \<rparr>"
      "ls_sent s1 = ls_sent s" "consumed s1 = consumed s"
      "ls_uplink_available_ns s1 = ls_uplink_available_ns s" "ls_downlink_available_ns s1 = ls_downlink_available_ns s"
      and log: "\<exists>x. ls_admission_log s1 = ls_admission_log s @ [x] \<and> ad_link_frame_id x = ?f \<and> ad_direction x = d"
    from log obtain x where x: "ls_admission_log s1 = ls_admission_log s @ [x]" "ad_link_frame_id x = ?f" "ad_direction x = d"
      by blast
    note al = allocated_inv [OF inv [unfolded ls_inv_def] s1(1-3) alloc(2) s1(4,5) x(1,2) order_refl]
    let ?session = "ls_session_for_ingress (tf_envelope tf) s"
    obtain s2 r where fa: "ls_admit_file_epoch env d ?session ?f (tf_frame_bytes tf) (ls_checkpoint_changed s1) = (s2, r)"
      by force
    obtain fe where s2: "s2 = (ls_checkpoint_changed s1)\<lparr> ls_file_epoch_manager := fe \<rparr>"
      using ls_admit_file_epoch_state [of env d ?session ?f "tf_frame_bytes tf" "ls_checkpoint_changed s1"] unfolding fa
      by auto
    have view: "link_view s2 = link_view s1" unfolding s2 by simp
    have inv2: "link_inv (?f, 0) s2" using al(1) by (simp only: link_inv_view [OF view])
    have acc2: "accounted s2 = accounted s" using al(2) accounted_view [OF view] by simp
    have next2: "ls_next_link_frame_id s2 = ?f + 1" using view alloc(2) by (simp add: link_view_def)
    have dir2: "frame_direction s2 ?f = Some d"
      using al(3) x(3) view by (simp add: link_view_def frame_direction_def)
    note eq = ls_admit_open [OF gate alloc(1) fa, of cb]
    show ?thesis
    proof (cases r)
      case (Inl e)
      have "ls_inv s2" using ls_inv_close [OF inv2 next2] .
      with Inl show ?thesis by (simp add: eq admit_post_def acc2)
    next
      case (Inr y)
      obtain epoch reason t where y: "y = (epoch, reason, t)" by (cases y)
      let ?a = "admitted_of tf d cb ?session ?f epoch t"
      have inv2a: "link_inv (am_link_frame_id ?a, 0) s2" using inv2 by simp
      have close: "ls_inv s3" if "rest_view s3 = rest_view s2" "\<exists>c. link_inv (?f, c) s3" for s3
        using that next2 ls_inv_close [of ?f _ s3] by (auto simp: rest_view_def)
      show ?thesis
      proof (cases reason)
        case (Some why)
        note rf = ls_refuse_inv [OF inv2a, of why]
        have "ls_inv (fst (ls_refuse ?a why s2))" using rf(1) by (intro close) simp_all
        with rf(2,3) Some show ?thesis
          by (auto simp: eq Inr y admit_post_def acc2 split: sum.split option.split)
      next
        case None
        have dir2a: "frame_direction s2 (am_link_frame_id ?a) = Some (am_direction ?a)" using dir2 by simp
        note ac = ls_accept_inv [OF inv2a dir2a, of env "ls_now s"]
        have "ls_inv (fst (ls_accept env ?a (ls_now s) s2))" using ac(1) by (intro close) simp_all
        with ac(2,3) None show ?thesis
          by (auto simp: eq Inr y admit_post_def acc2 split: sum.split option.split)
      qed
    qed
  qed
qed

section \<open>Delivering a copy\<close>

text \<open>The effect of a delivery: at most one frame is sent, exactly one copy is consumed.\<close>

definition delivered :: "copy_id \<Rightarrow> link_simulator \<Rightarrow> link_simulator \<Rightarrow> bool" where
  "delivered i s s' \<longleftrightarrow> (\<exists>sent'. (sent' = ls_sent s \<or> (\<exists>tf. sent' = ls_sent s @ [tf] \<and> tf_id tf = i)) \<and>
     link_view s' = (ls_clock s, sent', consumed s @ [i], ls_admission_log s, ls_next_link_frame_id s,
       ls_uplink_available_ns s, ls_downlink_available_ns s))"

lemma ls_send_cases:
  obtains (raised) e where "ls_send env tf s = (s, Inl e)"
  | (sent) s' where "ls_send env tf s = (s', Inr ())"
      "s' = s \<or> s' = s\<lparr> ls_sent := ls_sent s @ [tf] \<rparr>"
proof (cases "le_transport env")
  case None
  then show ?thesis by (intro sent [of s]) (simp_all add: ls_send_def)
next
  case (Some sender)
  show ?thesis
  proof (cases "sender tf")
    case (Inl e)
    with Some show ?thesis by (intro raised [of e]) (simp add: ls_send_def)
  next
    case (Inr u)
    with Some show ?thesis by (intro sent [of "s\<lparr> ls_sent := ls_sent s @ [tf] \<rparr>"]) (simp_all add: ls_send_def)
  qed
qed

lemma dl_consumed_ok:
  assumes "lc_post_init (dl_consumed d [] None) = Inr (dl_consumed d [] None)"
  shows "lc_post_init (dl_consumed d st r) = Inr (dl_consumed d st r)"
  using assms by (auto simp: dl_consumed_def control_message_def lc_post_init_Inr)

lemma ls_emit_delivered:
  assumes m: "lc_post_init (dl_consumed d [] None) = Inr (dl_consumed d [] None)"
    and i: "(dl_link_frame_id d, dl_copy_index d) = i"
    and s1: "s1 = s \<or> (\<exists>tf. s1 = s\<lparr> ls_sent := ls_sent s @ [tf] \<rparr> \<and> tf_id tf = i)"
    and s2: "link_view s2 = link_view s1"
  obtains s' where "ls_emit_consumed cb (dl_consumed d st r) s2 = (s', Inr ())" "delivered i s s'"
proof -
  obtain s' where s': "ls_emit_consumed cb (dl_consumed d st r) s2 = (s', Inr ())"
    "link_view s' = link_view (s2\<lparr> ls_control_events := ls_control_events s2 @ [dl_consumed d st r] \<rparr>)"
    using ls_emit_ok [OF dl_consumed_ok [OF m]] by blast
  have "link_view (s2\<lparr> ls_control_events := ls_control_events s2 @ [dl_consumed d st r] \<rparr>) =
      (ls_clock s2, ls_sent s2, consumed s2 @ [i], ls_admission_log s2, ls_next_link_frame_id s2,
       ls_uplink_available_ns s2, ls_downlink_available_ns s2)"
    using i by (simp add: link_view_def consumed_def dl_consumed_def lc_id_def)
  also have "\<dots> = (ls_clock s1, ls_sent s1, consumed s1 @ [i], ls_admission_log s1, ls_next_link_frame_id s1,
       ls_uplink_available_ns s1, ls_downlink_available_ns s1)"
    using s2 by (simp add: link_view_def)
  finally have "delivered i s s'"
    using s1 s'(2) unfolding delivered_def by (intro exI [of _ "ls_sent s1"]) (auto simp: consumed_def)
  with s'(1) show ?thesis by (rule that)
qed

lemma ls_complete_view: "link_view (ls_complete_file d s) = link_view s"
  by (simp add: ls_complete_file_def split: option.split)

lemma ls_deliver_effect:
  assumes ok: "delivery_ok s0 e"
  obtains s' where "ls_deliver env (ev_callback e) s = (s', Inr ())" "delivered (ev_id e) s s'"
proof -
  note finish = that
  let ?d = "ev_callback e"
  have m: "lc_post_init (dl_consumed ?d [] None) = Inr (dl_consumed ?d [] None)"
    and i: "(dl_link_frame_id ?d, dl_copy_index ?d) = ev_id e"
    using ok by (simp_all add: delivery_ok_def Let_def ev_id_def)
  obtain tf where tf: "new_transport_frame (dl_egress_envelope ?d) (dl_frame_bytes ?d) (dl_copy_index ?d) = Inr tf"
    "tf_id tf = ev_id e"
    using ok by (auto simp: new_transport_frame_def delivery_ok_def Let_def tf_id_def ev_id_def)
  have failed: thesis
    if "ls_hand_over env ?d tf s = (s1, Inl err)" "s1 = s \<or> s1 = s\<lparr> ls_sent := ls_sent s @ [tf] \<rparr>" for s1 err
  proof -
    note hyp = that
    obtain s' where "ls_emit_consumed (dl_callbacks ?d) (dl_consumed ?d (ustr ''FRAME_FAILED'')
        (Some (ustr (error_name err)))) s1 = (s', Inr ())" "delivered (ev_id e) s s'"
      by (rule ls_emit_delivered [OF m i, of s1 s s1]) (use hyp(2) tf(2) in auto)
    with hyp(1) show thesis by (intro finish) (simp_all add: ls_deliver_def try_res_def tf(1))
  qed
  show thesis
  proof (rule ls_send_cases [of env tf s])
    fix err
    assume "ls_send env tf s = (s, Inl err)"
    then show thesis by (intro failed [of s err]) (simp_all add: ls_hand_over_def)
  next
    fix s1
    assume s1: "ls_send env tf s = (s1, Inr ())" "s1 = s \<or> s1 = s\<lparr> ls_sent := ls_sent s @ [tf] \<rparr>"
    show thesis
    proof (cases "delivered_status (dl_callbacks ?d) tf")
      case (Inl err)
      then show thesis using s1 by (intro failed [of s1 err]) (simp_all add: ls_hand_over_def try_res_def)
    next
      case (Inr st)
      obtain s' where s': "ls_emit_consumed (dl_callbacks ?d) (dl_consumed ?d st None) (ls_complete_file ?d s1) = (s', Inr ())"
        "delivered (ev_id e) s s'"
        by (rule ls_emit_delivered [OF m i, of s1 s "ls_complete_file ?d s1"])
          (use s1(2) tf(2) ls_complete_view in auto)
      then have "ls_hand_over env ?d tf s = (s', Inr ())"
        using s1(1) Inr by (simp add: ls_hand_over_def try_res_def)
      then show thesis using s'(2) by (intro finish) (simp_all add: ls_deliver_def try_res_def tf(1))
    qed
  qed
qed

lemma delivered_inv:
  assumes inv: "link_inv b s" and q: "ls_queue s = e # rest" and s': "delivered (ev_id e) (ls_pop e rest s) s'"
  shows "link_inv b s' \<and> accounted s' = accounted s \<and> pending_copies s' = map ev_id rest \<and> consumed s' = consumed s @ [ev_id e] \<and>
    ls_next_link_frame_id s' = ls_next_link_frame_id s"
proof -
  note d = link_invD [OF inv]
  have e: "e \<in> set (ls_queue s)" using q by simp
  obtain sent' where sent': "sent' = ls_sent s \<or> (\<exists>tf. sent' = ls_sent s @ [tf] \<and> tf_id tf = ev_id e)"
    and v: "link_view s' = (ls_clock (ls_pop e rest s), sent', consumed s @ [ev_id e], ls_admission_log s,
      ls_next_link_frame_id s, ls_uplink_available_ns s, ls_downlink_available_ns s)"
    using s' by (auto simp: delivered_def ls_pop_def consumed_def)
  have eq: "ls_clock s' = (ls_clock s)\<lparr> vc_event_queue := rest, vc_current_time := ev_due_time e \<rparr>"
    "ls_sent s' = sent'" "consumed s' = consumed s @ [ev_id e]"
    "ls_admission_log s' = ls_admission_log s" "ls_next_link_frame_id s' = ls_next_link_frame_id s"
    "ls_uplink_available_ns s' = ls_uplink_available_ns s" "ls_downlink_available_ns s' = ls_downlink_available_ns s"
    using v by (simp_all add: link_view_def ls_pop_def)
  have fr: "frame_direction s' = frame_direction s" "delivery_ok s' = delivery_ok s" "pending_copies s' = map ev_id rest"
    by (simp_all add: eq frame_direction_def pending_copies_def delivery_ok_def fun_eq_iff)
  have pend: "pending_copies s = ev_id e # map ev_id rest" by (simp add: pending_copies_def q)
  have clock: "vc_inv (ls_clock s')"
    using d(1) q by (auto simp: eq vc_inv_def dest: key_due)
  obtain dir where dir: "frame_direction s (ev_link_frame_id e) = Some dir" "ev_direction e = direction_value dir"
    using d(3) [OF e] by (auto simp: delivery_ok_def Let_def)
  have sorted: "sorted_wrt (<) (sent_of x s' @ queued_of x s')" for x
  proof -
    have queued: "queued_of x s = (if x = dir then [ev_id e] else []) @ queued_of x s'"
      by (simp add: queued_of_def q eq dir direction_value_inj)
    have sent: "sent_of x s' = sent_of x s \<or> sent_of x s' = sent_of x s @ (if x = dir then [ev_id e] else [])"
      using sent' dir(1) by (auto simp: sent_of_def eq fr tf_id_def ev_id_def)
    have "sorted_wrt (<) (sent_of x s @ (if x = dir then [ev_id e] else []) @ queued_of x s')"
      using d(2) [of x] unfolding queued by simp
    with sent show ?thesis by (auto simp: sorted_wrt_append)
  qed
  have "\<forall>tf \<in> set sent'. frame_direction s (env_link_frame_id (tf_envelope tf)) \<noteq> None"
    using sent' d(4) dir(1) by (auto simp: tf_id_def ev_id_def)
  moreover have "\<forall>i \<in> set (map tf_id sent') \<union> set (map ev_id rest) \<union> set (consumed s @ [ev_id e]). i < b"
    using sent' d(5-7) d(6) [OF e] q by (auto simp del: split_paired_All)
  moreover have "distinct ((consumed s @ [ev_id e]) @ map ev_id rest)" using d(8) by (simp add: pend)
  ultimately have "link_inv b s'"
    using clock sorted d(3,9,10) q by (auto simp: link_inv_def eq fr)
  then show ?thesis by (simp add: eq(3,5) fr accounted_def pend)
qed

lemma ls_advance_step:
  assumes inv: "link_inv b s"
  obtains (idle) "ls_queue s = []" "ls_advance env s = (s, Inr False)"
  | (step) e rest s' where "ls_queue s = e # rest" "ls_advance env s = (s', Inr True)" "link_inv b s'"
      "accounted s' = accounted s" "pending_copies s' = map ev_id rest" "consumed s' = consumed s @ [ev_id e]"
      "ls_next_link_frame_id s' = ls_next_link_frame_id s"
proof (cases "ls_queue s")
  case Nil
  then show ?thesis by (intro idle) (simp_all add: ls_advance_def)
next
  case (Cons e rest)
  have "delivery_ok s e" using link_invD(3) [OF inv] Cons by simp
  then obtain s' where s': "ls_deliver env (ev_callback e) (ls_pop e rest s) = (s', Inr ())"
    "delivered (ev_id e) (ls_pop e rest s) s'"
    by (rule ls_deliver_effect)
  show ?thesis
    by (rule step [OF Cons, of s']) (use delivered_inv [OF inv Cons s'(2)] s'(1) Cons in \<open>simp_all add: ls_advance_def\<close>)
qed

section \<open>Runs\<close>

lemma ls_run_inv:
  "ls_inv s \<Longrightarrow> ls_inv (fst (ls_run_until_idle env n s)) \<and>
    accounted (fst (ls_run_until_idle env n s)) = accounted s \<and>
    pending_copies (fst (ls_run_until_idle env n s)) = [] \<and> is_ok (snd (ls_run_until_idle env n s))"
proof (induction env n s rule: ls_run_until_idle.induct)
  case (1 env n s)
  show ?case
  proof (rule ls_advance_step [OF 1(2) [unfolded ls_inv_def], of env])
    assume "ls_queue s = []" "ls_advance env s = (s, Inr False)"
    then show ?thesis using 1(2) by (subst (1 2 3 4) ls_run_until_idle.simps) (simp add: pending_copies_def)
  next
    fix e rest s'
    assume adv: "ls_advance env s = (s', Inr True)" and inv': "link_inv (ls_next_link_frame_id s, 0) s'"
      and acc: "accounted s' = accounted s" and next': "ls_next_link_frame_id s' = ls_next_link_frame_id s"
    have "ls_inv s'" using inv' next' by (simp add: ls_inv_def)
    from "1.IH" [OF adv [symmetric] refl refl this] adv acc
    show ?thesis by (subst (1 2 3 4) ls_run_until_idle.simps) simp
  qed
qed

lemma ls_step_inv:
  assumes inv: "ls_inv s"
  shows "ls_inv (ls_step env s op) \<and> accounted s \<subseteq> accounted (ls_step env s op)"
proof -
  have view: "ls_inv s' \<and> accounted s \<subseteq> accounted s'" if "link_view s' = link_view s" for s'
    using inv link_inv_view [OF that] accounted_view [OF that] that
    by (simp add: ls_inv_def link_view_def)
  show ?thesis
  proof (cases op)
    case (LinkAdmit tf d cb)
    then show ?thesis using ls_admit_post [OF inv, of env tf d cb] by (simp add: admit_post_def)
  next
    case LinkAdvance
    show ?thesis unfolding LinkAdvance
      by (rule ls_advance_step [OF inv [unfolded ls_inv_def], of env]) (use inv in \<open>auto simp: ls_inv_def\<close>)
  next
    case LinkRun
    then show ?thesis using ls_run_inv [OF inv, of env 0] by simp
  qed (simp_all add: view ls_create_view ls_close_view ls_reset_view ls_abort_view)
qed

interpretation link: op_system "ls_step env" ls_inv for env
  by unfold_locales (simp add: ls_step_inv)

interpretation link_copy: stable_fact "ls_step env" ls_inv "\<lambda>s. i \<in> accounted s" for env i
  by unfold_locales (use ls_step_inv in blast)

lemma ls_init_inv: "ls_init run seed up down schedule sessions n = Inr s \<Longrightarrow> ls_inv s"
  by (auto simp: ls_init_def ls_inv_def link_inv_def vc_init_inv sent_of_def queued_of_def pending_copies_def consumed_def
      vc_init_def vc_inv_def split: if_split_asm)

section \<open>Properties\<close>

text \<open>A small link that duplicates every frame, for the examples.\<close>

definition demo_link_profile :: fault_profile where
  "demo_link_profile = \<lparr> fp_schema_version = 1, fp_profile_revision = 0, fp_base_latency_ns = 1000,
     fp_jitter_abs_ns = 0, fp_frame_loss_rate_ppm = 0, fp_frame_duplicate_rate_ppm = 1000000,
     fp_corrupt_frame_rate_ppm = 0, fp_bits_per_corrupt_frame = 1,
     fp_reorder_window_slots = 0, fp_reorder_slot_ns = 100000, fp_bitrate_bps = 1000000000 \<rparr>"

definition demo_env :: link_env where
  "demo_env = \<lparr> le_sha256 = demo_hash, le_transport = Some (\<lambda>_. Inr ()), le_str = (\<lambda>_. []) \<rparr>"

definition demo_session_manager :: session_manager where
  "demo_session_manager = \<lparr> sm_active_sessions = [], sm_session_history = [], sm_next_session_id = 1, sm_generation_floors = [] \<rparr>"

definition demo_link :: link_simulator where
  "demo_link = projr (ls_init 1 2 demo_link_profile demo_link_profile (cs_init None) demo_session_manager 1)"

definition demo_callbacks :: callbacks where
  "demo_callbacks = \<lparr> cb_accepted = True, cb_consumed = True, cb_delivered = None \<rparr>"

definition demo_frame :: "int \<Rightarrow> int \<Rightarrow> bytes \<Rightarrow> transport_frame" where
  "demo_frame session i frame =
     \<lparr> tf_envelope = \<lparr> env_magic = ENVELOPE_MAGIC, env_version = 1, env_direction = INGRESS, env_reserved = 0,
         env_spacecraft_instance_id = 1, env_sender_boot_id = 0, env_link_session_id = session,
         env_sender_frame_id = i, env_link_frame_id = 0, env_file_epoch_id = 0,
         env_frame_length = int (length frame), env_copy_index = 0 \<rparr>,
       tf_frame_bytes = frame, tf_copy_index = 0 \<rparr>"

definition demo_opened :: link_simulator where
  "demo_opened = run_ops (ls_step demo_env) demo_link [LinkCreate 1 7]"

lemma demo_link_init: "ls_init 1 2 demo_link_profile demo_link_profile (cs_init None) demo_session_manager 1 = Inr demo_link"
  by (simp add: demo_link_def ls_init_def)

lemma demo_admitted:
  "\<exists>s1. ls_admit_frame demo_env (demo_frame 1 1 [1]) INGRESS demo_callbacks demo_opened = (s1, Inr (Some 1)) \<and>
    pending_copies s1 = [(1, 0), (1, 1)]"
proof -
  have "snd (ls_admit_frame demo_env (demo_frame 1 1 [1]) INGRESS demo_callbacks demo_opened) = Inr (Some 1)" by code_simp
  moreover have "pending_copies (fst (ls_admit_frame demo_env (demo_frame 1 1 [1]) INGRESS demo_callbacks demo_opened)) =
    [(1, 0), (1, 1)]" by code_simp
  ultimately show ?thesis by (metis prod.collapse)
qed

text \<open>
  C4: Each direction of the link is a FIFO channel that may lose and duplicate, and nothing
  else: after any calls the copies sent in a direction, followed by those still scheduled, are
  in strictly increasing order of frame id and copy. The frames leave in the order they were
  admitted, whatever jitter and reorder window the fault profile asks for, because a copy waits
  for the release of the one before it; no copy is sent twice.
\<close>

theorem link_in_order:
  assumes "ls_init run seed uplink downlink schedule sessions n = Inr s0"
  shows "sorted_wrt (<) (sent_of d (run_ops (ls_step env) s0 ops) @ queued_of d (run_ops (ls_step env) s0 ops))"
  using link.inv_run [OF ls_init_inv [OF assms], of env ops] unfolding ls_inv_def by (rule link_invD(2))

lemma link_in_order_witness:
  "let s = run_ops (ls_step demo_env) demo_link [LinkCreate 1 7, LinkAdmit (demo_frame 1 1 [1]) INGRESS demo_callbacks] in
     queued_of INGRESS s = [(1, 0), (1, 1)] \<and> sorted_wrt (<) (sent_of INGRESS s @ queued_of INGRESS s)"
  unfolding Let_def
proof
  show "queued_of INGRESS (run_ops (ls_step demo_env) demo_link
      [LinkCreate 1 7, LinkAdmit (demo_frame 1 1 [1]) INGRESS demo_callbacks]) = [(1, 0), (1, 1)]" by code_simp
qed (rule link_in_order [OF demo_link_init])

lemma count_accounted:
  "link_inv b s \<Longrightarrow> count_list (consumed s @ pending_copies s) i = (if i \<in> accounted s then 1 else 0)"
  using count_list_distinct [OF link_invD(8), of b s i] by (simp add: accounted_def)



section \<open>Sessions across the calls of the link\<close>

text \<open>What a delivery leaves alone.\<close>

definition durable_view :: "link_simulator \<Rightarrow> session_manager \<times> link_checkpoint list" where
  "durable_view s = (ls_session_manager s, ls_saved s)"

lemmas after_durable = after_frame [where F = durable_view]

lemma durable_simps [simp]:
  "durable_view (fst (ls_control m s)) = durable_view s"
  "durable_view (ls_notify p m s) = durable_view s"
  "durable_view (ls_pop e rest s) = durable_view s"
  "durable_view (ls_complete_file d s) = durable_view s"
  "durable_view (fst (try_res r s)) = durable_view s"
  "durable_view (fst (ls_send env tf s)) = durable_view s"
  by (simp_all add: durable_view_def ls_control_def ls_notify_def ls_pop_def ls_complete_file_def try_res_def ls_send_def
      split: sum.split option.split)

lemma ls_emit_durable [simp]: "durable_view (fst (ls_emit_consumed cb m s)) = durable_view s"
  unfolding ls_emit_consumed_def by (rule after_durable) simp_all

lemma ls_hand_over_durable [simp]: "durable_view (fst (ls_hand_over env d tf s)) = durable_view s"
  unfolding ls_hand_over_def
proof (rule after_durable)
  fix s1
  assume s1: "durable_view s1 = durable_view s"
  show "durable_view (fst (after (try_res (delivered_status (dl_callbacks d) tf) s1)
      (\<lambda>s status. ls_emit_consumed (dl_callbacks d) (dl_consumed d status None) (ls_complete_file d s)))) = durable_view s"
    by (rule after_durable) (simp_all add: s1)
qed simp

lemma ls_deliver_durable [simp]: "durable_view (fst (ls_deliver env d s)) = durable_view s"
  unfolding ls_deliver_def
proof (rule after_durable)
  fix s1 tf
  assume s1: "durable_view s1 = durable_view s"
  obtain s2 r where h: "ls_hand_over env d tf s1 = (s2, r)" by force
  then have "durable_view s2 = durable_view s" using ls_hand_over_durable [of env d tf s1] s1 by simp
  then show "durable_view (fst (case ls_hand_over env d tf s1 of
      (s, Inr _) \<Rightarrow> (s, Inr ())
    | (s, Inl e) \<Rightarrow> ls_emit_consumed (dl_callbacks d)
        (dl_consumed d (ustr ''FRAME_FAILED'') (Some (ustr (error_name e)))) s)) = durable_view s"
    by (simp add: h split: sum.split)
qed simp

lemma ls_advance_durable: "durable_view (fst (ls_advance env s)) = durable_view s"
proof (cases "ls_queue s")
  case (Cons e rest)
  then show ?thesis by (simp add: ls_advance_def after_return)
qed (simp add: ls_advance_def)

lemma ls_run_durable: "durable_view (fst (ls_run_until_idle env n s)) = durable_view s"
proof (induction env n s rule: ls_run_until_idle.induct)
  case (1 env n s)
  obtain s' r where a: "ls_advance env s = (s', r)" by force
  have "durable_view s' = durable_view s" using ls_advance_durable [of env s] by (simp add: a)
  with 1 [OF a [symmetric]] show ?case
    by (subst ls_run_until_idle.simps) (auto simp: a split: sum.split bool.split)
qed

lemma ls_announce_durable [simp]: "durable_view (fst (ls_announce t inst sid s)) = durable_view s"
  unfolding ls_announce_def Let_def
proof (rule after_durable)
  fix s1
  assume s1: "durable_view s1 = durable_view s"
  show "durable_view (fst (after (ls_control (control_message SESSION_READY (sm_get_session (ls_session_manager s) sid)
      inst 0 0 0 (Some (ustr ''READY'')) None) s1) (\<lambda>s _. (s, Inr sid)))) = durable_view s"
    by (rule after_durable) (simp_all add: s1)
qed simp

lemma ls_create_sessions:
  "ls_session_manager (fst (ls_create_session inst boot s)) = fst (sm_create_session inst boot (ls_now s) (ls_session_manager s))"
  "snd (ls_create_session inst boot s) = Inr sid \<Longrightarrow>
     snd (sm_create_session inst boot (ls_now s) (ls_session_manager s)) = Inr sid"
proof -
  obtain sm r where c: "sm_create_session inst boot (ls_now s) (ls_session_manager s) = (sm, r)" by force
  let ?s = "\<lambda>x. (ls_checkpoint_changed (s\<lparr> ls_session_manager := sm \<rparr>))\<lparr> ls_file_epoch_manager := x \<rparr>"
  have d: "ls_session_manager (fst (ls_announce t inst k (?s x))) = sm" for t k x
    using ls_announce_durable [of t inst k "?s x"] by (simp add: durable_view_def ls_checkpoint_changed_def)
  show "ls_session_manager (fst (ls_create_session inst boot s)) =
      fst (sm_create_session inst boot (ls_now s) (ls_session_manager s))"
    using d by (cases r) (simp_all add: ls_create_session_def ls_open_def c Let_def ls_checkpoint_changed_def)
  have ann: "snd (ls_announce t inst k x) = Inr sid \<Longrightarrow> k = sid" for t k x
    by (auto simp: ls_announce_def Let_def after_def split: prod.splits sum.splits)
  show "snd (ls_create_session inst boot s) = Inr sid \<Longrightarrow>
      snd (sm_create_session inst boot (ls_now s) (ls_session_manager s)) = Inr sid"
    by (cases r) (auto simp: ls_create_session_def ls_open_def c Let_def dest: ann)
qed

lemma admit_durable:
  "ls_session_manager (fst (ls_admit_frame env tf d cb s)) = ls_session_manager s"
proof (cases "admit_gate tf s")
  case True
  show ?thesis
  proof (rule ls_allocate_cases [of "tf_envelope tf" d s])
    fix s1
    assume alloc: "ls_allocate (tf_envelope tf) d s = (s1, Inr (ls_next_link_frame_id s))"
      and s1: "ls_session_manager s1 = ls_session_manager s"
    let ?x = "ls_session_for_ingress (tf_envelope tf) s" and ?f = "ls_next_link_frame_id s"
    obtain s2 r where fa: "ls_admit_file_epoch env d ?x ?f (tf_frame_bytes tf) (ls_checkpoint_changed s1) = (s2, r)"
      by force
    obtain fe where "fst (ls_admit_file_epoch env d ?x ?f (tf_frame_bytes tf) (ls_checkpoint_changed s1)) =
        (ls_checkpoint_changed s1)\<lparr> ls_file_epoch_manager := fe \<rparr>"
      by (rule ls_admit_file_epoch_state)
    then have s2: "ls_session_manager s2 = ls_session_manager s" by (simp only: fa fst_conv) (simp add: s1 ls_checkpoint_changed_def)
    have "ls_session_manager (fst (ls_accept env a t s2)) = ls_session_manager s" for a t
      using ls_accept_rest [of env a t s2] s2 by (simp add: rest_view_def)
    moreover have "ls_session_manager (fst (ls_refuse a why s2)) = ls_session_manager s" for a why
      using ls_refuse_rest [of a why s2] s2 by (simp add: rest_view_def)
    ultimately show ?thesis
      using s2 by (simp add: ls_admit_open [OF True alloc fa] Let_def split: sum.split prod.split option.split)
  qed (simp add: ls_admit_exhausted [OF True])
qed (simp add: ls_admit_closed)

lemma ls_reset_sessions:
  "\<exists>sops. Restart \<notin> set sops \<and> ls_session_manager (fst (ls_reset_session inst boot s)) =
     fst (sm_create_session inst boot (ls_now s) (run_ops sm_step (ls_session_manager s) sops)) \<and>
     (\<forall>sid. snd (ls_reset_session inst boot s) = Inr sid \<longrightarrow>
       snd (sm_create_session inst boot (ls_now s) (run_ops sm_step (ls_session_manager s) sops)) = Inr sid)"
proof -
  define sops where "sops = (case sm_get_active_session (ls_session_manager s) inst of
      None \<Rightarrow> [] | Some active \<Rightarrow> [Close (ss_session_id active) (ls_now s)])"
  let ?sm = "run_ops sm_step (ls_session_manager s) sops"
  obtain sm r where c: "sm_create_session inst boot (ls_now s) ?sm = (sm, r)" by force
  define s1 where "s1 = s\<lparr> ls_session_manager := ?sm, ls_file_epoch_manager := fe_open_session boot (ls_file_epoch_manager s) \<rparr>"
  have s1: "ls_reset_session inst boot s = after (ls_open inst boot s1) (\<lambda>s session_id.
      ls_announce SESSION_RESET inst session_id (ls_checkpoint_changed s))"
    by (simp add: ls_reset_session_def s1_def sops_def Let_def split: option.split)
  have op: "ls_open inst boot s1 = (s1\<lparr> ls_session_manager := sm \<rparr>, r)"
    using c by (simp add: ls_open_def s1_def ls_now_def)
  have d: "ls_session_manager (fst (ls_announce t inst k (ls_checkpoint_changed (s1\<lparr> ls_session_manager := sm \<rparr>)))) = sm" for t k
    using ls_announce_durable [of t inst k "ls_checkpoint_changed (s1\<lparr> ls_session_manager := sm \<rparr>)"]
    by (simp add: durable_view_def ls_checkpoint_changed_def)
  have ann: "snd (ls_announce t inst k x) = Inr sid \<Longrightarrow> k = sid" for t k x sid
    by (auto simp: ls_announce_def Let_def after_def split: prod.splits sum.splits)
  show ?thesis
    by (rule exI [of _ sops], cases r)
      (use d in \<open>auto simp: s1 op c sops_def [THEN arg_cong [where f = set]] dest: ann split: option.splits\<close>)
qed

lemma ls_step_sessions:
  "\<exists>sops. Restart \<notin> set sops \<and> ls_session_manager (ls_step env s op) = run_ops sm_step (ls_session_manager s) sops"
proof (cases op)
  case (LinkCreate inst boot)
  then show ?thesis by (intro exI [of _ "[Create inst boot (ls_now s)]"]) (simp add: ls_create_sessions)
next
  case (LinkClose sid)
  have "ls_session_manager (fst (ls_close_session sid s)) = fst (sm_close_session sid (ls_now s) (ls_session_manager s))"
    by (auto simp: ls_close_session_def Let_def after_return ls_control_def split: prod.split option.split sum.split)
  then show ?thesis by (intro exI [of _ "[Close sid (ls_now s)]"]) (simp add: LinkClose)
next
  case (LinkReset inst boot)
  from ls_reset_sessions [of inst boot s] obtain sops where "Restart \<notin> set sops"
    "ls_session_manager (ls_step env s op) = fst (sm_create_session inst boot (ls_now s) (run_ops sm_step (ls_session_manager s) sops))"
    unfolding LinkReset by auto
  then show ?thesis by (intro exI [of _ "sops @ [Create inst boot (ls_now s)]"]) (simp add: run_ops_append)
next
  case (LinkAbort k reason)
  then show ?thesis by (intro exI [of _ "[]"])
      (simp add: ls_abort_file_epoch_def Let_def after_return ls_control_def split: option.split prod.split sum.split)
next
  case (LinkAdmit tf d cb)
  then show ?thesis by (intro exI [of _ "[]"]) (simp add: admit_durable)
next
  case LinkAdvance
  then show ?thesis using ls_advance_durable [of env s] by (intro exI [of _ "[]"]) (simp add: durable_view_def)
next
  case LinkRun
  then show ?thesis using ls_run_durable [of env 0 s] by (intro exI [of _ "[]"]) (simp add: durable_view_def)
qed

lemma ls_run_sessions:
  "\<exists>sops. Restart \<notin> set sops \<and> ls_session_manager (run_ops (ls_step env) s ops) = run_ops sm_step (ls_session_manager s) sops"
proof (induction ops arbitrary: s)
  case Nil
  show ?case by (intro exI [of _ "[]"]) simp
next
  case (Cons op ops)
  obtain sops1 where 1: "Restart \<notin> set sops1" "ls_session_manager (ls_step env s op) = run_ops sm_step (ls_session_manager s) sops1"
    using ls_step_sessions by blast
  obtain sops2 where "Restart \<notin> set sops2" "ls_session_manager (run_ops (ls_step env) (ls_step env s op) ops) =
      run_ops sm_step (ls_session_manager (ls_step env s op)) sops2"
    using Cons.IH by blast
  then show ?case using 1 by (intro exI [of _ "sops1 @ sops2"]) (simp add: run_ops_append)
qed

lemma update_nonempty: "AList.update k v d \<noteq> []"
  by (cases d) auto

lemma history_stays:
  "sm_session_history s \<noteq> [] \<Longrightarrow> Restart \<notin> set sops \<Longrightarrow> sm_session_history (run_ops sm_step s sops) \<noteq> []"
proof (induction sops arbitrary: s)
  case (Cons op sops)
  have "sm_session_history (sm_step s op) \<noteq> []"
  proof (cases op)
    case (Create inst boot t)
    show ?thesis unfolding Create using Cons.prems(1) update_nonempty
      by (cases rule: sm_create_cases [of inst boot t s]) (auto simp: sm_close_old_def split: option.split)
  next
    case (Close sid t)
    then show ?thesis using Cons.prems(1) update_nonempty
      by (simp add: sm_close_session_def Let_def split: option.split)
  qed (use Cons.prems in simp)
  then show ?case using Cons by simp
qed simp

lemma gate_needs_session:
  assumes inv: "sm_inv (ls_session_manager s)" and h: "sm_session_history (ls_session_manager s) \<noteq> []"
    and r: "\<And>boot. \<not> accepts (ls_session_manager s) (env_link_session_id (tf_envelope tf)) boot
      (env_spacecraft_instance_id (tf_envelope tf))"
  shows "\<not> admit_gate tf s"
proof -
  have "ls_session_for_ingress (tf_envelope tf) s = None"
    using r by (auto simp: accepts_iff [OF inv] ls_session_for_ingress_def Let_def split: option.split)
  with h show ?thesis by (simp add: admit_gate_def)
qed

lemma opened_rejects:
  assumes inv: "sm_inv sm" and c: "sm_create_session inst boot t sm = (sm', Inr sid)" and old: "sid' < sid"
  shows "sm_inv sm' \<and> sm_session_history sm' \<noteq> [] \<and> sid' < sm_next_session_id sm' \<and> \<not> accepts sm' sid' boot' inst"
proof -
  have sid: "sid = sm_next_session_id sm" and h: "sm_session_history sm' \<noteq> []"
    using c by (cases rule: sm_create_cases [of inst boot t sm]; force simp: update_nonempty)+
  have "sm_inv sm'" using sm_create_inv [OF inv, of inst boot t] c by simp
  moreover have "sid' < sm_next_session_id sm'" using sm_create_next_id [of sm inst boot t] c old sid by simp
  moreover have "\<not> accepts sm' sid' boot' inst"
    using accepts_create [OF inv, of inst boot t sid' boot' inst] c old sid by auto
  ultimately show ?thesis using h by blast
qed

text \<open>
  C5: The session fence of the link. Once \<^verbatim>\<open>create_session\<close> or \<^verbatim>\<open>reset_session\<close> has returned a
  session for a spacecraft, no frame that carries an older session of that spacecraft is ever
  admitted again, in either direction, whatever is called afterwards: it is dropped without an
  exception, and without using up a frame id.
\<close>

theorem link_session_fence:
  assumes "sm_init k floors = Inr sessions" and "ls_init run seed uplink downlink schedule sessions n = Inr s0"
    and "s = run_ops (ls_step env) s0 ops"
    and "ls_create_session inst boot s = (s1, Inr sid) \<or> ls_reset_session inst boot s = (s1, Inr sid)"
    and "env_link_session_id (tf_envelope tf) < sid" "env_spacecraft_instance_id (tf_envelope tf) = inst"
  shows "ls_admit_frame env tf d cb (run_ops (ls_step env) s1 ops') = (run_ops (ls_step env) s1 ops', Inr None)"
proof (rule ls_admit_closed)
  have s0: "ls_session_manager s0 = sessions" using assms(2) by (auto simp: ls_init_def split: if_splits)
  have inv: "sm_inv (ls_session_manager s)"
    using ls_run_sessions [of env s0 ops] sm.inv_run [OF sm_init_inv [OF assms(1)]] unfolding assms(3) s0 by auto
  obtain sm t where sm: "sm_inv sm" "sm_create_session inst boot t sm = (ls_session_manager s1, Inr sid)"
    using assms(4)
  proof
    assume c: "ls_create_session inst boot s = (s1, Inr sid)"
    show thesis
      by (rule that [OF inv, of "ls_now s"])
        (use ls_create_sessions [of inst boot s] c in \<open>auto simp: prod_eq_iff\<close>)
  next
    assume c: "ls_reset_session inst boot s = (s1, Inr sid)"
    from ls_reset_sessions [of inst boot s] obtain sops where sops:
      "ls_session_manager s1 = fst (sm_create_session inst boot (ls_now s) (run_ops sm_step (ls_session_manager s) sops))"
      "snd (sm_create_session inst boot (ls_now s) (run_ops sm_step (ls_session_manager s) sops)) = Inr sid"
      unfolding c by auto
    show thesis
      by (rule that [OF sm.inv_run [OF inv, of sops], of "ls_now s"]) (use sops in \<open>simp add: prod_eq_iff\<close>)
  qed
  note rej = opened_rejects [OF sm assms(5)]
  obtain sops where sops: "Restart \<notin> set sops"
    "ls_session_manager (run_ops (ls_step env) s1 ops') = run_ops sm_step (ls_session_manager s1) sops"
    using ls_run_sessions by blast
  show "\<not> admit_gate tf (run_ops (ls_step env) s1 ops')"
  proof (rule gate_needs_session)
    show "sm_inv (ls_session_manager (run_ops (ls_step env) s1 ops'))" using rej sm.inv_run unfolding sops(2) by blast
    show "sm_session_history (ls_session_manager (run_ops (ls_step env) s1 ops')) \<noteq> []"
      unfolding sops(2) using rej sops(1) by (intro history_stays) simp_all
    show "\<not> accepts (ls_session_manager (run_ops (ls_step env) s1 ops')) (env_link_session_id (tf_envelope tf)) b
        (env_spacecraft_instance_id (tf_envelope tf))" for b
      unfolding sops(2) assms(6) using rej sm_rejected.fact_run by blast
  qed
qed

lemma link_session_fence_witness:
  "\<exists>s1. snd (ls_create_session 1 8 demo_opened) = Inr 2 \<and>
     ls_admit_frame demo_env (demo_frame 1 1 [1]) INGRESS demo_callbacks s1 = (s1, Inr None)"
proof -
  have k: "sm_init 1 [] = Inr demo_session_manager" by code_simp
  have c: "snd (ls_create_session 1 8 demo_opened) = Inr 2" by code_simp
  then obtain s1 where "ls_create_session 1 8 demo_opened = (s1, Inr 2)" by (metis prod.collapse)
  then have "ls_admit_frame demo_env (demo_frame 1 1 [1]) INGRESS demo_callbacks (run_ops (ls_step demo_env) s1 []) =
      (run_ops (ls_step demo_env) s1 [], Inr None)"
    by (intro link_session_fence [OF k demo_link_init demo_opened_def, where inst = 1 and boot = 8 and sid = 2])
      (simp_all add: demo_frame_def)
  with c show ?thesis by auto
qed

end
