(* ===== verification/LinkFiles.thy ===== *)
theory LinkFiles
  imports LinkProperties
begin

text \<open>
  Compositions over \<open>LinkSimulator\<close>: frame ids across a restart from the saved checkpoint.
\<close>

section \<open>Frame ids across a restart\<close>

text \<open>What the allocator has handed out is covered by what was last saved.\<close>

definition ids_view :: "link_simulator \<Rightarrow> int \<times> admission list" where
  "ids_view s = (ls_next_link_frame_id s, ls_admission_log s)"

definition saved_ok :: "link_simulator \<Rightarrow> bool" where
  "saved_ok s \<longleftrightarrow>
     (if ls_saved s = [] then ls_admission_log s = [] else lk_next_link_frame_id (last (ls_saved s)) = ls_next_link_frame_id s)"

definition ids_from :: "int \<Rightarrow> link_simulator \<Rightarrow> bool" where
  "ids_from n s \<longleftrightarrow> n \<le> ls_next_link_frame_id s \<and> (\<forall>a \<in> set (ls_admission_log s). n \<le> ad_link_frame_id a)"

lemma admit_ids:
  obtains (same) "ids_view (fst (ls_admit_frame env tf d cb s)) = ids_view s"
      "ls_saved (fst (ls_admit_frame env tf d cb s)) = ls_saved s"
  | (next_id) a ck where "ad_link_frame_id a = ls_next_link_frame_id s"
      "ids_view (fst (ls_admit_frame env tf d cb s)) = (ls_next_link_frame_id s + 1, ls_admission_log s @ [a])"
      "ls_saved (fst (ls_admit_frame env tf d cb s)) = ls_saved s @ [ck]"
      "lk_next_link_frame_id ck = ls_next_link_frame_id s + 1"
proof (cases "admit_gate tf s")
  case False
  then show ?thesis by (intro same) (simp_all add: ls_admit_closed)
next
  case gate: True
  show ?thesis
  proof (rule ls_allocate_cases [of "tf_envelope tf" d s])
    fix s' e
    assume "ls_allocate (tf_envelope tf) d s = (s', Inl e)"
      "s' = s\<lparr> ls_clock := (ls_clock s)\<lparr> vc_admission_order := vc_admission_order (ls_clock s) + 1 \<rparr> \<rparr>"
    then show ?thesis by (intro same) (simp_all add: ls_admit_exhausted [OF gate] ids_view_def)
  next
    fix s1
    assume alloc: "ls_allocate (tf_envelope tf) d s = (s1, Inr (ls_next_link_frame_id s))"
      and s1: "ls_next_link_frame_id s1 = ls_next_link_frame_id s + 1" "ls_saved s1 = ls_saved s"
      and log: "\<exists>a. ls_admission_log s1 = ls_admission_log s @ [a] \<and> ad_link_frame_id a = ls_next_link_frame_id s \<and>
        ad_direction a = d"
    from log obtain a where a: "ls_admission_log s1 = ls_admission_log s @ [a]"
      "ad_link_frame_id a = ls_next_link_frame_id s" by blast
    let ?x = "ls_session_for_ingress (tf_envelope tf) s" and ?f = "ls_next_link_frame_id s"
    obtain s2 r where fa: "ls_admit_file_epoch env d ?x ?f (tf_frame_bytes tf) (ls_checkpoint_changed s1) = (s2, r)"
      by force
    obtain fe where fe: "fst (ls_admit_file_epoch env d ?x ?f (tf_frame_bytes tf) (ls_checkpoint_changed s1)) =
        (ls_checkpoint_changed s1)\<lparr> ls_file_epoch_manager := fe \<rparr>"
      by (rule ls_admit_file_epoch_state)
    have s2: "s2 = (ls_checkpoint_changed s1)\<lparr> ls_file_epoch_manager := fe \<rparr>" using fe by (simp only: fa fst_conv)
    let ?P = "\<lambda>s3. rest_view s3 = rest_view s2"
    have "?P (fst (ls_admit_frame env tf d cb s))"
      by (simp add: ls_admit_open [OF gate alloc fa] Let_def split: sum.split prod.split option.split)
    then show ?thesis
      by (intro next_id [OF a(2), of "ls_checkpoint s1"])
        (simp_all add: rest_view_def ids_view_def s2 ls_checkpoint_changed_def a(1) s1 ls_checkpoint_def)
  qed
qed

text \<open>What every delivery keeps, a run keeps.\<close>

lemma ls_advance_keeps:
  assumes inv: "ls_inv s" and q: "Q s"
    and step: "\<And>s e rest s'. ls_inv s \<Longrightarrow> Q s \<Longrightarrow> ls_queue s = e # rest \<Longrightarrow>
      ls_deliver env (ev_callback e) (ls_pop e rest s) = (s', Inr ()) \<Longrightarrow>
      delivered (ev_id e) (ls_pop e rest s) s' \<Longrightarrow> Q s'"
  shows "Q (fst (ls_advance env s))"
proof (cases "ls_queue s")
  case (Cons e rest)
  have "delivery_ok s e" using link_invD(3) [OF inv [unfolded ls_inv_def]] Cons by simp
  then obtain s' where s': "ls_deliver env (ev_callback e) (ls_pop e rest s) = (s', Inr ())"
    "delivered (ev_id e) (ls_pop e rest s) s'" by (rule ls_deliver_effect)
  from step [OF inv q Cons s'] show ?thesis using Cons s'(1) by (simp add: ls_advance_def)
qed (simp add: ls_advance_def q)

lemma ls_run_keeps:
  assumes step: "\<And>s e rest s'. ls_inv s \<Longrightarrow> Q s \<Longrightarrow> ls_queue s = e # rest \<Longrightarrow>
      ls_deliver env (ev_callback e) (ls_pop e rest s) = (s', Inr ()) \<Longrightarrow>
      delivered (ev_id e) (ls_pop e rest s) s' \<Longrightarrow> Q s'"
  shows "ls_inv s \<Longrightarrow> Q s \<Longrightarrow> Q (fst (ls_run_until_idle env n s))"
proof (induction "length (ls_queue s)" arbitrary: n s rule: less_induct)
  case less
  obtain s' r where a: "ls_advance env s = (s', r)" by force
  have "Q (fst (ls_advance env s))" by (rule ls_advance_keeps [where Q = Q, OF less.prems]) (rule step)
  then have q: "Q s'" by (simp add: a)
  have inv: "ls_inv s'" using ls_step_inv [OF less.prems(1), of env LinkAdvance] by (simp add: a)
  show ?case
  proof (cases "r = Inr True")
    case True
    then have "length (ls_queue s') < length (ls_queue s)" using a by (intro ls_advance_shorter) simp
    from less.hyps [OF this inv q] show ?thesis using a True by (subst ls_run_until_idle.simps) simp
  next
    case False
    then show ?thesis using q by (subst ls_run_until_idle.simps) (auto simp: a split: sum.split bool.split)
  qed
qed

lemma deliver_ids:
  assumes "ls_deliver env d (ls_pop e rest s) = (s', Inr ())" "delivered i (ls_pop e rest s) s'"
  shows "ids_view s' = ids_view s" "ls_saved s' = ls_saved s"
  using assms(2) ls_deliver_durable [of env d "ls_pop e rest s"] assms(1)
  by (auto simp: delivered_def link_view_def ids_view_def ls_pop_def durable_view_def)

definition ids_inv :: "int \<Rightarrow> link_simulator \<Rightarrow> bool" where
  "ids_inv n s \<longleftrightarrow> ls_inv s \<and> saved_ok s \<and> ids_from n s"

lemma ids_view_inv: "ids_view s' = ids_view s \<Longrightarrow> ls_saved s' = ls_saved s \<Longrightarrow> saved_ok s \<and> ids_from n s \<Longrightarrow> saved_ok s' \<and> ids_from n s'"
  by (simp add: ids_view_def saved_ok_def ids_from_def)

lemma link_ids_view: "link_view s' = link_view s \<Longrightarrow> ids_view s' = ids_view s"
  by (simp add: link_view_def ids_view_def)

text \<open>Sessions: a checkpoint may be saved, with the allocator as it is.\<close>

definition checkpointed :: "link_simulator \<Rightarrow> link_simulator \<Rightarrow> bool" where
  "checkpointed s s' \<longleftrightarrow> ids_view s' = ids_view s \<and>
     (ls_saved s' = ls_saved s \<or> (\<exists>ck. ls_saved s' = ls_saved s @ [ck] \<and> lk_next_link_frame_id ck = ls_next_link_frame_id s))"

lemma checkpointed_inv: "checkpointed s s' \<Longrightarrow> saved_ok s \<and> ids_from n s \<Longrightarrow> saved_ok s' \<and> ids_from n s'"
  by (auto simp: checkpointed_def ids_view_def saved_ok_def ids_from_def split: if_splits)

lemma ls_create_checkpointed: "checkpointed s (fst (ls_create_session inst boot s))"
proof -
  have v: "ids_view (fst (ls_create_session inst boot s)) = ids_view s" by (rule link_ids_view [OF ls_create_view])
  obtain sm r where c: "sm_create_session inst boot (ls_now s) (ls_session_manager s) = (sm, r)" by force
  show ?thesis
  proof (cases r)
    case (Inl e)
    then show ?thesis using v by (simp add: checkpointed_def ls_create_session_def ls_open_def c)
  next
    case (Inr sid)
    let ?s = "(ls_checkpoint_changed (s\<lparr> ls_session_manager := sm \<rparr>))\<lparr> ls_file_epoch_manager :=
      fe_open_session boot (ls_file_epoch_manager s) \<rparr>"
    have "ls_create_session inst boot s = ls_announce OPEN_SESSION inst sid ?s"
      by (simp add: ls_create_session_def ls_open_def c Inr Let_def ls_checkpoint_changed_def)
    then have "ls_saved (fst (ls_create_session inst boot s)) = ls_saved ?s"
      using ls_announce_durable [of OPEN_SESSION inst sid ?s] by (simp add: durable_view_def)
    then show ?thesis using v
      by (auto simp: checkpointed_def ls_checkpoint_changed_def ls_checkpoint_def)
  qed
qed

lemma ls_reset_checkpointed: "checkpointed s (fst (ls_reset_session inst boot s))"
proof -
  have v: "ids_view (fst (ls_reset_session inst boot s)) = ids_view s" by (rule link_ids_view [OF ls_reset_view])
  define s1 where "s1 = (case sm_get_active_session (ls_session_manager s) inst of
      None \<Rightarrow> s
    | Some active \<Rightarrow> s\<lparr> ls_session_manager :=
        fst (sm_close_session (ss_session_id active) (ls_now s) (ls_session_manager s)) \<rparr>)"
  define s2 where "s2 = s1\<lparr> ls_file_epoch_manager := fe_open_session boot (ls_file_epoch_manager s1) \<rparr>"
  have eq: "ls_reset_session inst boot s = after (ls_open inst boot s2) (\<lambda>s sid.
      ls_announce SESSION_RESET inst sid (ls_checkpoint_changed s))"
    by (simp add: ls_reset_session_def s2_def s1_def Let_def)
  have s2: "ls_saved s2 = ls_saved s" "ls_next_link_frame_id s2 = ls_next_link_frame_id s"
    by (simp_all add: s2_def s1_def split: option.split)
  obtain sm r where "sm_create_session inst boot (ls_now s2) (ls_session_manager s2) = (sm, r)" by force
  then have c: "ls_open inst boot s2 = (s2\<lparr> ls_session_manager := sm \<rparr>, r)" by (simp add: ls_open_def)
  show ?thesis
  proof (cases r)
    case (Inl e)
    then show ?thesis using v s2 by (simp add: checkpointed_def eq c)
  next
    case (Inr sid)
    let ?s = "ls_checkpoint_changed (s2\<lparr> ls_session_manager := sm \<rparr>)"
    have "ls_saved (fst (ls_reset_session inst boot s)) = ls_saved ?s"
      using ls_announce_durable [of SESSION_RESET inst sid ?s] by (simp add: durable_view_def eq c Inr)
    then show ?thesis using v s2
      by (auto simp: checkpointed_def ls_checkpoint_changed_def ls_checkpoint_def)
  qed
qed

lemma ls_step_ids:
  assumes "ids_inv n s"
  shows "ids_inv n (ls_step env s op)"
proof -
  have inv: "ls_inv s" and ok: "saved_ok s \<and> ids_from n s" using assms by (simp_all add: ids_inv_def)
  have "saved_ok (ls_step env s op) \<and> ids_from n (ls_step env s op)"
  proof (cases op)
    case (LinkCreate inst boot)
    then show ?thesis using checkpointed_inv [OF ls_create_checkpointed ok] by simp
  next
    case (LinkReset inst boot)
    then show ?thesis using checkpointed_inv [OF ls_reset_checkpointed ok] by simp
  next
    case (LinkClose sid)
    have "ls_saved (fst (ls_close_session sid s)) = ls_saved s"
      by (auto simp: ls_close_session_def Let_def after_return ls_control_def split: prod.split option.split sum.split)
    then show ?thesis using ids_view_inv [OF link_ids_view [OF ls_close_view] _ ok] by (simp add: LinkClose)
  next
    case (LinkAbort k reason)
    have "ls_saved (fst (ls_abort_file_epoch k reason s)) = ls_saved s"
      by (simp add: ls_abort_file_epoch_def Let_def after_return ls_control_def split: option.split prod.split sum.split)
    then show ?thesis using ids_view_inv [OF link_ids_view [OF ls_abort_view] _ ok] by (simp add: LinkAbort)
  next
    case (LinkAdmit tf d cb)
    have "saved_ok (fst (ls_admit_frame env tf d cb s)) \<and> ids_from n (fst (ls_admit_frame env tf d cb s))"
    proof (rule admit_ids [of env tf d cb s])
      assume "ids_view (fst (ls_admit_frame env tf d cb s)) = ids_view s"
        "ls_saved (fst (ls_admit_frame env tf d cb s)) = ls_saved s"
      then show ?thesis using ok by (rule ids_view_inv)
    qed (use ok in \<open>auto simp: ids_view_def saved_ok_def ids_from_def\<close>)
    then show ?thesis by (simp add: LinkAdmit)
  next
    case LinkAdvance
    have "saved_ok (fst (ls_advance env s)) \<and> ids_from n (fst (ls_advance env s))"
      by (rule ls_advance_keeps [where Q = "\<lambda>s. saved_ok s \<and> ids_from n s", OF inv ok]) (metis deliver_ids ids_view_inv)
    then show ?thesis by (simp add: LinkAdvance)
  next
    case LinkRun
    have "saved_ok (fst (ls_run_until_idle env 0 s)) \<and> ids_from n (fst (ls_run_until_idle env 0 s))"
      by (rule ls_run_keeps [where Q = "\<lambda>s. saved_ok s \<and> ids_from n s", OF _ inv ok]) (metis deliver_ids ids_view_inv)
    then show ?thesis by (simp add: LinkRun)
  qed
  with ls_step_inv [OF inv, of env op] show ?thesis by (simp add: ids_inv_def)
qed

interpretation link_ids: op_system "ls_step env" "ids_inv n" for env n
  by unfold_locales (rule ls_step_ids)

lemma ls_init_ids: "ls_init run seed up down schedule sessions n = Inr s \<Longrightarrow> ids_inv n s"
  using ls_init_inv [of run seed up down schedule sessions n s]
  by (auto simp: ids_inv_def ls_init_def saved_ok_def ids_from_def split: if_splits)

lemma sent_logged:
  assumes "ls_inv s" "tf \<in> set (ls_sent s)"
  obtains a where "a \<in> set (ls_admission_log s)" "ad_link_frame_id a = env_link_frame_id (tf_envelope tf)"
  using link_invD(4) [OF assms(1) [unfolded ls_inv_def] assms(2)]
  by (auto simp: frame_direction_def dest!: map_of_SomeD)

text \<open>
  C6: A restart never reuses a frame id. At every moment, what \<^verbatim>\<open>state_changed\<close> was last given to
  persist covers every id handed out so far: a link that is started from that checkpoint, with
  any other configuration, only ever sends frames whose ids are larger than those of every frame
  the old link had sent, even when the old one stopped between two deliveries.
\<close>

theorem link_restart_fresh:
  assumes "ls_init run seed uplink downlink schedule sessions n = Inr s0"
    and "s = run_ops (ls_step env) s0 ops" and "tf \<in> set (ls_sent s)"
    and "ls_init run' seed' uplink' downlink' schedule' sessions'
      (lk_next_link_frame_id (last (ls_saved s))) = Inr s0'"
    and "tf' \<in> set (ls_sent (run_ops (ls_step env') s0' ops'))"
  shows "ls_saved s \<noteq> [] \<and> env_link_frame_id (tf_envelope tf) < env_link_frame_id (tf_envelope tf')"
proof -
  have inv: "ids_inv n s" unfolding assms(2) by (rule link_ids.inv_run [OF ls_init_ids [OF assms(1)]])
  have inv': "ids_inv (lk_next_link_frame_id (last (ls_saved s))) (run_ops (ls_step env') s0' ops')"
    by (rule link_ids.inv_run [OF ls_init_ids [OF assms(4)]])
  obtain a where a: "a \<in> set (ls_admission_log s)" "ad_link_frame_id a = env_link_frame_id (tf_envelope tf)"
    using inv assms(3) by (auto simp: ids_inv_def elim: sent_logged)
  then have "ad_link_frame_id a < ls_next_link_frame_id s"
    using inv link_invD(9) unfolding ids_inv_def ls_inv_def by blast
  moreover have saved: "ls_saved s \<noteq> []" "lk_next_link_frame_id (last (ls_saved s)) = ls_next_link_frame_id s"
    using inv a(1) by (auto simp: ids_inv_def saved_ok_def split: if_splits)
  moreover obtain a' where "a' \<in> set (ls_admission_log (run_ops (ls_step env') s0' ops'))"
    "ad_link_frame_id a' = env_link_frame_id (tf_envelope tf')"
    using inv' assms(5) by (auto simp: ids_inv_def elim: sent_logged)
  then have "ls_next_link_frame_id s \<le> env_link_frame_id (tf_envelope tf')"
    using inv' saved(2) by (auto simp: ids_inv_def ids_from_def)
  ultimately show ?thesis using a(2) by simp
qed

text \<open>The demonstration link delivers a frame, stops, and its successor delivers another.\<close>

definition demo_delivered :: link_simulator where
  "demo_delivered = run_ops (ls_step demo_env) demo_link
     [LinkCreate 1 7, LinkAdmit (demo_frame 1 1 [1]) INGRESS demo_callbacks, LinkAdvance, LinkAdvance]"

definition demo_restarted :: link_simulator where
  "demo_restarted = projr (ls_init 2 2 demo_link_profile demo_link_profile (cs_init None) demo_session_manager 2)"

lemma demo_restarted_init: "ls_init 2 2 demo_link_profile demo_link_profile (cs_init None) demo_session_manager
    (lk_next_link_frame_id (last (ls_saved demo_delivered))) = Inr demo_restarted"
proof -
  have "lk_next_link_frame_id (last (ls_saved demo_delivered)) = 2" by code_simp
  then show ?thesis by (simp add: demo_restarted_def ls_init_def)
qed

theorem link_restart_fresh_witness:
  "let tf = hd (ls_sent demo_delivered);
     tf' = hd (ls_sent (run_ops (ls_step demo_env) demo_restarted
       [LinkCreate 1 8, LinkAdmit (demo_frame 1 1 [1]) INGRESS demo_callbacks, LinkAdvance, LinkAdvance]))
   in env_link_frame_id (tf_envelope tf) < env_link_frame_id (tf_envelope tf')"
proof -
  let ?s' = "run_ops (ls_step demo_env) demo_restarted
       [LinkCreate 1 8, LinkAdmit (demo_frame 1 1 [1]) INGRESS demo_callbacks, LinkAdvance, LinkAdvance]"
  have "length (ls_sent demo_delivered) = 2" by code_simp
  then have old: "hd (ls_sent demo_delivered) \<in> set (ls_sent demo_delivered)" by (cases "ls_sent demo_delivered") auto
  have "length (ls_sent ?s') = 2" by code_simp
  then have new: "hd (ls_sent ?s') \<in> set (ls_sent ?s')" by (cases "ls_sent ?s'") auto
  show ?thesis using link_restart_fresh [OF demo_link_init demo_delivered_def old demo_restarted_init new]
    by (simp only: Let_def)
qed

end
