(* ===== verification/Messages.thy ===== *)
theory Messages
  imports CanonicalValues Ccsds
begin

text \<open>
  \<^verbatim>\<open>protocol/messages.py\<close>: an F Prime descriptor and a CBOR map in one Space Packet.
\<close>

datatype packet_descriptor = COMMAND | TELEMETRY | EVENT_ACK | FILE_DATA

fun descriptor_code :: "packet_descriptor \<Rightarrow> nat" where
  "descriptor_code COMMAND = 0"
| "descriptor_code TELEMETRY = 1"
| "descriptor_code EVENT_ACK = 2"
| "descriptor_code FILE_DATA = 3"

definition descriptor_of :: "nat \<Rightarrow> packet_descriptor option" where
  "descriptor_of n =
     (if n = 0 then Some COMMAND else if n = 1 then Some TELEMETRY
      else if n = 2 then Some EVENT_ACK else if n = 3 then Some FILE_DATA else None)"

record application_message =
  am_descriptor :: packet_descriptor
  am_body :: py_value

definition encode_application_message :: "packet_descriptor \<Rightarrow> py_value \<Rightarrow> bytes res" where
  "encode_application_message descriptor body =
     rbind (cbor_encode body) (\<lambda>b. Inr (be_bytes 2 (descriptor_code descriptor) @ b))"

definition decode_application_message :: "bytes \<Rightarrow> application_message res" where
  "decode_application_message payload =
     (if length payload < 3 then Inl (ValueError ''application payload is shorter than its descriptor'')
      else case descriptor_of (be_val (slice 0 2 payload)) of
        None \<Rightarrow> Inl (ValueError ''unknown F Prime packet descriptor'')
      | Some descriptor \<Rightarrow>
          rbind (cbor_decode (drop 2 payload)) (\<lambda>body.
            case body of
              PDict _ \<Rightarrow> Inr \<lparr> am_descriptor = descriptor, am_body = body \<rparr>
            | _ \<Rightarrow> Inl (ValueError ''application message body must be a CBOR map'')))"

definition encode_tm_application :: "int \<Rightarrow> packet_descriptor \<Rightarrow> py_value \<Rightarrow> int \<Rightarrow> bytes res" where
  "encode_tm_application apid descriptor body sequence_count =
     rbind (encode_application_message descriptor body) (\<lambda>payload.
       encode_space_packet apid payload sequence_count 0 False 3)"

definition decode_tm_application :: "bytes \<Rightarrow> (space_packet \<times> application_message) res" where
  "decode_tm_application packet_bytes =
     rbind (space_packet_decode packet_bytes) (\<lambda>packet.
     rbind (decode_application_message (sp_payload packet)) (\<lambda>message. Inr (packet, message)))"

lemma descriptor_of_code [simp]: "descriptor_of (descriptor_code d) = Some d"
  by (cases d) (simp_all add: descriptor_of_def)

lemma descriptor_code_less: "descriptor_code d < 256 ^ 2"
  by (cases d) simp_all

lemma cbor_encode_nonempty: "cbor_encode v = Inr b \<Longrightarrow> b \<noteq> []"
proof -
  have head: "h \<noteq> []" if "cbor_head m n = Inr h" for m n h
    using that by (auto simp: cbor_head_def pack_uint_def rbind_Inr_iff split: if_splits)
  show "cbor_encode v = Inr b \<Longrightarrow> b \<noteq> []"
    by (cases v) (auto simp: rbind_Inr_iff dest: head split: if_splits)
qed

lemma application_message_roundtrip:
  assumes "py_wf (PDict es)" "encode_application_message d (PDict es) = Inr payload"
  shows "decode_application_message payload = Inr \<lparr> am_descriptor = d, am_body = cbor_norm (PDict es) \<rparr>"
proof -
  obtain b where b: "cbor_encode (PDict es) = Inr b" "payload = be_bytes 2 (descriptor_code d) @ b"
    using assms(2) by (auto simp: encode_application_message_def rbind_Inr_iff simp del: cbor_encode.simps be_bytes.simps)
  have "b \<noteq> []" using cbor_encode_nonempty [OF b(1)] .
  then have l: "\<not> length payload < 3" by (cases b) (simp_all add: b(2) bytes_simps del: be_bytes.simps)
  have "slice 0 2 payload = be_bytes 2 (descriptor_code d)" "drop 2 payload = b"
    by (simp_all add: b(2) slice_def del: be_bytes.simps)
  then show ?thesis
    using l cbor_decode_encode [OF assms(1) b(1)] descriptor_code_less [of d]
    by (simp add: decode_application_message_def be_val_be_bytes)
qed

section \<open>Property\<close>



end
