(* ===== verification/MissionProfile.thy ===== *)
theory MissionProfile
  imports Schemas
begin

text \<open>
  \<^verbatim>\<open>protocol/profile.py\<close> and \<^verbatim>\<open>protocol/slo.py\<close>: the frozen mission and SLO profiles, their
  fail-closed validation, and the digest that identifies one. Loading them from YAML
  (\<^verbatim>\<open>from_mapping\<close>, \<^verbatim>\<open>from_file\<close>) is not modelled; SHA-256 is a parameter.
\<close>

section \<open>Mission profile\<close>

record mission_profile =
  mp_schema_version :: int
  mp_profile_id :: string
  mp_fprime_version :: string
  mp_spacecraft_id :: int
  mp_spacecraft_instance_id :: int
  mp_tm_frame_size :: int
  mp_tc_virtual_channel :: int
  mp_tm_virtual_channel :: int
  mp_byte_order :: string
  mp_tc_apid :: int
  mp_tm_telem_apid :: int
  mp_tm_event_apid :: int
  mp_tm_file_apid :: int
  mp_tm_ocf_present :: bool
  mp_tm_fecf_present :: bool
  mp_tm_secondary_header_present :: bool
  mp_fw_com_buffer_max_size :: int
  mp_fw_file_buffer_max_size :: int
  mp_packet_descriptor_size :: int
  mp_max_file_data_per_frame :: int
  mp_time_base :: string
  mp_time_epoch :: string
  mp_time_resolution_ns :: int
  mp_max_pending_jobs :: int
  mp_max_in_flight_packets :: int
  mp_ack_mailbox_capacity :: int
  mp_control_queue_capacity :: int
  mp_file_queue_capacity :: int
  mp_ack_burst :: int
  mp_control_burst :: int
  mp_file_burst :: int
  mp_worker_heartbeat_interval_ms :: int
  mp_worker_heartbeat_timeout_ms :: int
  mp_max_worker_restarts :: int
  mp_worker_restart_window_ms :: int
  mp_worker_initial_backoff_ms :: int
  mp_worker_cancel_grace_ms :: int

definition mp_validate :: "mission_profile \<Rightarrow> unit res" where
  "mp_validate p =
     (if mp_schema_version p \<noteq> 1 then Inl (ValueError ''mission profile schema_version must be 1'')
      else if mp_profile_id p = [] \<or> mp_fprime_version p \<noteq> ''v4.1.0''
      then Inl (ValueError ''MVP requires a named F Prime v4.1.0 profile'')
      else rbind (checked_u32 (mp_spacecraft_id p)) (\<lambda>_.
        rbind (checked_u64 (mp_spacecraft_instance_id p)) (\<lambda>_.
      if mp_spacecraft_id p > 0x3FF then Inl (ValueError ''CCSDS spacecraft_id must fit 10 bits'')
      else if mp_tm_frame_size p \<noteq> 1024 then Inl (ValueError ''MVP TM frame size is fixed at 1024 bytes'')
      else if mp_byte_order p \<noteq> ''big'' then Inl (ValueError ''MVP wire byte order is big-endian'')
      else if (mp_tc_apid p, mp_tm_telem_apid p, mp_tm_event_apid p, mp_tm_file_apid p) \<noteq> (0, 1, 2, 3)
      then Inl (ValueError ''MVP uses stock F Prime APID mapping 0/1/2/3'')
      else if mp_tc_virtual_channel p \<noteq> 0 \<or> mp_tm_virtual_channel p \<noteq> 0
      then Inl (ValueError ''MVP uses VC0 for TC and TM'')
      else if mp_tm_ocf_present p \<or> mp_tm_secondary_header_present p \<or> \<not> mp_tm_fecf_present p
      then Inl (ValueError ''MVP requires OCF/secondary-header absent and TM FECF present'')
      else if mp_fw_com_buffer_max_size p \<noteq> 512 \<or> mp_fw_file_buffer_max_size p \<noteq> 1003
      then Inl (ValueError ''MVP buffer budget must be 512/1003 bytes'')
      else if mp_packet_descriptor_size p \<noteq> 2 \<or> mp_max_file_data_per_frame p \<noteq> 990
      then Inl (ValueError ''MVP FilePacket boundary must be descriptor=2 and DATA=990'')
      else if mp_time_base p \<noteq> ''tai'' \<or> mp_time_resolution_ns p \<noteq> 1
      then Inl (ValueError ''MVP time contract is integer TAI nanoseconds'')
      else if mp_max_pending_jobs p \<noteq> 4 \<or> mp_max_in_flight_packets p \<noteq> 1
      then Inl (ValueError ''scheduler must be bounded and single-in-flight'')
      else if (mp_ack_mailbox_capacity p, mp_control_queue_capacity p, mp_file_queue_capacity p) \<noteq> (32, 64, 16)
      then Inl (ValueError ''MVP scheduler capacities must be 32/64/16'')
      else if min (mp_ack_burst p) (min (mp_control_burst p) (mp_file_burst p)) \<le> 0
      then Inl (ValueError ''scheduler burst values must be positive'')
      else if (mp_ack_burst p, mp_control_burst p, mp_file_burst p) \<noteq> (8, 4, 8)
      then Inl (ValueError ''MVP scheduler bursts must be 8/4/8'')
      else if (mp_worker_heartbeat_interval_ms p, mp_worker_heartbeat_timeout_ms p) \<noteq> (1000, 5000)
      then Inl (ValueError ''MVP worker heartbeat interval/timeout must be 1000/5000 ms'')
      else if mp_max_worker_restarts p \<noteq> 3 \<or> mp_worker_restart_window_ms p \<noteq> 300000
      then Inl (ValueError ''MVP worker restart policy must be 3 per 300000 ms'')
      else if mp_worker_initial_backoff_ms p \<noteq> 250 \<or> mp_worker_cancel_grace_ms p \<noteq> 1000
      then Inl (ValueError ''MVP worker backoff/cancel grace must be 250/1000 ms'')
      else Inr ())))"

definition mp_as_dict :: "mission_profile \<Rightarrow> py_dict" where
  "mp_as_dict p =
     [(pkey ''schema_version'', PInt (mp_schema_version p)),
      (pkey ''profile_id'', PStr (ustr (mp_profile_id p))),
      (pkey ''fprime_version'', PStr (ustr (mp_fprime_version p))),
      (pkey ''spacecraft_id'', PInt (mp_spacecraft_id p)),
      (pkey ''spacecraft_instance_id'', PStr (ustr (hex_pad 16 (nat (mp_spacecraft_instance_id p))))),
      (pkey ''tm_frame_size'', PInt (mp_tm_frame_size p)),
      (pkey ''tc_virtual_channel'', PInt (mp_tc_virtual_channel p)),
      (pkey ''tm_virtual_channel'', PInt (mp_tm_virtual_channel p)),
      (pkey ''byte_order'', PStr (ustr (mp_byte_order p))),
      (pkey ''apids'', PDict
       [(pkey ''tc_command'', PInt (mp_tc_apid p)),
         (pkey ''tm_telemetry'', PInt (mp_tm_telem_apid p)),
         (pkey ''tm_event'', PInt (mp_tm_event_apid p)),
         (pkey ''tm_file'', PInt (mp_tm_file_apid p))]),
      (pkey ''tm'', PDict
       [(pkey ''ocf_present'', PBool (mp_tm_ocf_present p)),
         (pkey ''fecf_present'', PBool (mp_tm_fecf_present p)),
         (pkey ''secondary_header_present'', PBool (mp_tm_secondary_header_present p))]),
      (pkey ''buffer_budget'', PDict
       [(pkey ''fw_com_buffer_max_size'', PInt (mp_fw_com_buffer_max_size p)),
         (pkey ''fw_file_buffer_max_size'', PInt (mp_fw_file_buffer_max_size p)),
         (pkey ''packet_descriptor_size'', PInt (mp_packet_descriptor_size p)),
         (pkey ''max_file_data_per_frame'', PInt (mp_max_file_data_per_frame p))]),
      (pkey ''time'', PDict
       [(pkey ''base'', PStr (ustr (mp_time_base p))),
         (pkey ''epoch'', PStr (ustr (mp_time_epoch p))),
         (pkey ''resolution_ns'', PInt (mp_time_resolution_ns p))]),
      (pkey ''scheduler'', PDict
       [(pkey ''max_pending_jobs'', PInt (mp_max_pending_jobs p)),
         (pkey ''max_in_flight_packets'', PInt (mp_max_in_flight_packets p)),
         (pkey ''ack_mailbox_capacity'', PInt (mp_ack_mailbox_capacity p)),
         (pkey ''control_queue_capacity'', PInt (mp_control_queue_capacity p)),
         (pkey ''file_queue_capacity'', PInt (mp_file_queue_capacity p)),
         (pkey ''ack_burst'', PInt (mp_ack_burst p)),
         (pkey ''control_burst'', PInt (mp_control_burst p)),
         (pkey ''file_burst'', PInt (mp_file_burst p)),
         (pkey ''worker_heartbeat_interval_ms'', PInt (mp_worker_heartbeat_interval_ms p)),
         (pkey ''worker_heartbeat_timeout_ms'', PInt (mp_worker_heartbeat_timeout_ms p)),
         (pkey ''max_worker_restarts'', PInt (mp_max_worker_restarts p)),
         (pkey ''worker_restart_window_ms'', PInt (mp_worker_restart_window_ms p)),
         (pkey ''worker_initial_backoff_ms'', PInt (mp_worker_initial_backoff_ms p)),
         (pkey ''worker_cancel_grace_ms'', PInt (mp_worker_cancel_grace_ms p))])]"

definition mp_digest :: "(bytes \<Rightarrow> string) \<Rightarrow> mission_profile \<Rightarrow> string res" where
  "mp_digest sha256 p = rbind (canonical_json (PDict (mp_as_dict p))) (\<lambda>b. Inr (sha256 b))"

section \<open>SLO profile\<close>

record slo_profile =
  sl_schema_version :: int
  sl_config_revision :: string
  sl_benchmark_artifact_id :: string
  sl_benchmark_artifact_sha256 :: string
  sl_oldest_ack_age_ms :: int
  sl_health_max_latency_ms :: int
  sl_file_min_goodput_bps :: int
  sl_deadline_safety_factor :: int
  sl_worker_heartbeat_interval_ms :: int
  sl_worker_heartbeat_timeout_ms :: int
  sl_max_worker_restarts :: int
  sl_restart_window_ms :: int
  sl_max_pending_jobs :: int
  sl_ack_mailbox_capacity :: int
  sl_control_queue_capacity :: int
  sl_file_queue_capacity :: int

definition sl_validate :: "slo_profile \<Rightarrow> unit res" where
  "sl_validate p =
     (if sl_schema_version p \<noteq> 1 \<or> sl_config_revision p = []
      then Inl (ValueError ''SLO schema/config revision is invalid'')
      else if length (sl_benchmark_artifact_sha256 p) \<noteq> 64 \<or> \<not> list_all is_hex (sl_benchmark_artifact_sha256 p)
      then Inl (ValueError ''SLO benchmark artifact SHA-256 is invalid'')
      else if sl_oldest_ack_age_ms p \<noteq> 1000 \<or> sl_health_max_latency_ms p \<noteq> 2000
      then Inl (ValueError ''MVP ACK/health SLO must be 1000/2000 ms'')
      else if sl_file_min_goodput_bps p \<le> 0 \<or> sl_deadline_safety_factor p \<le> 0
      then Inl (ValueError ''file goodput and deadline factor must be positive'')
      else if (sl_worker_heartbeat_interval_ms p, sl_worker_heartbeat_timeout_ms p) \<noteq> (1000, 5000)
      then Inl (ValueError ''worker watchdog must be 1000/5000 ms'')
      else if sl_max_worker_restarts p \<noteq> 3 \<or> sl_restart_window_ms p \<noteq> 300000
      then Inl (ValueError ''worker restart policy must be 3/300000 ms'')
      else if (sl_max_pending_jobs p, sl_ack_mailbox_capacity p, sl_control_queue_capacity p,
          sl_file_queue_capacity p) \<noteq> (4, 32, 64, 16)
      then Inl (ValueError ''queue capacities must be 4/32/64/16'')
      else Inr ())"

definition sl_as_dict :: "slo_profile \<Rightarrow> py_dict" where
  "sl_as_dict p =
     [(pkey ''schema_version'', PInt (sl_schema_version p)),
      (pkey ''config_revision'', PStr (ustr (sl_config_revision p))),
      (pkey ''benchmark_artifact_id'', PStr (ustr (sl_benchmark_artifact_id p))),
      (pkey ''benchmark_artifact_sha256'', PStr (ustr (sl_benchmark_artifact_sha256 p))),
      (pkey ''oldest_ack_age_ms'', PInt (sl_oldest_ack_age_ms p)),
      (pkey ''health_max_latency_ms'', PInt (sl_health_max_latency_ms p)),
      (pkey ''file_min_goodput_bps'', PInt (sl_file_min_goodput_bps p)),
      (pkey ''deadline_safety_factor'', PInt (sl_deadline_safety_factor p)),
      (pkey ''watchdog'', PDict
       [(pkey ''heartbeat_interval_ms'', PInt (sl_worker_heartbeat_interval_ms p)),
        (pkey ''heartbeat_timeout_ms'', PInt (sl_worker_heartbeat_timeout_ms p)),
        (pkey ''max_restarts'', PInt (sl_max_worker_restarts p)),
        (pkey ''restart_window_ms'', PInt (sl_restart_window_ms p))]),
      (pkey ''queues'', PDict
       [(pkey ''max_pending_jobs'', PInt (sl_max_pending_jobs p)),
        (pkey ''ack_mailbox_capacity'', PInt (sl_ack_mailbox_capacity p)),
        (pkey ''control_queue_capacity'', PInt (sl_control_queue_capacity p)),
        (pkey ''file_queue_capacity'', PInt (sl_file_queue_capacity p))])]"

definition sl_digest :: "(bytes \<Rightarrow> string) \<Rightarrow> slo_profile \<Rightarrow> string res" where
  "sl_digest sha256 p = rbind (canonical_json (PDict (sl_as_dict p))) (\<lambda>b. Inr (sha256 b))"

end
