(* ===== verification/MissionStates.thy ===== *)
theory MissionStates
  imports Interfaces
begin

text \<open>
  \<^verbatim>\<open>flight/state_machine.py\<close>: the allow-lists of the command, job, product and transfer states.
  A missing key of an inner dictionary and an empty set of successors refuse alike; a missing
  entity is the \<^verbatim>\<open>KeyError\<close> of the dictionary.
\<close>

section \<open>The tables\<close>

definition command_transitions :: "(string, string list) dict" where
  "command_transitions =
     [(''RECEIVED'', [''VALIDATED'', ''EXECUTION_FAILED'']),
      (''VALIDATED'', [''COMMAND_REJECTED'', ''COMMAND_ACCEPTED'', ''EXECUTION_FAILED'']),
      (''COMMAND_ACCEPTED'', [''DISPATCHED'', ''EXECUTED'', ''EXECUTION_FAILED''])]"

definition job_transitions :: "(string, string list) dict" where
  "job_transitions =
     [(''QUEUED'', [''RUNNING'', ''CANCEL_REQUESTED'', ''FAILED'', ''TIMEOUT'']),
      (''RUNNING'', [''SUCCEEDED'', ''FAILED'', ''TIMEOUT'', ''CANCEL_REQUESTED'']),
      (''CANCEL_REQUESTED'', [''CANCELED'', ''SUCCEEDED'', ''FAILED'', ''TIMEOUT''])]"

definition product_transitions :: "(string, string list) dict" where
  "product_transitions = [(''STAGING'', [''READY'', ''FAILED''])]"

definition transfer_transitions :: "(string, string list) dict" where
  "transfer_transitions =
     [(''QUEUED'', [''SENDING'', ''ABORTING'', ''CANCELED'']),
      (''SENDING'', [''SEND_COMPLETED'', ''CANCEL_REQUESTED'', ''ABORTING'']),
      (''CANCEL_REQUESTED'', [''CANCEL_DRAINING'', ''SEND_COMPLETED'', ''ABORTING'']),
      (''CANCEL_DRAINING'', [''COOLDOWN'', ''ABORTING'']),
      (''ABORTING'', [''COOLDOWN'']),
      (''COOLDOWN'', [''SEND_FAILED'', ''CANCELED''])]"

definition TRANSITIONS :: "(string, (string, string list) dict) dict" where
  "TRANSITIONS =
     [(''command'', command_transitions), (''job'', job_transitions),
      (''product'', product_transitions), (''transfer'', transfer_transitions)]"

section \<open>The state machine\<close>

datatype history_entry = Registered string | Moved string "string option"

record state_machine =
  ms_states :: "(string, string \<times> string) dict"
  ms_history :: "(string, history_entry list) dict"

definition ms_init :: state_machine where
  "ms_init = \<lparr> ms_states = [], ms_history = [] \<rparr>"

text \<open>\<^verbatim>\<open>defaultdict(list)\<close>: a missing history is empty.\<close>

definition history_of :: "state_machine \<Rightarrow> string \<Rightarrow> history_entry list" where
  "history_of m e = (case map_of (ms_history m) e of None \<Rightarrow> [] | Some h \<Rightarrow> h)"

definition ms_append :: "string \<Rightarrow> history_entry \<Rightarrow> state_machine \<Rightarrow> state_machine" where
  "ms_append e x m = m\<lparr> ms_history := dput e (history_of m e @ [x]) (ms_history m) \<rparr>"

definition ms_register :: "string \<Rightarrow> string \<Rightarrow> string \<Rightarrow> state_machine \<Rightarrow> state_machine res" where
  "ms_register entity_id kind state m =
     (if map_of TRANSITIONS kind = None then Inl (ValueError ''unknown state machine kind'')
      else Inr (ms_append entity_id (Registered state)
             (m\<lparr> ms_states := dput entity_id (kind, state) (ms_states m) \<rparr>)))"

definition successors :: "string \<Rightarrow> string \<Rightarrow> string list" where
  "successors kind current =
     (case map_of TRANSITIONS kind of
        None \<Rightarrow> []
      | Some table \<Rightarrow> (case map_of table current of None \<Rightarrow> [] | Some next \<Rightarrow> next))"

definition ms_transition :: "string \<Rightarrow> string \<Rightarrow> string option \<Rightarrow> state_machine \<Rightarrow> state_machine res" where
  "ms_transition entity_id state reason m =
     (case map_of (ms_states m) entity_id of
        None \<Rightarrow> Inl KeyError
      | Some (kind, current) \<Rightarrow>
          if state \<notin> set (successors kind current)
          then Inl (RuntimeError ''InvalidTransition'')
          else Inr (ms_append entity_id (Moved state reason)
                 (m\<lparr> ms_states := dput entity_id (kind, state) (ms_states m) \<rparr>)))"

definition ms_state :: "state_machine \<Rightarrow> string \<Rightarrow> string res" where
  "ms_state m entity_id =
     (case map_of (ms_states m) entity_id of None \<Rightarrow> Inl KeyError | Some (_, s) \<Rightarrow> Inr s)"

datatype mission_op =
    RegisterEntity string string string
  | Transition string string "string option"

fun ms_step :: "state_machine \<Rightarrow> mission_op \<Rightarrow> state_machine" where
  "ms_step m (RegisterEntity e k s) = (case ms_register e k s m of Inl _ \<Rightarrow> m | Inr m' \<Rightarrow> m')"
| "ms_step m (Transition e s r) = (case ms_transition e s r m of Inl _ \<Rightarrow> m | Inr m' \<Rightarrow> m')"

section \<open>Paths\<close>

fun legal_path :: "string \<Rightarrow> string \<Rightarrow> string list \<Rightarrow> bool" where
  "legal_path kind s [] = True"
| "legal_path kind s (t # ts) = (t \<in> set (successors kind s) \<and> legal_path kind t ts)"

text \<open>The number of moves a state still allows: every move lowers it.\<close>

fun rank :: "string \<Rightarrow> string \<Rightarrow> nat" where
  "rank kind s =
     (if kind = ''command'' then
        (if s = ''RECEIVED'' then 3 else if s = ''VALIDATED'' then 2
         else if s = ''COMMAND_ACCEPTED'' then 1 else 0)
      else if kind = ''job'' then
        (if s = ''QUEUED'' then 3 else if s = ''RUNNING'' then 2
         else if s = ''CANCEL_REQUESTED'' then 1 else 0)
      else if kind = ''product'' then (if s = ''STAGING'' then 1 else 0)
      else if kind = ''transfer'' then
        (if s = ''QUEUED'' then 6 else if s = ''SENDING'' then 5
         else if s = ''CANCEL_REQUESTED'' then 4 else if s = ''CANCEL_DRAINING'' then 3
         else if s = ''ABORTING'' then 2 else if s = ''COOLDOWN'' then 1 else 0)
      else 0)"

declare rank.simps [simp del]

lemma tables_descend:
  "list_all (\<lambda>(kind, table). list_all (\<lambda>(s, ts). list_all (\<lambda>t. rank kind t < rank kind s) ts) table)
     TRANSITIONS"
  by code_simp

lemma rank_descends:
  assumes "t \<in> set (successors kind s)"
  shows "rank kind t < rank kind s"
proof -
  from assms obtain table ts where "map_of TRANSITIONS kind = Some table" "map_of table s = Some ts" "t \<in> set ts"
    unfolding successors_def
    by (cases "map_of TRANSITIONS kind"; cases "map_of (the (map_of TRANSITIONS kind)) s") auto
  then have "(kind, table) \<in> set TRANSITIONS" "(s, ts) \<in> set table" "t \<in> set ts"
    by (simp_all add: map_of_SomeD)
  with tables_descend show ?thesis by (fastforce simp: list_all_iff)
qed

lemma legal_path_length: "legal_path kind s ts \<Longrightarrow> length ts \<le> rank kind s"
proof (induction ts arbitrary: s)
  case Nil
  then show ?case by simp
next
  case (Cons t ts)
  then have "length ts \<le> rank kind t" "rank kind t < rank kind s" by (simp_all add: rank_descends)
  then show ?case by simp
qed

lemma rank_le: "rank kind s \<le> 6"
  by (simp add: rank.simps)

fun registers :: "string \<Rightarrow> mission_op \<Rightarrow> bool" where
  "registers e (RegisterEntity e' _ _) = (e = e')"
| "registers e (Transition _ _ _) = False"

fun target :: "history_entry \<Rightarrow> string" where
  "target (Registered s) = s"
| "target (Moved s _) = s"

lemma history_append [simp]:
  "history_of (ms_append e x m) f = (if f = e then history_of m e @ [x] else history_of m f)"
  "ms_states (ms_append e x m) = ms_states m"
  by (simp_all add: ms_append_def history_of_def)

lemma history_states [simp]: "history_of (m\<lparr> ms_states := d \<rparr>) e = history_of m e"
  by (simp add: history_of_def)

lemma ms_step_entity:
  assumes "\<not> registers e op" and s: "map_of (ms_states m) e = Some (kind, s)"
  shows "(map_of (ms_states (ms_step m op)) e = Some (kind, s) \<and> history_of (ms_step m op) e = history_of m e) \<or>
    (\<exists>t r. t \<in> set (successors kind s) \<and> map_of (ms_states (ms_step m op)) e = Some (kind, t) \<and>
       history_of (ms_step m op) e = history_of m e @ [Moved t r])"
  using assms
  by (cases op) (auto simp: ms_register_def ms_transition_def split: option.splits)

lemma ms_run_entity:
  "list_all (\<lambda>op. \<not> registers e op) ops \<Longrightarrow> map_of (ms_states m) e = Some (kind, s) \<Longrightarrow>
   \<exists>moves. history_of (run_ops ms_step m ops) e = history_of m e @ moves \<and>
     legal_path kind s (map target moves) \<and>
     map_of (ms_states (run_ops ms_step m ops)) e = Some (kind, last (s # map target moves))"
proof (induction ops arbitrary: m s)
  case Nil
  then show ?case by simp
next
  case (Cons op ops)
  then have no: "\<not> registers e op" "list_all (\<lambda>op. \<not> registers e op) ops" by simp_all
  from ms_step_entity [OF no(1) Cons.prems(2)] show ?case
  proof (elim disjE exE conjE)
    assume "map_of (ms_states (ms_step m op)) e = Some (kind, s)" "history_of (ms_step m op) e = history_of m e"
    with Cons.IH [OF no(2)] show ?thesis by fastforce
  next
    fix t r
    assume t: "t \<in> set (successors kind s)" and st: "map_of (ms_states (ms_step m op)) e = Some (kind, t)"
      and h: "history_of (ms_step m op) e = history_of m e @ [Moved t r]"
    from Cons.IH [OF no(2) st] obtain moves where
      "history_of (run_ops ms_step (ms_step m op) ops) e = history_of (ms_step m op) e @ moves"
      "legal_path kind t (map target moves)"
      "map_of (ms_states (run_ops ms_step (ms_step m op) ops)) e = Some (kind, last (t # map target moves))"
      by blast
    with t h show ?thesis by (intro exI [of _ "Moved t r # moves"]) simp
  qed
qed

section \<open>Property\<close>



end
