(* ===== verification/MissionUdpAdapter.thy ===== *)
theory MissionUdpAdapter
  imports MissionScheduler
begin

text \<open>
  \<^verbatim>\<open>flight/mission_udp_adapter.py\<close>: the completion gate. The adapter sends the frame the
  scheduler hands out and completes it once both its status and its return have arrived, in
  either order. \<^verbatim>\<open>send_frame\<close> may call \<^verbatim>\<open>receive_status\<close> and \<^verbatim>\<open>receive_return\<close> before it returns: it
  runs last in \<^verbatim>\<open>send_next\<close>, so these calls are the next operations. The callbacks of the
  scheduler run last in \<open>ua_flush_gate\<close> and are handled the same way.
\<close>

record completion_gate =
  cg_item_id :: int
  cg_status :: "string option"
  cg_frame_returned :: bool
  cg_completed :: bool

definition cg_status_callback :: "string \<Rightarrow> completion_gate \<Rightarrow> completion_gate" where
  "cg_status_callback status g = (if cg_status g \<noteq> None then g else g\<lparr> cg_status := Some status \<rparr>)"

definition cg_return_callback :: "completion_gate \<Rightarrow> completion_gate" where
  "cg_return_callback g = (if cg_frame_returned g then g else g\<lparr> cg_frame_returned := True \<rparr>)"

record 'c adapter =
  ua_scheduler :: "'c scheduler"
  ua_gate :: "completion_gate option"
  ua_completion_tuples :: "(int \<times> string \<times> bool) list"

definition ua_init :: "'c scheduler \<Rightarrow> 'c adapter" where
  "ua_init s = \<lparr> ua_scheduler = s, ua_gate = None, ua_completion_tuples = [] \<rparr>"

definition ua_send_next :: "int \<Rightarrow> 'c adapter \<Rightarrow> 'c adapter \<times> 'c scheduled_item option" where
  "ua_send_next now_ms a =
     (case sc_poll now_ms (ua_scheduler a) of
        (s, None) \<Rightarrow> (a\<lparr> ua_scheduler := s \<rparr>, None)
      | (s, Some item) \<Rightarrow>
          (a\<lparr> ua_scheduler := s,
              ua_gate := Some \<lparr> cg_item_id = si_item_id item, cg_status = None,
                cg_frame_returned = False, cg_completed = False \<rparr> \<rparr>, Some item))"

text \<open>The completions are those of the two calls, in order.\<close>

definition ua_flush_gate :: "'c adapter \<Rightarrow> 'c adapter \<times> 'c completion list" where
  "ua_flush_gate a =
     (case ua_gate a of
        None \<Rightarrow> (a, [])
      | Some gate \<Rightarrow>
          if cg_completed gate \<or> \<not> cg_frame_returned gate then (a, [])
          else case cg_status gate of
            None \<Rightarrow> (a, [])
          | Some status \<Rightarrow>
              let a = a\<lparr> ua_gate := None, ua_completion_tuples :=
                    ua_completion_tuples a @ [(cg_item_id gate, status, cg_frame_returned gate)] \<rparr>;
                  (s1, c1) = sc_mark_upstream_return (cg_item_id gate) (ua_scheduler a);
                  (s2, c2) = sc_mark_status (cg_item_id gate) status s1
              in (a\<lparr> ua_scheduler := s2 \<rparr>, [c1, c2]))"

definition ua_receive_status :: "string \<Rightarrow> 'c adapter \<Rightarrow> 'c adapter \<times> 'c completion list" where
  "ua_receive_status status a =
     (case ua_gate a of
        None \<Rightarrow> (a, [])
      | Some gate \<Rightarrow> ua_flush_gate (a\<lparr> ua_gate := Some (cg_status_callback status gate) \<rparr>))"

definition ua_receive_return :: "'c adapter \<Rightarrow> 'c adapter \<times> 'c completion list" where
  "ua_receive_return a =
     (case ua_gate a of
        None \<Rightarrow> (a, [])
      | Some gate \<Rightarrow> ua_flush_gate (a\<lparr> ua_gate := Some (cg_return_callback gate) \<rparr>))"

definition ua_reset :: "'c adapter \<Rightarrow> 'c adapter \<times> 'c completion list" where
  "ua_reset a =
     (let a = a\<lparr> ua_scheduler := sc_set_not_ready (ua_scheduler a) \<rparr> in
      case ua_gate a of
        None \<Rightarrow> (a, [])
      | Some gate \<Rightarrow> ua_flush_gate
          (a\<lparr> ua_gate := Some (cg_status_callback ''SESSION_RESET'' (cg_return_callback gate)) \<rparr>))"

datatype 'c adapter_op =
    UaEnqueue queue_kind bytes "'c option" "int option" int
  | UaSend int
  | UaStatus string
  | UaReturn
  | UaReset
  | UaReady

text \<open>The state, the item handed to \<^verbatim>\<open>send_frame\<close>, and the completions of one call.\<close>

fun ua_step :: "'c adapter_op \<Rightarrow> 'c adapter \<Rightarrow> 'c adapter \<times> 'c scheduled_item option \<times> 'c completion list" where
  "ua_step (UaEnqueue kind frame completion key now_ms) a =
     (a\<lparr> ua_scheduler := fst (sc_enqueue kind frame completion key now_ms (ua_scheduler a)) \<rparr>, None, [])"
| "ua_step (UaSend now_ms) a = (case ua_send_next now_ms a of (a, sent) \<Rightarrow> (a, sent, []))"
| "ua_step (UaStatus status) a = (case ua_receive_status status a of (a, cs) \<Rightarrow> (a, None, cs))"
| "ua_step UaReturn a = (case ua_receive_return a of (a, cs) \<Rightarrow> (a, None, cs))"
| "ua_step UaReset a = (case ua_reset a of (a, cs) \<Rightarrow> (a, None, cs))"
| "ua_step UaReady a = (a\<lparr> ua_scheduler := sc_set_ready (ua_scheduler a) \<rparr>, None, [])"

fun ua_run :: "'c adapter \<Rightarrow> 'c adapter_op list \<Rightarrow>
    'c adapter \<times> 'c ticket list \<times> ('c ticket \<times> string) list" where
  "ua_run a [] = (a, [], [])"
| "ua_run a (op # ops) =
     (let (a1, sent, cs) = ua_step op a; (a2, sents, done) = ua_run a1 ops in
      (a2, (case sent of None \<Rightarrow> [] | Some i \<Rightarrow> [ticket i]) @ sents,
       concat (map (\<lambda>c. case c of None \<Rightarrow> [] | Some (i, st) \<Rightarrow> [(ticket i, st)]) cs) @ done))"

section \<open>The gate and the scheduler agree\<close>

fun gate_owns :: "completion_gate option \<Rightarrow> 'c scheduled_item option \<Rightarrow> bool" where
  "gate_owns None None = True"
| "gate_owns (Some g) (Some i) =
     (cg_item_id g = si_item_id i \<and> si_status i = None \<and> \<not> si_upstream_returned i \<and> \<not> cg_completed g)"
| "gate_owns _ _ = False"

definition gate_open :: "completion_gate \<Rightarrow> bool" where
  "gate_open g \<longleftrightarrow> cg_status g = None \<or> \<not> cg_frame_returned g"

definition ua_inv :: "'c adapter \<Rightarrow> bool" where
  "ua_inv a \<longleftrightarrow> sc_inv (ua_scheduler a) \<and> gate_owns (ua_gate a) (sc_current (ua_scheduler a)) \<and>
     (case ua_gate a of None \<Rightarrow> True | Some g \<Rightarrow> gate_open g)"

lemma gate_owns_simps:
  "gate_owns None c \<longleftrightarrow> c = None"
  "gate_owns (Some g) c \<longleftrightarrow> (\<exists>i. c = Some i \<and> cg_item_id g = si_item_id i \<and> si_status i = None \<and>
     \<not> si_upstream_returned i \<and> \<not> cg_completed g)"
  by (cases c; simp)+

lemma callbacks_frame [simp]:
  "cg_item_id (cg_status_callback st g) = cg_item_id g" "cg_completed (cg_status_callback st g) = cg_completed g"
  "cg_item_id (cg_return_callback g) = cg_item_id g" "cg_completed (cg_return_callback g) = cg_completed g"
  "cg_frame_returned (cg_return_callback g)" "cg_status (cg_status_callback st g) \<noteq> None"
  "cg_frame_returned (cg_status_callback st g) = cg_frame_returned g"
  by (simp_all add: cg_status_callback_def cg_return_callback_def)

text \<open>Flushing a gate that owns the item in flight: nothing, or one completion of it.\<close>

definition flushed_tickets :: "'c completion list \<Rightarrow> ('c ticket \<times> string) list" where
  "flushed_tickets cs = concat (map (\<lambda>c. case c of None \<Rightarrow> [] | Some (i, st) \<Rightarrow> [(ticket i, st)]) cs)"

lemma ua_flush_cases:
  assumes "ua_gate a = Some g" "gate_owns (Some g) (sc_current (ua_scheduler a))" "sc_inv (ua_scheduler a)"
  obtains (kept) "ua_flush_gate a = (a, [])" "gate_open g"
  | (flushed) i st s cs where "sc_current (ua_scheduler a) = Some i" "cg_status g = Some st" "cg_frame_returned g"
      "ua_flush_gate a = (a\<lparr> ua_scheduler := s, ua_gate := None,
         ua_completion_tuples := ua_completion_tuples a @ [(si_item_id i, st, True)] \<rparr>, cs)"
      "flushed_tickets cs = [(ticket i, st)]" "sc_current s = None" "sc_inv s"
      "sc_state s = (if sc_not_ready_after_completion (ua_scheduler a) then NOT_READY else READY)"
proof -
  obtain i where i: "sc_current (ua_scheduler a) = Some i" "si_item_id i = cg_item_id g"
    "si_status i = None" "\<not> si_upstream_returned i" "\<not> cg_completed g"
    using assms(2) by (auto simp: gate_owns_simps)
  show ?thesis
  proof (cases "gate_open g")
    case True
    show ?thesis by (rule kept)
      (use True assms(1) in \<open>auto simp: ua_flush_gate_def gate_open_def split: option.split\<close>)
  next
    case False
    then obtain st where st: "cg_status g = Some st" "cg_frame_returned g" by (auto simp: gate_open_def)
    define r1 where "r1 = sc_mark_upstream_return (cg_item_id g) (ua_scheduler a)"
    define r2 where "r2 = sc_mark_status (cg_item_id g) st (fst r1)"
    have "fst r1 = fst (sc_step (ScReturn (cg_item_id g)) (ua_scheduler a))"
      "fst r2 = fst (sc_step (ScStatus (cg_item_id g) st) (fst r1))"
      by (simp_all add: r1_def r2_def split: prod.split)
    then have inv: "sc_inv (fst r2)" using assms(3) by (simp add: sc_step_inv del: sc_step.simps)
    have r1: "r1 = ((ua_scheduler a)\<lparr> sc_current := Some (i\<lparr> si_upstream_returned := True \<rparr>) \<rparr>, None)"
      using i by (simp add: r1_def sc_defs)
    have r2: "flushed_tickets [snd r1, snd r2] = [(ticket i, st)]" "sc_current (fst r2) = None"
      "sc_state (fst r2) = (if sc_not_ready_after_completion (ua_scheduler a) then NOT_READY else READY)"
      using i by (simp_all add: r1 r2_def sc_defs flushed_tickets_def ticket_def)
    have "ua_flush_gate a = (a\<lparr> ua_scheduler := fst r2, ua_gate := None,
        ua_completion_tuples := ua_completion_tuples a @ [(si_item_id i, st, True)] \<rparr>, [snd r1, snd r2])"
      using assms(1) i st by (simp add: ua_flush_gate_def r1_def r2_def Let_def split: prod.split)
    then show ?thesis using flushed [OF i(1) st] r2 inv by blast
  qed
qed

text \<open>One call: what it sends joins the item in flight, what it completes is that item.\<close>

definition ua_good :: "'c adapter \<Rightarrow> 'c adapter \<Rightarrow> 'c ticket list \<Rightarrow> ('c ticket \<times> string) list \<Rightarrow> bool" where
  "ua_good a a' sent flushed \<longleftrightarrow> ua_inv a' \<and>
     in_flight (ua_scheduler a) @ sent = map fst flushed @ in_flight (ua_scheduler a') \<and>
     ua_completion_tuples a' = ua_completion_tuples a @ map (\<lambda>(t, st). (fst t, st, True)) flushed"

lemma ua_flush_good:
  assumes "ua_gate a = Some g" "gate_owns (Some g) (sc_current (ua_scheduler a))" "sc_inv (ua_scheduler a)"
    and "in_flight (ua_scheduler b) = in_flight (ua_scheduler a)" "ua_completion_tuples b = ua_completion_tuples a"
  shows "ua_good b (fst (ua_flush_gate a)) [] (flushed_tickets (snd (ua_flush_gate a)))"
  using assms(1-3)
proof (cases rule: ua_flush_cases)
  case kept
  with assms show ?thesis by (simp add: ua_good_def ua_inv_def flushed_tickets_def)
next
  case (flushed i st s cs)
  with assms show ?thesis
    by (simp add: ua_good_def ua_inv_def in_flight_def flushed_tickets_def ticket_def)
qed

lemma ua_step_good:
  assumes "ua_inv a"
  shows "ua_good a (fst (ua_step op a)) (case fst (snd (ua_step op a)) of None \<Rightarrow> [] | Some i \<Rightarrow> [ticket i])
    (flushed_tickets (snd (snd (ua_step op a))))"
proof -
  have inv: "sc_inv (fst (sc_step op (ua_scheduler a)))" for op
    using assms by (intro sc_step_inv) (simp add: ua_inv_def)
  have idle: "ua_good a a [] []" using assms by (simp add: ua_good_def)
  show ?thesis
  proof (cases op)
    case (UaEnqueue kind frame completion key now)
    have "sc_current (fst (sc_enqueue kind frame completion key now (ua_scheduler a))) = sc_current (ua_scheduler a)"
      "sc_inv (fst (sc_enqueue kind frame completion key now (ua_scheduler a)))"
      using inv [of "ScEnqueue kind frame completion key now"]
      by (auto simp: sc_enqueue_def Let_def split: prod.splits sum.splits)
    with assms UaEnqueue show ?thesis
      by (simp add: ua_good_def ua_inv_def in_flight_def flushed_tickets_def)
  next
    case (UaSend now)
    have p: "sc_inv (fst (sc_poll now (ua_scheduler a)))"
      using inv [of "ScPoll now"] by (simp split: prod.splits option.splits)
    show ?thesis
    proof (cases rule: sc_poll_cases [of now "ua_scheduler a"])
      case nothing
      with assms UaSend p show ?thesis
        by (auto simp: ua_good_def ua_inv_def ua_send_next_def in_flight_def flushed_tickets_def
          split: prod.splits option.splits)
    next
      case (taken k item rest)
      obtain s where s: "sc_poll now (ua_scheduler a) = (s, Some item)" using taken by (cases "sc_poll now (ua_scheduler a)") simp
      have "si_status item = None \<and> \<not> si_upstream_returned item"
        using assms taken(3) unfolding ua_inv_def sc_inv_def by (metis list.set_intros(1))
      with assms UaSend p taken s show ?thesis
        by (auto simp: ua_good_def ua_inv_def ua_send_next_def in_flight_def flushed_tickets_def gate_open_def)
    qed
  next
    case (UaStatus st)
    show ?thesis
    proof (cases "ua_gate a")
      case None
      with UaStatus idle show ?thesis by (simp add: ua_receive_status_def flushed_tickets_def)
    next
      case (Some g)
      with assms have "ua_good a (fst (ua_receive_status st a)) [] (flushed_tickets (snd (ua_receive_status st a)))"
        unfolding ua_receive_status_def by (auto intro!: ua_flush_good simp: ua_inv_def gate_owns_simps)
      with UaStatus show ?thesis by (simp add: split_beta)
    qed
  next
    case UaReturn
    show ?thesis
    proof (cases "ua_gate a")
      case None
      with UaReturn idle show ?thesis by (simp add: ua_receive_return_def flushed_tickets_def)
    next
      case (Some g)
      with assms have "ua_good a (fst (ua_receive_return a)) [] (flushed_tickets (snd (ua_receive_return a)))"
        unfolding ua_receive_return_def by (auto intro!: ua_flush_good simp: ua_inv_def gate_owns_simps)
      with UaReturn show ?thesis by (simp add: split_beta)
    qed
  next
    case UaReset
    have n: "sc_inv (sc_set_not_ready (ua_scheduler a))"
      "sc_current (sc_set_not_ready (ua_scheduler a)) = sc_current (ua_scheduler a)"
      using inv [of ScNotReady] by (simp_all add: sc_set_not_ready_def)
    have "ua_good a (fst (ua_reset a)) [] (flushed_tickets (snd (ua_reset a)))"
    proof (cases "ua_gate a")
      case None
      with n assms show ?thesis
        by (simp add: ua_reset_def ua_good_def ua_inv_def in_flight_def flushed_tickets_def)
    next
      case (Some g)
      with n assms show ?thesis
        unfolding ua_reset_def Let_def
        by (auto intro!: ua_flush_good simp: ua_inv_def gate_owns_simps in_flight_def)
    qed
    with UaReset show ?thesis by (simp add: split_beta)
  next
    case UaReady
    with assms inv [of ScReady] show ?thesis
      by (auto simp: ua_good_def ua_inv_def sc_set_ready_def in_flight_def flushed_tickets_def)
  qed
qed

interpretation adapter: op_system "\<lambda>a op. fst (ua_step op a)" ua_inv
  by unfold_locales (use ua_step_good in \<open>auto simp: ua_good_def\<close>)

lemma fst_ua_run: "fst (ua_run a ops) = run_ops (\<lambda>a op. fst (ua_step op a)) a ops"
  by (induction ops arbitrary: a) (simp_all add: split_beta Let_def)

lemma ua_run_good:
  "ua_inv a \<Longrightarrow> ua_run a ops = (a', sents, flushed) \<Longrightarrow> ua_good a a' sents flushed"
proof (induction ops arbitrary: a sents flushed)
  case Nil
  then show ?case by (simp add: ua_good_def)
next
  case (Cons op ops)
  obtain a1 sent cs where step: "ua_step op a = (a1, sent, cs)" by (cases "ua_step op a") auto
  obtain sents' flushed' where rest: "ua_run a1 ops = (a', sents', flushed')"
    and r: "sents = (case sent of None \<Rightarrow> [] | Some i \<Rightarrow> [ticket i]) @ sents'"
      "flushed = flushed_tickets cs @ flushed'"
    using Cons.prems(2) by (auto simp: step flushed_tickets_def Let_def split: prod.splits)
  note g = ua_step_good [OF Cons.prems(1), of op, unfolded step fst_conv snd_conv]
  have "ua_good a1 a' sents' flushed'" using g by (intro Cons.IH [OF _ rest]) (simp add: ua_good_def)
  with g show ?case unfolding ua_good_def r map_append by (metis append.assoc)
qed

lemma ua_reset_idle:
  assumes "ua_inv a"
  shows "in_flight (ua_scheduler (fst (ua_reset a))) = [] \<and> sc_state (ua_scheduler (fst (ua_reset a))) = NOT_READY"
proof (cases "ua_gate a")
  case None
  with assms show ?thesis
    by (simp add: ua_reset_def ua_inv_def gate_owns_simps sc_set_not_ready_def in_flight_def)
next
  case (Some g)
  define g' where "g' = cg_status_callback ''SESSION_RESET'' (cg_return_callback g)"
  define b where "b = a\<lparr> ua_scheduler := sc_set_not_ready (ua_scheduler a), ua_gate := Some g' \<rparr>"
  have r: "ua_reset a = ua_flush_gate b" using Some by (simp add: ua_reset_def b_def g'_def)
  have closed: "\<not> gate_open g'" by (simp add: g'_def gate_open_def)
  have c: "sc_current (ua_scheduler a) \<noteq> None" using assms Some by (auto simp: ua_inv_def gate_owns_simps)
  have b: "ua_gate b = Some g'" "gate_owns (Some g') (sc_current (ua_scheduler b))" "sc_inv (ua_scheduler b)"
    "sc_not_ready_after_completion (ua_scheduler b)"
    using assms Some c by (auto simp: b_def g'_def ua_inv_def gate_owns_simps sc_set_not_ready_def sc_inv_def)
  from b(1-3) show ?thesis
  proof (cases rule: ua_flush_cases)
    case kept
    with closed show ?thesis by simp
  next
    case (flushed i st s cs)
    with b(4) show ?thesis by (simp add: r in_flight_def)
  qed
qed

section \<open>What the adapter implements\<close>

text \<open>
  The contract, over what a client sees: at most one frame is pending, with the first status it
  was given and whether it has returned; it completes with that status as soon as it has both.
  \<open>spec_step\<close> takes one call and the frame it sent; a reset supplies whatever is missing.
\<close>

type_synonym 'c pending = "('c ticket \<times> string option \<times> bool) option"

definition latch :: "string \<Rightarrow> string option \<Rightarrow> string option" where
  "latch status known = (case known of None \<Rightarrow> Some status | Some st \<Rightarrow> Some st)"

fun settle :: "'c pending \<Rightarrow> 'c pending \<times> ('c ticket \<times> string) list" where
  "settle (Some (t, Some status, True)) = (None, [(t, status)])"
| "settle p = (p, [])"

fun spec_step :: "'c adapter_op \<Rightarrow> 'c ticket option \<Rightarrow> 'c pending \<Rightarrow> 'c pending \<times> ('c ticket \<times> string) list" where
  "spec_step (UaSend _) sent p = (case sent of None \<Rightarrow> p | Some t \<Rightarrow> Some (t, None, False), [])"
| "spec_step (UaStatus status) _ p = settle (map_option (\<lambda>(t, known, returned). (t, latch status known, returned)) p)"
| "spec_step UaReturn _ p = settle (map_option (\<lambda>(t, known, _). (t, known, True)) p)"
| "spec_step UaReset _ p = settle (map_option (\<lambda>(t, known, _). (t, latch ''SESSION_RESET'' known, True)) p)"
| "spec_step _ _ p = (p, [])"

fun spec_run :: "'c pending \<Rightarrow> ('c adapter_op \<times> 'c ticket option) list \<Rightarrow> ('c ticket \<times> string) list" where
  "spec_run p [] = []"
| "spec_run p ((op, sent) # log) = (let (p', completed) = spec_step op sent p in completed @ spec_run p' log)"

text \<open>The calls of a run with the frame each sent.\<close>

fun ua_log :: "'c adapter \<Rightarrow> 'c adapter_op list \<Rightarrow> ('c adapter_op \<times> 'c ticket option) list" where
  "ua_log a [] = []"
| "ua_log a (op # ops) = (op, map_option ticket (fst (snd (ua_step op a)))) # ua_log (fst (ua_step op a)) ops"

definition pending_of :: "'c adapter \<Rightarrow> 'c pending" where
  "pending_of a = (case ua_gate a of None \<Rightarrow> None | Some g \<Rightarrow>
     map_option (\<lambda>i. (ticket i, cg_status g, cg_frame_returned g)) (sc_current (ua_scheduler a)))"

lemma pending_of_simps:
  "ua_gate a = None \<Longrightarrow> pending_of a = None"
  "ua_gate a = Some g \<Longrightarrow>
     pending_of a = map_option (\<lambda>i. (ticket i, cg_status g, cg_frame_returned g)) (sc_current (ua_scheduler a))"
  by (simp_all add: pending_of_def)

lemma settle_open: "gate_open g \<Longrightarrow> settle (map_option (\<lambda>i. (ticket i, cg_status g, cg_frame_returned g)) c)
    = (map_option (\<lambda>i. (ticket i, cg_status g, cg_frame_returned g)) c, [])"
  by (cases c; cases "cg_status g"; cases "cg_frame_returned g") (auto simp: gate_open_def)

lemma ua_flush_spec:
  assumes "ua_gate a = Some g" "gate_owns (Some g) (sc_current (ua_scheduler a))" "sc_inv (ua_scheduler a)"
  shows "settle (pending_of a) = (pending_of (fst (ua_flush_gate a)), flushed_tickets (snd (ua_flush_gate a)))"
  using assms
proof (cases rule: ua_flush_cases)
  case kept
  with assms show ?thesis by (simp add: pending_of_def settle_open flushed_tickets_def)
next
  case (flushed i st s cs)
  with assms show ?thesis by (simp add: pending_of_def)
qed

lemma callback_fields [simp]:
  "cg_status (cg_status_callback status g) = latch status (cg_status g)"
  "cg_status (cg_return_callback g) = cg_status g"
  by (simp_all add: cg_status_callback_def cg_return_callback_def latch_def split: option.split)

lemma ua_step_spec:
  assumes "ua_inv a" and "ua_step op a = (a', sent, cs)"
  shows "spec_step op (map_option ticket sent) (pending_of a) = (pending_of a', flushed_tickets cs)"
proof -
  have flush: "settle (pending_of (a\<lparr> ua_scheduler := s, ua_gate := Some g' \<rparr>)) =
      (pending_of (fst (ua_flush_gate (a\<lparr> ua_scheduler := s, ua_gate := Some g' \<rparr>))),
       flushed_tickets (snd (ua_flush_gate (a\<lparr> ua_scheduler := s, ua_gate := Some g' \<rparr>))))"
    if "gate_owns (Some g') (sc_current s)" "sc_inv s" for g' s
    using that by (intro ua_flush_spec) auto
  show ?thesis
  proof (cases op)
    case (UaEnqueue kind frame completion key now)
    have "sc_current (fst (sc_enqueue kind frame completion key now (ua_scheduler a))) = sc_current (ua_scheduler a)"
      by (auto simp: sc_enqueue_def Let_def split: sum.splits)
    with assms UaEnqueue show ?thesis by (auto simp: pending_of_def flushed_tickets_def split: option.split)
  next
    case (UaSend now)
    have idle: "ua_gate a = None" if "sc_current (ua_scheduler a) = None"
      using assms(1) that by (cases "ua_gate a") (auto simp: ua_inv_def gate_owns_simps)
    show ?thesis
    proof (cases rule: sc_poll_cases [of now "ua_scheduler a"])
      case nothing
      with assms UaSend show ?thesis
        by (auto simp: pending_of_def ua_send_next_def flushed_tickets_def split: prod.splits option.splits)
    next
      case (taken k item rest)
      with assms UaSend idle show ?thesis
        by (auto simp: pending_of_def ua_send_next_def flushed_tickets_def split: prod.splits option.splits)
    qed
  next
    case (UaStatus st)
    show ?thesis
    proof (cases "ua_gate a")
      case None
      with assms UaStatus show ?thesis
        by (simp add: ua_receive_status_def flushed_tickets_def pending_of_def)
    next
      case (Some g)
      with assms UaStatus flush [of "cg_status_callback st g" "ua_scheduler a"] show ?thesis
        by (auto simp: ua_receive_status_def ua_inv_def gate_owns_simps pending_of_simps split: prod.splits)
    qed
  next
    case UaReturn
    show ?thesis
    proof (cases "ua_gate a")
      case None
      with assms UaReturn show ?thesis
        by (simp add: ua_receive_return_def flushed_tickets_def pending_of_def)
    next
      case (Some g)
      with assms UaReturn flush [of "cg_return_callback g" "ua_scheduler a"] show ?thesis
        by (auto simp: ua_receive_return_def ua_inv_def gate_owns_simps pending_of_simps split: prod.splits)
    qed
  next
    case UaReset
    have n: "sc_inv (sc_set_not_ready (ua_scheduler a))"
      using assms(1) sc_step_inv [of "ua_scheduler a" ScNotReady] by (simp add: ua_inv_def)
    have c: "sc_current (sc_set_not_ready (ua_scheduler a)) = sc_current (ua_scheduler a)"
      by (simp add: sc_set_not_ready_def)
    show ?thesis
    proof (cases "ua_gate a")
      case None
      with assms UaReset show ?thesis
        by (auto simp add: ua_reset_def flushed_tickets_def pending_of_def)
    next
      case (Some g)
      with assms UaReset n c
        flush [of "cg_status_callback ''SESSION_RESET'' (cg_return_callback g)" "sc_set_not_ready (ua_scheduler a)"]
      show ?thesis
        by (auto simp: ua_reset_def Let_def ua_inv_def gate_owns_simps pending_of_simps split: prod.splits)
    qed
  next
    case UaReady
    with assms show ?thesis by (auto simp: pending_of_def sc_set_ready_def flushed_tickets_def split: option.split)
  qed
qed

lemma ua_run_spec:
  "ua_inv a \<Longrightarrow> ua_run a ops = (a', sents, flushed) \<Longrightarrow> flushed = spec_run (pending_of a) (ua_log a ops)"
proof (induction ops arbitrary: a sents flushed)
  case Nil
  then show ?case by simp
next
  case (Cons op ops)
  obtain a1 sent cs where step: "ua_step op a = (a1, sent, cs)" by (cases "ua_step op a") auto
  obtain sents' flushed' where rest: "ua_run a1 ops = (a', sents', flushed')"
    and r: "flushed = flushed_tickets cs @ flushed'"
    using Cons.prems(2) by (auto simp: step flushed_tickets_def Let_def split: prod.splits)
  have "ua_inv a1" using ua_step_good [OF Cons.prems(1), of op] by (simp add: step ua_good_def)
  from Cons.IH [OF this rest] show ?case
    using ua_step_spec [OF Cons.prems(1) step] by (simp add: r step)
qed

section \<open>Property\<close>

text \<open>
  C14: The completion gate answers for every frame it sends exactly once. For every sequence of
  calls on a fresh adapter, statuses and returns in any order, repeated or out of place: the
  items handed to \<^verbatim>\<open>send_frame\<close> are, in order, those the scheduler has completed and the one
  in flight, if any; \<^verbatim>\<open>completion_tuples\<close> lists the completed items with the status each was
  completed with; the completions are those of the contract \<open>spec_run\<close>: a frame completes when
  it has a status and has returned, with the first status it was given, whatever comes later;
  the gate is open exactly while a frame is in flight. A reset always ends the
  ownership and leaves the scheduler not ready, so that nothing is sent before \<^verbatim>\<open>set_ready\<close>.
\<close>

theorem adapter_completes_once:
  assumes "sc_init caps ack_burst control_burst file_burst = Inr s"
  shows "let (a, sents, completed) = ua_run (ua_init s) ops; (r, _) = ua_reset a in
    sents = map fst completed @ in_flight (ua_scheduler a) \<and>
    ua_completion_tuples a = map (\<lambda>(t, status). (fst t, status, True)) completed \<and>
    completed = spec_run None (ua_log (ua_init s) ops) \<and>
    (ua_gate a = None \<longleftrightarrow> in_flight (ua_scheduler a) = []) \<and>
    in_flight (ua_scheduler r) = [] \<and> snd (ua_send_next now r) = None"
proof -
  obtain a sents completed where run: "ua_run (ua_init s) ops = (a, sents, completed)"
    by (cases "ua_run (ua_init s) ops") auto
  have s: "sc_inv s" "sc_current s = None"
    using sc_init_inv [OF assms] sc_init_empty [OF assms, of ACK]
    by (auto simp: in_flight_def split: option.split_asm)
  then have init: "ua_inv (ua_init s)" by (simp add: ua_inv_def ua_init_def)
  have spec: "completed = spec_run None (ua_log (ua_init s) ops)"
    using ua_run_spec [OF init run] by (simp add: pending_of_def ua_init_def)
  from init have g: "ua_good (ua_init s) a sents completed" by (rule ua_run_good [OF _ run])
  then have inv: "ua_inv a" by (simp add: ua_good_def)
  have gate: "ua_gate a = None \<longleftrightarrow> in_flight (ua_scheduler a) = []"
    using inv by (cases "ua_gate a") (auto simp: ua_inv_def gate_owns_simps in_flight_def)
  have "snd (ua_send_next now (fst (ua_reset a))) = None"
    using ua_reset_idle [OF inv] by (simp add: ua_send_next_def sc_poll_def)
  moreover have "in_flight (ua_scheduler (ua_init s)) = []" "ua_completion_tuples (ua_init s) = []"
    using s by (simp_all add: ua_init_def in_flight_def)
  ultimately show ?thesis
    using g gate ua_reset_idle [OF inv] unfolding run prod.case Let_def spec [symmetric]
    by (simp add: split_beta ua_good_def)
qed

lemma adapter_completes_once_witness:
  "\<exists>s. sc_init None 8 4 8 = Inr s \<and>
     (case ua_run (ua_init s) [UaEnqueue FILE [1] (Some ()) None 5, UaSend 6, UaReturn, UaStatus ''OK'', UaStatus ''LATE''] of
        (a, sents, completed) \<Rightarrow> sents = [(1, FILE, [1], Some ())] \<and> completed = [((1, FILE, [1], Some ()), ''OK'')] \<and>
          ua_completion_tuples a = [(1, ''OK'', True)])"
proof -
  obtain s :: "unit scheduler" where s: "sc_init None 8 4 8 = Inr s"
    by (simp add: sc_init_def default_capacities_def kinds_def)
  let ?ops = "[UaEnqueue FILE [1] (Some ()) None 5, UaSend 6, UaReturn, UaStatus ''OK'', UaStatus ''LATE'']"
  have "case sc_init None 8 4 8 of Inl _ \<Rightarrow> False | Inr s \<Rightarrow>
      snd (ua_run (ua_init s) ?ops) = ([(1, FILE, [1], Some ())], [((1, FILE, [1], Some ()), ''OK'')])"
    by code_simp
  then have "snd (ua_run (ua_init s) ?ops) = ([(1, FILE, [1], Some ())], [((1, FILE, [1], Some ()), ''OK'')])"
    using s by simp
  with adapter_completes_once [OF s, of ?ops] s show ?thesis by (simp add: split_beta Let_def del: ua_run.simps)
qed

end
