(* ===== verification/QueueManager.thy ===== *)
theory QueueManager
  imports Interfaces
begin

text \<open>
  \<^verbatim>\<open>link_sim/queue_manager.py\<close>: the bounded frame queue with its overflow policies and
  metrics. A method body runs under one lock, so it is one step. A call that waits on the
  condition is two steps: the part before the wait (\<open>WouldBlock\<close>, \<open>Waiting\<close>: nothing has
  changed) and the part after it; a blocked \<^verbatim>\<open>enqueue\<close> that is woken tests the loop
  condition again, which is \<open>qm_enqueue\<close> again.
\<close>

section \<open>Data\<close>

datatype overflow_policy = DROP | BLOCK | LOG_ONLY

record queue_config =
  qc_capacity :: int
  qc_overflow_policy :: overflow_policy
  qc_enable_fallback_log :: bool

record queued_frame =
  qf_link_frame_id :: int
  qf_admission_order :: int
  qf_ingress_time_ns :: int
  qf_frame_bytes :: bytes

record fallback_entry =
  fb_link_frame_id :: int
  fb_admission_order :: int
  fb_ingress_time_ns :: int
  fb_reason :: string

record queue_manager =
  qm_config :: queue_config
  qm_queue :: "queued_frame list"
  qm_total_enqueued :: nat
  qm_total_dequeued :: nat
  qm_total_dropped :: nat
  qm_total_logged_fallback :: nat
  qm_high_water_mark :: nat
  qm_fallback_log :: "fallback_entry list"

definition qm_init :: "queue_config \<Rightarrow> queue_manager" where
  "qm_init config =
     \<lparr> qm_config = config, qm_queue = [], qm_total_enqueued = 0, qm_total_dequeued = 0,
       qm_total_dropped = 0, qm_total_logged_fallback = 0, qm_high_water_mark = 0,
       qm_fallback_log = [] \<rparr>"

section \<open>Operations\<close>

text \<open>What a call did to which frame, beside its return value.\<close>

datatype queue_event =
    Accepted queued_frame       \<comment> \<open>appended, \<^verbatim>\<open>enqueue\<close> returns True\<close>
  | Refused queued_frame        \<comment> \<open>dropped, \<^verbatim>\<open>enqueue\<close> returns False\<close>
  | LoggedOnly queued_frame     \<comment> \<open>counted as overflow, \<^verbatim>\<open>enqueue\<close> returns True\<close>
  | WouldBlock queued_frame     \<comment> \<open>\<^verbatim>\<open>enqueue\<close> waits for space\<close>
  | Delivered queued_frame      \<comment> \<open>\<^verbatim>\<open>dequeue\<close> returns the frame\<close>
  | Waiting                     \<comment> \<open>\<^verbatim>\<open>dequeue\<close> waits for a frame\<close>
  | ReturnedNone                \<comment> \<open>\<^verbatim>\<open>dequeue\<close> returns None\<close>
  | Cleared "queued_frame list" \<comment> \<open>\<^verbatim>\<open>clear\<close> removes these\<close>

definition qm_full :: "queue_manager \<Rightarrow> bool" where
  "qm_full q \<longleftrightarrow> int (length (qm_queue q)) \<ge> qc_capacity (qm_config q)"

definition qm_append :: "queued_frame \<Rightarrow> queue_manager \<Rightarrow> queue_manager" where
  "qm_append frame q =
     (let queue = qm_queue q @ [frame];
          current_depth = length queue
      in q\<lparr> qm_queue := queue,
            qm_total_enqueued := qm_total_enqueued q + 1,
            qm_high_water_mark :=
              (if current_depth > qm_high_water_mark q then current_depth
               else qm_high_water_mark q) \<rparr>)"

definition qm_enqueue :: "queued_frame \<Rightarrow> queue_manager \<Rightarrow> queue_manager \<times> queue_event" where
  "qm_enqueue frame q =
     (if qm_full q then
        case qc_overflow_policy (qm_config q) of
          DROP \<Rightarrow> (q\<lparr>qm_total_dropped := qm_total_dropped q + 1\<rparr>, Refused frame)
        | LOG_ONLY \<Rightarrow>
            (let q' = q\<lparr>qm_total_logged_fallback := qm_total_logged_fallback q + 1\<rparr>
             in (if qc_enable_fallback_log (qm_config q)
                 then q'\<lparr>qm_fallback_log := qm_fallback_log q @
                   [\<lparr> fb_link_frame_id = qf_link_frame_id frame,
                      fb_admission_order = qf_admission_order frame,
                      fb_ingress_time_ns = qf_ingress_time_ns frame,
                      fb_reason = ''queue_full_udp_delivered'' \<rparr>]\<rparr>
                 else q', LoggedOnly frame))
        | BLOCK \<Rightarrow> (q, WouldBlock frame)
      else (qm_append frame q, Accepted frame))"

definition qm_pop :: "queue_manager \<Rightarrow> queue_manager \<times> queue_event" where
  "qm_pop q =
     (case qm_queue q of
        [] \<Rightarrow> (q, ReturnedNone)
      | frame # rest \<Rightarrow>
          (q\<lparr> qm_queue := rest, qm_total_dequeued := qm_total_dequeued q + 1 \<rparr>, Delivered frame))"

text \<open>\<^verbatim>\<open>dequeue\<close> up to the wait, and after it (with the result of the wait).\<close>

definition qm_dequeue :: "queue_manager \<Rightarrow> queue_manager \<times> queue_event" where
  "qm_dequeue q = (if qm_queue q = [] then (q, Waiting) else qm_pop q)"

definition qm_dequeue_woken :: "bool \<Rightarrow> queue_manager \<Rightarrow> queue_manager \<times> queue_event" where
  "qm_dequeue_woken timed_out q = (if timed_out then (q, ReturnedNone) else qm_pop q)"

definition qm_peek :: "queue_manager \<Rightarrow> queued_frame option" where
  "qm_peek q = (case qm_queue q of [] \<Rightarrow> None | frame # _ \<Rightarrow> Some frame)"

definition qm_clear :: "queue_manager \<Rightarrow> queue_manager \<times> queue_event" where
  "qm_clear q =
     (q\<lparr> qm_queue := [], qm_total_dropped := qm_total_dropped q + length (qm_queue q) \<rparr>,
      Cleared (qm_queue q))"

record queue_stats =
  qs_capacity :: int
  qs_current_depth :: nat
  qs_total_enqueued :: nat
  qs_total_dequeued :: nat
  qs_total_dropped :: nat
  qs_total_logged_fallback :: nat
  qs_high_water_mark :: nat

definition qm_get_stats :: "queue_manager \<Rightarrow> queue_stats" where
  "qm_get_stats q =
     \<lparr> qs_capacity = qc_capacity (qm_config q), qs_current_depth = length (qm_queue q),
       qs_total_enqueued = qm_total_enqueued q, qs_total_dequeued = qm_total_dequeued q,
       qs_total_dropped = qm_total_dropped q,
       qs_total_logged_fallback = qm_total_logged_fallback q,
       qs_high_water_mark = qm_high_water_mark q \<rparr>"

datatype queue_op = Enqueue queued_frame | Dequeue | DequeueWoken bool | ClearQueue

fun qm_step :: "queue_op \<Rightarrow> queue_manager \<Rightarrow> queue_manager \<times> queue_event" where
  "qm_step (Enqueue frame) q = qm_enqueue frame q"
| "qm_step Dequeue q = qm_dequeue q"
| "qm_step (DequeueWoken timed_out) q = qm_dequeue_woken timed_out q"
| "qm_step ClearQueue q = qm_clear q"

fun qm_run :: "queue_manager \<Rightarrow> queue_op list \<Rightarrow> queue_manager \<times> queue_event list" where
  "qm_run q [] = (q, [])"
| "qm_run q (op # ops) =
     (let (q1, ev) = qm_step op q; (q2, evs) = qm_run q1 ops in (q2, ev # evs))"

section \<open>The specification: a FIFO list\<close>

text \<open>Frames that went in, and frames that came out (delivered, or removed by a clear).\<close>

fun ev_in :: "queue_event \<Rightarrow> queued_frame list" where
  "ev_in (Accepted f) = [f]" | "ev_in _ = []"

fun ev_delivered :: "queue_event \<Rightarrow> queued_frame list" where
  "ev_delivered (Delivered f) = [f]" | "ev_delivered _ = []"

fun ev_cleared :: "queue_event \<Rightarrow> queued_frame list" where
  "ev_cleared (Cleared fs) = fs" | "ev_cleared _ = []"

fun ev_refused :: "queue_event \<Rightarrow> queued_frame list" where
  "ev_refused (Refused f) = [f]" | "ev_refused _ = []"

definition ev_out :: "queue_event \<Rightarrow> queued_frame list" where
  "ev_out ev = ev_delivered ev @ ev_cleared ev"

definition trace :: "(queue_event \<Rightarrow> queued_frame list) \<Rightarrow> queue_event list \<Rightarrow> queued_frame list" where
  "trace f evs = concat (map f evs)"

lemma trace_simps [simp]: "trace f [] = []" "trace f (e # es) = f e @ trace f es"
  by (simp_all add: trace_def)

lemmas qm_defs =
  qm_enqueue_def qm_append_def qm_full_def qm_pop_def qm_dequeue_def qm_dequeue_woken_def
  qm_clear_def Let_def ev_out_def

text \<open>One step: what leaves comes off the front, what enters goes to the back.\<close>

lemma qm_step_fifo:
  assumes "qm_step op q = (q', ev)"
  shows "qm_queue q @ ev_in ev = ev_out ev @ qm_queue q'"
  using assms by (cases op) (auto simp: qm_defs split: if_splits overflow_policy.splits list.splits)

lemma qm_step_counters:
  assumes "qm_step op q = (q', ev)"
  shows "qm_total_enqueued q' = qm_total_enqueued q + length (ev_in ev)"
    "qm_total_dequeued q' = qm_total_dequeued q + length (ev_delivered ev)"
    "qm_total_dropped q' = qm_total_dropped q + length (ev_cleared ev) + length (ev_refused ev)"
    "qm_config q' = qm_config q"
  using assms by (cases op; auto simp: qm_defs split: if_splits overflow_policy.splits list.splits)+

definition qm_inv :: "queue_manager \<Rightarrow> bool" where
  "qm_inv q \<longleftrightarrow>
     int (length (qm_queue q)) \<le> max 0 (qc_capacity (qm_config q)) \<and>
     length (qm_queue q) \<le> qm_high_water_mark q \<and>
     int (qm_high_water_mark q) \<le> max 0 (qc_capacity (qm_config q))"

lemma qm_step_inv: "qm_inv q \<Longrightarrow> qm_inv (fst (qm_step op q))"
  by (cases op) (auto simp: qm_inv_def qm_defs split: overflow_policy.splits list.splits)

interpretation queue: op_system "\<lambda>q op. fst (qm_step op q)" qm_inv
  by unfold_locales (rule qm_step_inv)

interpretation queue_mark:
  monotone_system "\<lambda>q op. fst (qm_step op q)" qm_inv qm_high_water_mark
proof unfold_locales
  fix q op
  show "qm_high_water_mark q \<le> qm_high_water_mark (fst (qm_step op q))"
    by (cases op) (auto simp: qm_defs split: overflow_policy.splits list.splits)
qed

lemma fst_qm_run: "fst (qm_run q ops) = run_ops (\<lambda>q op. fst (qm_step op q)) q ops"
  by (induction ops arbitrary: q) (simp_all add: split_beta Let_def)

lemma qm_run_fifo:
  "qm_run q ops = (q', evs) \<Longrightarrow> qm_queue q @ trace ev_in evs = trace ev_out evs @ qm_queue q'"
proof (induction ops arbitrary: q evs)
  case Nil
  then show ?case by simp
next
  case (Cons op ops)
  obtain q1 ev where step: "qm_step op q = (q1, ev)" by force
  obtain evs' where rest: "qm_run q1 ops = (q', evs')" and evs: "evs = ev # evs'"
    using Cons.prems by (auto simp: step Let_def split: prod.splits)
  have "qm_queue q @ ev_in ev @ trace ev_in evs' = ev_out ev @ qm_queue q1 @ trace ev_in evs'"
    using qm_step_fifo [OF step] by (metis append.assoc)
  with Cons.IH [OF rest] show ?case by (simp add: evs)
qed

lemma qm_run_counters:
  "qm_run q ops = (q', evs) \<Longrightarrow>
   qm_total_enqueued q' = qm_total_enqueued q + length (trace ev_in evs) \<and>
   qm_total_dequeued q' = qm_total_dequeued q + length (trace ev_delivered evs) \<and>
   qm_total_dropped q' = qm_total_dropped q + length (trace ev_cleared evs) + length (trace ev_refused evs) \<and>
   qm_config q' = qm_config q"
proof (induction ops arbitrary: q evs)
  case Nil
  then show ?case by simp
next
  case (Cons op ops)
  obtain q1 ev where step: "qm_step op q = (q1, ev)" by force
  obtain evs' where rest: "qm_run q1 ops = (q', evs')" and evs: "evs = ev # evs'"
    using Cons.prems by (auto simp: step Let_def split: prod.splits)
  show ?case using Cons.IH [OF rest] qm_step_counters [OF step] by (simp add: evs)
qed

lemma qm_init_inv: "qm_inv (qm_init cfg)"
  by (simp add: qm_inv_def qm_init_def)

section \<open>Properties\<close>


text \<open>
  The queue never holds more frames than its capacity, whatever the policy and the calls, and
  the high-water mark is at least the current depth, never above the capacity, and never
  decreases.
\<close>

theorem queue_bounded:
  "let (q, evs) = qm_run (qm_init cfg) ops; (q', evs') = qm_run q ops' in
     int (qs_current_depth (qm_get_stats q)) \<le> max 0 (qc_capacity cfg) \<and>
     qs_current_depth (qm_get_stats q) \<le> qs_high_water_mark (qm_get_stats q) \<and>
     int (qs_high_water_mark (qm_get_stats q)) \<le> max 0 (qc_capacity cfg) \<and>
     qs_high_water_mark (qm_get_stats q) \<le> qs_high_water_mark (qm_get_stats q')"
proof -
  obtain q evs where run: "qm_run (qm_init cfg) ops = (q, evs)" by force
  obtain q' evs' where run': "qm_run q ops' = (q', evs')" by force
  have q: "q = run_ops (\<lambda>q op. fst (qm_step op q)) (qm_init cfg) ops"
    and q': "q' = run_ops (\<lambda>q op. fst (qm_step op q)) q ops'"
    using fst_qm_run [of "qm_init cfg" ops] fst_qm_run [of q ops'] unfolding run run' by simp_all
  have inv: "qm_inv q" unfolding q by (rule queue.inv_run [OF qm_init_inv])
  moreover have "qm_config q = cfg" using qm_run_counters [OF run] by (simp add: qm_init_def)
  moreover have "qm_high_water_mark q \<le> qm_high_water_mark q'"
    unfolding q' by (rule queue_mark.level_run [OF inv])
  ultimately show ?thesis
    by (simp add: run run' qm_get_stats_def qm_inv_def)
qed

end
