(* ===== verification/RangeSets.thy ===== *)
theory RangeSets
  imports Main
begin

text \<open>
  Sets of half-open ranges that neither overlap nor touch, and the step that adds one: every
  range it meets is replaced by their common hull. The index of \<^verbatim>\<open>file_reassembly.py\<close> is such a set.
\<close>

definition covered :: "(int \<times> int) set \<Rightarrow> int set" where
  "covered R = (\<Union>(a, b) \<in> R. {a..<b})"

definition apart :: "(int \<times> int) set \<Rightarrow> bool" where
  "apart R \<longleftrightarrow> finite R \<and> (\<forall>(a, b) \<in> R. a < b) \<and>
     (\<forall>r \<in> R. \<forall>q \<in> R. r \<noteq> q \<longrightarrow> snd r < fst q \<or> snd q < fst r)"

definition touching :: "int \<Rightarrow> int \<Rightarrow> (int \<times> int) set \<Rightarrow> (int \<times> int) set" where
  "touching start stop R = {(a, b) \<in> R. a \<le> stop \<and> b \<ge> start}"

definition hull :: "int \<Rightarrow> int \<Rightarrow> (int \<times> int) set \<Rightarrow> int \<times> int" where
  "hull start stop T = (Min (insert start (fst ` T)), Max (insert stop (snd ` T)))"

definition add_range :: "int \<Rightarrow> int \<Rightarrow> (int \<times> int) set \<Rightarrow> (int \<times> int) set" where
  "add_range start stop R = insert (hull start stop (touching start stop R)) (R - touching start stop R)"

lemma covered_simps [simp]:
  "covered {} = {}" "covered (insert r R) = {fst r..<snd r} \<union> covered R" "covered (R \<union> S) = covered R \<union> covered S"
  by (auto simp: covered_def)

lemma covered_iff: "i \<in> covered R \<longleftrightarrow> (\<exists>a b. (a, b) \<in> R \<and> a \<le> i \<and> i < b)"
  by (fastforce simp: covered_def)

lemma apartD:
  assumes "apart R"
  shows "finite R" "(a, b) \<in> R \<Longrightarrow> a < b"
    "(a, b) \<in> R \<Longrightarrow> (c, d) \<in> R \<Longrightarrow> (a, b) \<noteq> (c, d) \<Longrightarrow> b < c \<or> d < a"
proof -
  show "finite R" "(a, b) \<in> R \<Longrightarrow> a < b" using assms by (auto simp: apart_def)
  assume "(a, b) \<in> R" "(c, d) \<in> R" "(a, b) \<noteq> (c, d)"
  then have "snd (a, b) < fst (c, d) \<or> snd (c, d) < fst (a, b)" using assms unfolding apart_def by blast
  then show "b < c \<or> d < a" by simp
qed

lemma apart_subset: "apart R \<Longrightarrow> S \<subseteq> R \<Longrightarrow> apart S"
  unfolding apart_def by (blast intro: finite_subset)

lemma touching_subset: "touching start stop R \<subseteq> R"
  by (auto simp: touching_def)

lemma apart_functional: "apart R \<Longrightarrow> (a, b) \<in> R \<Longrightarrow> (a, c) \<in> R \<Longrightarrow> b = c"
  using apartD(2,3) [of R] by fastforce

text \<open>The length of the ranges is the number of positions they cover.\<close>

lemma apart_disjoint:
  assumes "apart R" "r \<in> R" "q \<in> R" "r \<noteq> q"
  shows "{fst r..<snd r} \<inter> {fst q..<snd q} = {}"
  using apartD(3) [OF assms(1), of "fst r" "snd r" "fst q" "snd q"] assms(2-4) by auto

lemma card_covered:
  assumes "apart R"
  shows "int (card (covered R)) = (\<Sum>(a, b) \<in> R. b - a)"
proof -
  have "card (covered R) = (\<Sum>r \<in> R. card {fst r..<snd r})"
    unfolding covered_def split_def using apartD(1) [OF assms] apart_disjoint [OF assms]
    by (subst card_UN_disjoint) auto
  moreover have "int (card {fst r..<snd r}) = snd r - fst r" if "r \<in> R" for r
    using apartD(2) [OF assms, of "fst r" "snd r"] that by simp
  ultimately show ?thesis by (simp add: split_def)
qed

lemma finite_covered: "apart R \<Longrightarrow> finite (covered R)"
  unfolding covered_def by (auto dest: apartD(1))

text \<open>Adding a range.\<close>

lemma hull_bounds:
  assumes "finite T"
  shows "fst (hull start stop T) \<le> start" "stop \<le> snd (hull start stop T)"
    "(a, b) \<in> T \<Longrightarrow> fst (hull start stop T) \<le> a" "(a, b) \<in> T \<Longrightarrow> b \<le> snd (hull start stop T)"
    "fst (hull start stop T) = start \<or> (\<exists>b. (fst (hull start stop T), b) \<in> T)"
    "snd (hull start stop T) = stop \<or> (\<exists>a. (a, snd (hull start stop T)) \<in> T)"
proof -
  have fin: "finite (insert start (fst ` T))" "finite (insert stop (snd ` T))" using assms by auto
  show "fst (hull start stop T) \<le> start" "stop \<le> snd (hull start stop T)"
    using fin by (simp_all add: hull_def del: Min_insert Max_insert)
  show "(a, b) \<in> T \<Longrightarrow> fst (hull start stop T) \<le> a"
    unfolding hull_def fst_conv by (rule Min_le [OF fin(1)]) force
  show "(a, b) \<in> T \<Longrightarrow> b \<le> snd (hull start stop T)"
    unfolding hull_def snd_conv by (rule Max_ge [OF fin(2)]) force
  show "fst (hull start stop T) = start \<or> (\<exists>b. (fst (hull start stop T), b) \<in> T)"
    using Min_in [OF fin(1)] by (auto simp: hull_def simp del: Min_insert)
  show "snd (hull start stop T) = stop \<or> (\<exists>a. (a, snd (hull start stop T)) \<in> T)"
    using Max_in [OF fin(2)] by (auto simp: hull_def simp del: Max_insert)
qed

lemma covered_touching:
  assumes R: "apart R" and ne: "start < stop"
  shows "{start..<stop} \<union> covered (touching start stop R) =
     {fst (hull start stop (touching start stop R))..<snd (hull start stop (touching start stop R))}"
    (is "_ \<union> covered ?T = {?m..<?n}")
proof -
  have fin: "finite ?T" using finite_subset [OF touching_subset apartD(1) [OF R]] .
  note h = hull_bounds [OF fin, where start = start and stop = stop]
  show ?thesis
  proof (intro equalityI subsetI)
    fix i assume "i \<in> {start..<stop} \<union> covered ?T"
    then show "i \<in> {?m..<?n}" using h(1,2) h(3,4) by (fastforce simp: covered_iff)
  next
    fix i assume i: "i \<in> {?m..<?n}"
    consider "i < start" | "start \<le> i" "i < stop" | "stop \<le> i" by linarith
    then show "i \<in> {start..<stop} \<union> covered ?T"
    proof cases
      case 1
      then obtain b where b: "(?m, b) \<in> ?T" using h(5) i by auto
      then have "start \<le> b" by (auto simp: touching_def)
      with b 1 i show ?thesis unfolding Un_iff covered_iff by (intro disjI2 exI [of _ ?m] exI [of _ b]) simp
    next
      case 3
      then obtain a where a: "(a, ?n) \<in> ?T" using h(6) i by auto
      then have "a \<le> stop" by (auto simp: touching_def)
      with a 3 i show ?thesis unfolding Un_iff covered_iff by (intro disjI2 exI [of _ a] exI [of _ ?n]) simp
    qed simp
  qed
qed

lemma covered_add_range:
  assumes "apart R" "start < stop"
  shows "covered (add_range start stop R) = covered R \<union> {start..<stop}"
proof -
  have "covered R = covered (touching start stop R) \<union> covered (R - touching start stop R)"
    using touching_subset [of start stop R] by (simp only: covered_simps(3) [symmetric]) (simp add: Un_absorb1)
  then show ?thesis using covered_touching [OF assms] by (auto simp: add_range_def)
qed

lemma hull_apart:
  assumes R: "apart R" and ne: "start < stop" and r: "(c, d) \<in> R - touching start stop R"
  shows "d < fst (hull start stop (touching start stop R)) \<or> snd (hull start stop (touching start stop R)) < c"
    (is "d < ?m \<or> ?n < c")
proof -
  have fin: "finite (touching start stop R)" using finite_subset [OF touching_subset apartD(1) [OF R]] .
  note h = hull_bounds [OF fin, where start = start and stop = stop]
  have cd: "c < d" using apartD(2) [OF R] r by auto
  have out: "d < start \<or> stop < c" using r by (auto simp: touching_def)
  have sep: "b < c \<or> d < a" if "(a, b) \<in> touching start stop R" for a b
    using apartD(3) [OF R, of a b c d] that r touching_subset by blast
  have rng: "a < b" "a \<le> stop" "start \<le> b" if "(a, b) \<in> touching start stop R" for a b
    using that apartD(2) [OF R, of a b] by (auto simp: touching_def)
  from out show ?thesis
  proof
    assume d: "d < start"
    from h(5) show ?thesis
    proof
      assume "\<exists>b. (?m, b) \<in> touching start stop R"
      then show ?thesis using sep rng d cd by fastforce
    qed (use d in simp)
  next
    assume c: "stop < c"
    from h(6) show ?thesis
    proof
      assume "\<exists>a. (a, ?n) \<in> touching start stop R"
      then show ?thesis using sep rng c cd by fastforce
    qed (use c in simp)
  qed
qed

lemma apart_add_range:
  assumes R: "apart R" and ne: "start < stop"
  shows "apart (add_range start stop R)"
proof -
  have fin: "finite (touching start stop R)" using finite_subset [OF touching_subset apartD(1) [OF R]] .
  let ?h = "hull start stop (touching start stop R)"
  have hh: "fst ?h < snd ?h" using hull_bounds(1,2) [OF fin, where start = start and stop = stop] ne by linarith
  have S: "apart (R - touching start stop R)" using apart_subset [OF R] by blast
  have out: "snd r < fst ?h \<or> snd ?h < fst r" if "r \<in> R - touching start stop R" for r
    using hull_apart [OF R ne, of "fst r" "snd r"] that by simp
  have "finite (add_range start stop R)" "\<forall>(a, b) \<in> add_range start stop R. a < b"
    using apartD(1) [OF R] hh apartD(2) [OF R] by (auto simp: add_range_def split_def)
  moreover have "snd r < fst q \<or> snd q < fst r"
    if rq: "r \<in> add_range start stop R" "q \<in> add_range start stop R" "r \<noteq> q" for r q
  proof -
    consider "r = ?h" "q \<in> R - touching start stop R" | "q = ?h" "r \<in> R - touching start stop R"
      | "r \<in> R - touching start stop R" "q \<in> R - touching start stop R"
      using rq unfolding add_range_def by blast
    then show ?thesis
    proof cases
      case 1
      then show ?thesis using out by blast
    next
      case 2
      then show ?thesis using out by blast
    next
      case 3
      then show ?thesis using S rq(3) unfolding apart_def by blast
    qed
  qed
  ultimately show ?thesis unfolding apart_def by blast
qed

text \<open>The count of covered positions follows the formula of the code.\<close>

lemma card_add_range:
  assumes R: "apart R" and ne: "start < stop"
  shows "int (card (covered (add_range start stop R))) = int (card (covered R)) +
    (snd (hull start stop (touching start stop R)) - fst (hull start stop (touching start stop R)) -
     (\<Sum>(a, b) \<in> touching start stop R. b - a))"
proof -
  let ?T = "touching start stop R" and ?h = "hull start stop (touching start stop R)"
  note new = apart_add_range [OF R ne]
  have fin: "finite R" "finite ?T" using apartD(1) [OF R] finite_subset [OF touching_subset] by blast+
  have "fst ?h < snd ?h" using hull_bounds(1,2) [OF fin(2), where start = start and stop = stop] ne by linarith
  then have "?h \<notin> R - ?T" using hull_apart [OF R ne, of "fst ?h" "snd ?h"] by auto
  then have "(\<Sum>(a, b) \<in> add_range start stop R. b - a) = snd ?h - fst ?h + (\<Sum>(a, b) \<in> R - ?T. b - a)"
    unfolding add_range_def using fin by (subst sum.insert) (auto simp: split_def)
  moreover have "(\<Sum>(a, b) \<in> R. b - a) = (\<Sum>(a, b) \<in> R - ?T. b - a) + (\<Sum>(a, b) \<in> ?T. b - a)"
    using fin(1) touching_subset [of start stop R] by (simp add: sum.subset_diff)
  ultimately show ?thesis by (simp add: card_covered [OF new] card_covered [OF R])
qed

text \<open>A short range touches few others.\<close>

lemma card_touching:
  assumes R: "apart R" and le: "start \<le> stop"
  shows "card (touching start stop R) \<le> nat (stop - start + 1)"
proof -
  have "inj_on (\<lambda>(a, b). max a start) (touching start stop R)"
  proof (rule inj_onI)
    fix r q assume rq: "r \<in> touching start stop R" "q \<in> touching start stop R"
      and eq: "(case r of (a, b) \<Rightarrow> max a start) = (case q of (a, b) \<Rightarrow> max a start)"
    obtain a b c d where r: "r = (a, b)" "q = (c, d)" by fastforce
    have "(a, b) \<in> R" "(c, d) \<in> R" "start \<le> b" "start \<le> d" "a < b" "c < d"
      using rq r apartD(2) [OF R] by (auto simp: touching_def)
    then show "r = q" using apartD(3) [OF R, of a b c d] eq r by (auto simp: max_def split: if_splits)
  qed
  moreover have "(\<lambda>(a, b). max a start) ` touching start stop R \<subseteq> {start..stop}"
    using le by (auto simp: touching_def)
  ultimately have "card (touching start stop R) \<le> card {start..stop}"
    by (intro card_inj_on_le) auto
  then show ?thesis by simp
qed

text \<open>A single range covers everything exactly when everything is covered.\<close>

lemma covered_whole:
  assumes R: "apart R" and n: "0 < n" and sub: "covered R = {0..<n}"
  shows "R = {(0, n)}"
proof -
  have bounds: "0 \<le> a \<and> b \<le> n" if "(a, b) \<in> R" for a b
  proof -
    have "a \<in> covered R" using that apartD(2) [OF R that] unfolding covered_iff by blast
    moreover have "b - 1 \<in> covered R" using that apartD(2) [OF R that] unfolding covered_iff by force
    ultimately show ?thesis unfolding sub by auto
  qed
  have "0 \<in> covered R" using n by (simp add: sub)
  then obtain a b where ab: "(a, b) \<in> R" "a \<le> 0" "0 < b" by (auto simp: covered_iff)
  then have a: "a = 0" using bounds by fastforce
  have "b = n"
  proof (rule ccontr)
    assume "b \<noteq> n"
    then have "b \<in> covered R" using bounds [OF ab(1)] ab(3) unfolding sub by auto
    then obtain c d where cd: "(c, d) \<in> R" "c \<le> b" "b < d" by (auto simp: covered_iff)
    then show False using apartD(3) [OF R ab(1) cd(1)] apartD(2) [OF R] ab a by fastforce
  qed
  moreover have "c = 0 \<and> d = n" if cd: "(c, d) \<in> R" for c d
  proof (rule ccontr)
    assume "\<not> (c = 0 \<and> d = n)"
    then have "(a, b) \<noteq> (c, d)" using a \<open>b = n\<close> by auto
    from apartD(3) [OF R ab(1) cd this] show False
      using bounds [OF cd] apartD(2) [OF R cd] a \<open>b = n\<close> by linarith
  qed
  ultimately show ?thesis using ab(1) a by auto
qed

end
