(* ===== verification/ReplayManager.thy ===== *)
theory ReplayManager
  imports Canonical "HOL-Library.Product_Lexorder"
begin

text \<open>
  \<^verbatim>\<open>link_sim/replay_manager.py\<close>: replay artifacts under a storage cap and a pin quota. SHA-256 is an
  argument, and so is the outcome of removing an artifact's directory.
\<close>

section \<open>State\<close>

datatype replay_state = PRESENT | PINNED | EVICTED

datatype artifact_status = AS_OPEN | AS_FINAL | INCOMPLETE_CRASH | INCOMPLETE_STORAGE

record replay_segment =
  sg_index :: int
  sg_size_bytes :: int
  sg_sha256 :: string
  sg_path :: string

record replay_artifact =
  ra_simulation_run_id :: int
  ra_status :: artifact_status
  ra_replay_state :: replay_state
  ra_segments :: "replay_segment list"
  ra_total_bytes :: int
  ra_artifact_sha256 :: "string option"
  ra_created_at_ns :: int
  ra_finalized_at_ns :: "int option"

record replay_manager =
  rm_global_cap_bytes :: int
  rm_pin_quota_bytes :: int
  rm_max_artifact_bytes :: int
  rm_retention_final_days :: int
  rm_retention_incomplete_days :: int
  rm_artifacts :: "(int, replay_artifact) dict"
  rm_used_bytes :: int
  rm_pinned_bytes :: int

definition rm_init :: "int \<Rightarrow> int \<Rightarrow> int \<Rightarrow> int \<Rightarrow> int \<Rightarrow> replay_manager" where
  "rm_init global_cap pin_quota max_artifact final_days incomplete_days =
     \<lparr> rm_global_cap_bytes = global_cap, rm_pin_quota_bytes = pin_quota, rm_max_artifact_bytes = max_artifact,
       rm_retention_final_days = final_days, rm_retention_incomplete_days = incomplete_days,
       rm_artifacts = [], rm_used_bytes = 0, rm_pinned_bytes = 0 \<rparr>"

section \<open>The tree hash\<close>

text \<open>\<^verbatim>\<open>bytes.fromhex\<close>: pairs of hexadecimal digits, with ASCII white space between them.\<close>

definition hex_digit_of :: "char \<Rightarrow> nat option" where
  "hex_digit_of ch = (let k = of_char ch :: nat in
     if 48 \<le> k \<and> k \<le> 57 then Some (k - 48)
     else if 97 \<le> k \<and> k \<le> 102 then Some (k - 87)
     else if 65 \<le> k \<and> k \<le> 70 then Some (k - 55) else None)"

definition is_ascii_space :: "char \<Rightarrow> bool" where
  "is_ascii_space ch \<longleftrightarrow> (let k = of_char ch :: nat in k = 32 \<or> 9 \<le> k \<and> k \<le> 13)"

fun fromhex :: "string \<Rightarrow> bytes res" where
  "fromhex [] = Inr []"
| "fromhex [x] = (if is_ascii_space x then Inr [] else Inl (ValueError ''non-hexadecimal number found in fromhex()''))"
| "fromhex (x # y # rest) =
     (if is_ascii_space x then fromhex (y # rest)
      else case (hex_digit_of x, hex_digit_of y) of
        (Some a, Some b) \<Rightarrow> rbind (fromhex rest) (\<lambda>bs. Inr (word_of_nat (16 * a + b) # bs))
      | _ \<Rightarrow> Inl (ValueError ''non-hexadecimal number found in fromhex()''))"

fun tree_input :: "replay_segment list \<Rightarrow> bytes res" where
  "tree_input [] = Inr []"
| "tree_input (s # ss) =
     (if 0 \<le> sg_size_bytes s \<and> sg_size_bytes s < 256 ^ 8
      then rbind (fromhex (sg_sha256 s)) (\<lambda>digest. rbind (tree_input ss) (\<lambda>rest.
        Inr (be_bytes 8 (nat (sg_size_bytes s)) @ digest @ rest)))
      else Inl (OverflowError ''int too big to convert''))"

definition compute_tree_hash :: "(bytes \<Rightarrow> string) \<Rightarrow> replay_artifact \<Rightarrow> string res" where
  "compute_tree_hash sha256 a =
     rbind (tree_input (sort_key sg_index (ra_segments a))) (\<lambda>input.
     Inr (sha256 (map (\<lambda>ch. of_char ch) ''link-replay-v1'' @ [0] @ input)))"

section \<open>Reserving and finalizing\<close>

definition rm_reserve_artifact :: "int \<Rightarrow> int \<Rightarrow> replay_manager \<Rightarrow> replay_manager \<times> bool" where
  "rm_reserve_artifact run_id current_time_ns m =
     (if rm_used_bytes m + rm_max_artifact_bytes m > rm_global_cap_bytes m then (m, False)
      else (m\<lparr> rm_artifacts := dput run_id
              \<lparr> ra_simulation_run_id = run_id, ra_status = AS_OPEN, ra_replay_state = PRESENT,
                ra_segments = [], ra_total_bytes = 0, ra_artifact_sha256 = None,
                ra_created_at_ns = current_time_ns, ra_finalized_at_ns = None \<rparr> (rm_artifacts m),
            rm_used_bytes := rm_used_bytes m + rm_max_artifact_bytes m \<rparr>, True))"

text \<open>The fields are set before the hash is computed, and stay set when it raises.\<close>

definition rm_finalize_artifact ::
  "(bytes \<Rightarrow> string) \<Rightarrow> int \<Rightarrow> artifact_status \<Rightarrow> replay_segment list \<Rightarrow> int \<Rightarrow> replay_manager
   \<Rightarrow> replay_manager \<times> unit res" where
  "rm_finalize_artifact sha256 run_id status segments current_time_ns m =
     (case map_of (rm_artifacts m) run_id of
        None \<Rightarrow> (m, Inl (ValueError ''Unknown artifact''))
      | Some a \<Rightarrow>
      if ra_status a \<noteq> AS_OPEN then (m, Inl (ValueError ''Artifact not OPEN''))
      else
        let a = a\<lparr> ra_status := status, ra_segments := segments,
                   ra_total_bytes := sum_list (map sg_size_bytes segments),
                   ra_finalized_at_ns := Some current_time_ns \<rparr>
        in case (if status = AS_FINAL
                 then rbind (compute_tree_hash sha256 a) (\<lambda>h. Inr (a\<lparr> ra_artifact_sha256 := Some h \<rparr>))
                 else Inr a) of
             Inl e \<Rightarrow> (m\<lparr> rm_artifacts := dput run_id a (rm_artifacts m) \<rparr>, Inl e)
           | Inr a \<Rightarrow>
               let reserved = rm_max_artifact_bytes m; actual = ra_total_bytes a
               in (m\<lparr> rm_artifacts := dput run_id a (rm_artifacts m),
                     rm_used_bytes := (if actual < reserved then rm_used_bytes m - (reserved - actual)
                                       else rm_used_bytes m) \<rparr>, Inr ()))"

section \<open>Pinning\<close>

definition rm_pin_artifact :: "int \<Rightarrow> replay_manager \<Rightarrow> replay_manager \<times> bool res" where
  "rm_pin_artifact run_id m =
     (case map_of (rm_artifacts m) run_id of
        None \<Rightarrow> (m, Inl (ValueError ''Unknown artifact''))
      | Some a \<Rightarrow>
      if ra_replay_state a = PINNED then (m, Inr True)
      else if ra_replay_state a = EVICTED then (m, Inl (ValueError ''Cannot pin evicted artifact''))
      else if rm_pinned_bytes m + ra_total_bytes a > rm_pin_quota_bytes m then (m, Inr False)
      else (m\<lparr> rm_artifacts := dput run_id (a\<lparr> ra_replay_state := PINNED \<rparr>) (rm_artifacts m),
               rm_pinned_bytes := rm_pinned_bytes m + ra_total_bytes a \<rparr>, Inr True))"

definition rm_unpin_artifact :: "int \<Rightarrow> replay_manager \<Rightarrow> replay_manager \<times> unit res" where
  "rm_unpin_artifact run_id m =
     (case map_of (rm_artifacts m) run_id of
        None \<Rightarrow> (m, Inl (ValueError ''Unknown artifact''))
      | Some a \<Rightarrow>
      if ra_replay_state a \<noteq> PINNED then (m, Inr ())
      else (m\<lparr> rm_artifacts := dput run_id (a\<lparr> ra_replay_state := PRESENT \<rparr>) (rm_artifacts m),
               rm_pinned_bytes := rm_pinned_bytes m - ra_total_bytes a \<rparr>, Inr ()))"

section \<open>Eviction\<close>

definition rm_evict_artifact :: "(int \<Rightarrow> unit res) \<Rightarrow> int \<Rightarrow> replay_manager \<Rightarrow> replay_manager \<times> bool res" where
  "rm_evict_artifact remove run_id m =
     (case map_of (rm_artifacts m) run_id of
        None \<Rightarrow> (m, Inr False)
      | Some a \<Rightarrow>
      if ra_replay_state a \<noteq> PRESENT then (m, Inr False)
      else case remove run_id of
        Inl e \<Rightarrow> (m, Inl e)
      | Inr _ \<Rightarrow>
          (m\<lparr> rm_artifacts := dput run_id (a\<lparr> ra_replay_state := EVICTED \<rparr>) (rm_artifacts m),
              rm_used_bytes := rm_used_bytes m - ra_total_bytes a \<rparr>, Inr True))"

definition rm_evict_oldest_unpinned :: "(int \<Rightarrow> unit res) \<Rightarrow> replay_manager \<Rightarrow> replay_manager \<times> int option res" where
  "rm_evict_oldest_unpinned remove m =
     (case sort_key (\<lambda>(_, a). ra_created_at_ns a)
             (filter (\<lambda>(_, a). ra_replay_state a = PRESENT) (rm_artifacts m)) of
        [] \<Rightarrow> (m, Inr None)
      | (run_id, _) # _ \<Rightarrow>
          (case rm_evict_artifact remove run_id m of
             (m, Inl e) \<Rightarrow> (m, Inl e)
           | (m, Inr evicted) \<Rightarrow> (m, Inr (if evicted then Some run_id else None))))"

definition age_start :: "replay_artifact \<Rightarrow> int" where
  "age_start a = (case ra_finalized_at_ns a of None \<Rightarrow> ra_created_at_ns a | Some t \<Rightarrow> t)"

definition is_expired :: "int \<Rightarrow> int \<Rightarrow> int \<Rightarrow> replay_artifact \<Rightarrow> bool" where
  "is_expired final_days incomplete_days current_time_ns a \<longleftrightarrow>
     ra_replay_state a = PRESENT \<and>
     age_start a + (if ra_status a = AS_FINAL then final_days else incomplete_days) * 86400000000000 \<le> current_time_ns"

fun evict_each :: "(int \<Rightarrow> unit res) \<Rightarrow> int list \<Rightarrow> replay_manager \<Rightarrow> replay_manager \<times> int list res" where
  "evict_each remove [] m = (m, Inr [])"
| "evict_each remove (run_id # rest) m =
     (case rm_evict_artifact remove run_id m of
        (m, Inl e) \<Rightarrow> (m, Inl e)
      | (m, Inr evicted) \<Rightarrow>
          (case evict_each remove rest m of
             (m, Inl e) \<Rightarrow> (m, Inl e)
           | (m, Inr ids) \<Rightarrow> (m, Inr (if evicted then run_id # ids else ids))))"

definition rm_evict_expired ::
  "(int \<Rightarrow> unit res) \<Rightarrow> int \<Rightarrow> int option \<Rightarrow> int option \<Rightarrow> replay_manager \<Rightarrow> replay_manager \<times> int list res" where
  "rm_evict_expired remove current_time_ns final_retention incomplete_retention m =
     (let final_days = (case final_retention of None \<Rightarrow> rm_retention_final_days m | Some d \<Rightarrow> d);
          incomplete_days = (case incomplete_retention of None \<Rightarrow> rm_retention_incomplete_days m | Some d \<Rightarrow> d)
      in if min final_days incomplete_days \<le> 0
         then (m, Inl (ValueError ''replay retention days must be positive''))
         else
           let candidates = map (\<lambda>(run_id, a). (age_start a, run_id))
                 (filter (\<lambda>(_, a). is_expired final_days incomplete_days current_time_ns a) (rm_artifacts m))
           in evict_each remove (map snd (sort candidates)) m)"

section \<open>Statistics\<close>

definition rm_get_artifact :: "int \<Rightarrow> replay_manager \<Rightarrow> replay_artifact option" where
  "rm_get_artifact run_id m = map_of (rm_artifacts m) run_id"

record replay_stats =
  rs_global_cap_bytes :: int
  rs_used_bytes :: int
  rs_available_bytes :: int
  rs_pinned_bytes :: int
  rs_pin_quota_bytes :: int
  rs_pin_available_bytes :: int
  rs_artifact_count :: nat
  rs_present_count :: nat
  rs_pinned_count :: nat
  rs_evicted_count :: nat

definition rm_count :: "replay_state \<Rightarrow> replay_manager \<Rightarrow> nat" where
  "rm_count st m = length (filter (\<lambda>a. ra_replay_state a = st) (dvalues (rm_artifacts m)))"

definition rm_get_stats :: "replay_manager \<Rightarrow> replay_stats" where
  "rm_get_stats m =
     \<lparr> rs_global_cap_bytes = rm_global_cap_bytes m, rs_used_bytes = rm_used_bytes m,
       rs_available_bytes = rm_global_cap_bytes m - rm_used_bytes m,
       rs_pinned_bytes = rm_pinned_bytes m, rs_pin_quota_bytes = rm_pin_quota_bytes m,
       rs_pin_available_bytes = rm_pin_quota_bytes m - rm_pinned_bytes m,
       rs_artifact_count = length (rm_artifacts m), rs_present_count = rm_count PRESENT m,
       rs_pinned_count = rm_count PINNED m, rs_evicted_count = rm_count EVICTED m \<rparr>"

section \<open>Accounting\<close>

definition dsum :: "('v \<Rightarrow> int) \<Rightarrow> ('k, 'v) dict \<Rightarrow> int" where
  "dsum f d = sum_list (map f (dvalues d))"

lemma dsum_simps [simp]: "dsum f [] = 0" "dsum f (e # d) = f (snd e) + dsum f d"
  by (simp_all add: dsum_def)

lemma dsum_append [simp]: "dsum f (xs @ ys) = dsum f xs + dsum f ys"
  by (simp add: dsum_def)

lemma dsum_dput:
  "distinct (dkeys d) \<Longrightarrow> dsum f (dput k v d) = dsum f d - (case map_of d k of None \<Rightarrow> 0 | Some w \<Rightarrow> f w) + f v"
proof (induction d)
  case (Cons e d)
  obtain k' w where e: "e = (k', w)" by (cases e)
  show ?case
  proof (cases "k' = k")
    case True
    then have "map_of d k = None" using Cons.prems by (simp add: e map_of_eq_None_iff)
    then show ?thesis using True by (simp add: e)
  next
    case False
    with Cons show ?thesis by (simp add: e)
  qed
qed simp

text \<open>What an artifact takes of the cap: its reservation until it is finalized, then its size.\<close>

definition charge :: "int \<Rightarrow> replay_artifact \<Rightarrow> int" where
  "charge max_artifact a =
     (if ra_replay_state a = EVICTED then 0 else if ra_status a = AS_OPEN then max_artifact else ra_total_bytes a)"

definition pinned :: "replay_artifact \<Rightarrow> int" where
  "pinned a = (if ra_replay_state a = PINNED then ra_total_bytes a else 0)"

definition artifact_ok :: "int \<Rightarrow> replay_artifact \<Rightarrow> bool" where
  "artifact_ok max_artifact a \<longleftrightarrow> 0 \<le> ra_total_bytes a \<and> ra_total_bytes a \<le> max_artifact \<and>
     (ra_status a = AS_OPEN \<longrightarrow> ra_replay_state a = PRESENT \<and> ra_total_bytes a = 0)"

definition rm_inv :: "replay_manager \<Rightarrow> bool" where
  "rm_inv m \<longleftrightarrow> 0 \<le> rm_max_artifact_bytes m \<and> distinct (dkeys (rm_artifacts m)) \<and>
     rm_used_bytes m = dsum (charge (rm_max_artifact_bytes m)) (rm_artifacts m) \<and>
     rm_pinned_bytes m = dsum pinned (rm_artifacts m) \<and>
     (\<forall>a \<in> set (dvalues (rm_artifacts m)). artifact_ok (rm_max_artifact_bytes m) a) \<and>
     rm_used_bytes m \<le> rm_global_cap_bytes m \<and> rm_pinned_bytes m \<le> rm_pin_quota_bytes m"

datatype replay_op =
    RmReserve int int
  | RmFinalize int artifact_status "replay_segment list" int
  | RmPin int
  | RmUnpin int
  | RmEvict "int \<Rightarrow> unit res" int
  | RmEvictOldest "int \<Rightarrow> unit res"
  | RmEvictExpired "int \<Rightarrow> unit res" int "int option" "int option"

fun rm_step :: "(bytes \<Rightarrow> string) \<Rightarrow> replay_manager \<Rightarrow> replay_op \<Rightarrow> replay_manager" where
  "rm_step sha256 m (RmReserve run_id now) = fst (rm_reserve_artifact run_id now m)"
| "rm_step sha256 m (RmFinalize run_id status segments now) = fst (rm_finalize_artifact sha256 run_id status segments now m)"
| "rm_step sha256 m (RmPin run_id) = fst (rm_pin_artifact run_id m)"
| "rm_step sha256 m (RmUnpin run_id) = fst (rm_unpin_artifact run_id m)"
| "rm_step sha256 m (RmEvict remove run_id) = fst (rm_evict_artifact remove run_id m)"
| "rm_step sha256 m (RmEvictOldest remove) = fst (rm_evict_oldest_unpinned remove m)"
| "rm_step sha256 m (RmEvictExpired remove now f i) = fst (rm_evict_expired remove now f i m)"

text \<open>
  The order a caller has to keep: a run id is reserved once, a run is finalized with at most the
  bytes it reserved, and nothing is pinned or evicted while it is OPEN.
\<close>

definition is_open :: "replay_manager \<Rightarrow> int \<Rightarrow> bool" where
  "is_open m run_id \<longleftrightarrow> (case map_of (rm_artifacts m) run_id of None \<Rightarrow> False | Some a \<Rightarrow> ra_status a = AS_OPEN)"

definition none_open :: "replay_manager \<Rightarrow> bool" where
  "none_open m \<longleftrightarrow> list_all (\<lambda>a. ra_status a \<noteq> AS_OPEN) (dvalues (rm_artifacts m))"

fun disciplined :: "(bytes \<Rightarrow> string) \<Rightarrow> replay_manager \<Rightarrow> replay_op \<Rightarrow> bool" where
  "disciplined sha256 m (RmReserve run_id now) \<longleftrightarrow> map_of (rm_artifacts m) run_id = None"
| "disciplined sha256 m (RmFinalize run_id status segments now) \<longleftrightarrow> status \<noteq> AS_OPEN \<and>
     list_all (\<lambda>s. 0 \<le> sg_size_bytes s) segments \<and> sum_list (map sg_size_bytes segments) \<le> rm_max_artifact_bytes m \<and>
     is_ok (snd (rm_finalize_artifact sha256 run_id status segments now m))"
| "disciplined sha256 m (RmPin run_id) \<longleftrightarrow> \<not> is_open m run_id"
| "disciplined sha256 m (RmUnpin run_id) \<longleftrightarrow> True"
| "disciplined sha256 m (RmEvict remove run_id) \<longleftrightarrow> \<not> is_open m run_id"
| "disciplined sha256 m (RmEvictOldest remove) \<longleftrightarrow> none_open m"
| "disciplined sha256 m (RmEvictExpired remove now f i) \<longleftrightarrow> none_open m"

fun disciplined_run :: "(bytes \<Rightarrow> string) \<Rightarrow> replay_manager \<Rightarrow> replay_op list \<Rightarrow> bool" where
  "disciplined_run sha256 m [] \<longleftrightarrow> True"
| "disciplined_run sha256 m (op # ops) \<longleftrightarrow> disciplined sha256 m op \<and> disciplined_run sha256 (rm_step sha256 m op) ops"

lemma dvalues_dput: "set (dvalues (dput k v d)) \<subseteq> insert v (set (dvalues d))"
  by (induction d) auto

text \<open>An update of one artifact that keeps its books keeps the invariant.\<close>

definition limits :: "replay_manager \<Rightarrow> int \<times> int \<times> int" where
  "limits m = (rm_global_cap_bytes m, rm_pin_quota_bytes m, rm_max_artifact_bytes m)"

lemma rm_inv_put:
  assumes "rm_inv m" and "artifact_ok (rm_max_artifact_bytes m) b" and "limits m' = limits m"
    and "rm_artifacts m' = dput k b (rm_artifacts m)"
    and "rm_used_bytes m' = rm_used_bytes m -
      (case map_of (rm_artifacts m) k of None \<Rightarrow> 0 | Some a \<Rightarrow> charge (rm_max_artifact_bytes m) a) +
      charge (rm_max_artifact_bytes m) b" "rm_used_bytes m' \<le> rm_global_cap_bytes m"
    and "rm_pinned_bytes m' = rm_pinned_bytes m -
      (case map_of (rm_artifacts m) k of None \<Rightarrow> 0 | Some a \<Rightarrow> pinned a) + pinned b"
      "rm_pinned_bytes m' \<le> rm_pin_quota_bytes m"
  shows "rm_inv m'"
proof -
  have d: "distinct (dkeys (rm_artifacts m))" using assms(1) by (simp add: rm_inv_def)
  have "\<forall>a \<in> set (dvalues (dput k b (rm_artifacts m))). artifact_ok (rm_max_artifact_bytes m) a"
    using dvalues_dput [of k b "rm_artifacts m"] assms(1,2) unfolding rm_inv_def by blast
  with assms d show ?thesis unfolding rm_inv_def limits_def by (simp add: dsum_dput)
qed

lemma rm_inv_artifact: "rm_inv m \<Longrightarrow> map_of (rm_artifacts m) k = Some a \<Longrightarrow> artifact_ok (rm_max_artifact_bytes m) a"
  unfolding rm_inv_def by (blast intro: dvalues_iff [THEN iffD2])

lemma dsum_nonneg_member:
  "(\<And>v. v \<in> set (dvalues d) \<Longrightarrow> 0 \<le> f v) \<Longrightarrow> 0 \<le> dsum f d"
  by (induction d) auto

lemma rm_reserve_inv:
  assumes "rm_inv m" "map_of (rm_artifacts m) run_id = None"
  shows "rm_inv (fst (rm_reserve_artifact run_id now m))"
proof (cases "rm_used_bytes m + rm_max_artifact_bytes m > rm_global_cap_bytes m")
  case True
  with assms show ?thesis by (simp add: rm_reserve_artifact_def)
next
  case False
  have "0 \<le> rm_max_artifact_bytes m" "rm_pinned_bytes m \<le> rm_pin_quota_bytes m" using assms(1) by (simp_all add: rm_inv_def)
  with False assms show ?thesis
    by (intro rm_inv_put [OF assms(1), where k = run_id])
      (auto simp: rm_reserve_artifact_def artifact_ok_def limits_def charge_def pinned_def)
qed

lemma rm_finalize_inv:
  assumes "rm_inv m" "disciplined sha256 m (RmFinalize run_id status segments now)"
  shows "rm_inv (fst (rm_finalize_artifact sha256 run_id status segments now m))"
proof (cases "map_of (rm_artifacts m) run_id")
  case None
  with assms show ?thesis by (simp add: rm_finalize_artifact_def)
next
  case (Some a)
  let ?r = "rm_finalize_artifact sha256 run_id status segments now m"
  let ?total = "sum_list (map sg_size_bytes segments)"
  have t: "0 \<le> ?total" "?total \<le> rm_max_artifact_bytes m" "status \<noteq> AS_OPEN"
    using assms(2) by (auto simp: list_all_iff intro!: sum_list_nonneg)
  have u: "rm_used_bytes m \<le> rm_global_cap_bytes m" "rm_pinned_bytes m \<le> rm_pin_quota_bytes m"
    using assms(1) by (simp_all add: rm_inv_def)
  obtain r where ok: "snd ?r = Inr r" using assms(2) by (cases "snd ?r") simp_all
  then have op: "ra_status a = AS_OPEN" using Some by (auto simp: rm_finalize_artifact_def split: if_split_asm)
  have a: "ra_replay_state a = PRESENT" "ra_total_bytes a = 0"
    using rm_inv_artifact [OF assms(1) Some] op by (auto simp: artifact_ok_def)
  obtain b where b: "rm_artifacts (fst ?r) = dput run_id b (rm_artifacts m)" "ra_status b = status"
    "ra_total_bytes b = ?total" "ra_replay_state b = PRESENT" "limits (fst ?r) = limits m"
    "rm_used_bytes (fst ?r) = (if ?total < rm_max_artifact_bytes m
       then rm_used_bytes m - (rm_max_artifact_bytes m - ?total) else rm_used_bytes m)"
    "rm_pinned_bytes (fst ?r) = rm_pinned_bytes m"
    using ok Some op a
    by (cases "status = AS_FINAL")
      (auto simp: rm_finalize_artifact_def Let_def limits_def rbind_def split: sum.splits)
  have "rm_used_bytes (fst ?r) = rm_used_bytes m - rm_max_artifact_bytes m + ?total" using b(6) t(2) by simp
  with t u a b op Some show ?thesis
    by (intro rm_inv_put [OF assms(1), where k = run_id and b = b]) (auto simp: artifact_ok_def charge_def pinned_def)
qed

lemma not_open: "\<not> is_open m k \<Longrightarrow> map_of (rm_artifacts m) k = Some a \<Longrightarrow> ra_status a \<noteq> AS_OPEN"
  by (simp add: is_open_def)

lemma dvalues_member: "map_of d k = Some v \<Longrightarrow> v \<in> set (dvalues d)"
  by (force dest: map_of_SomeD)

lemma none_open_not_open: "none_open m \<Longrightarrow> \<not> is_open m k"
  unfolding none_open_def is_open_def list_all_iff
  by (auto simp del: set_map split: option.split dest: dvalues_member)

lemma rm_pin_inv:
  assumes "rm_inv m" "\<not> is_open m run_id"
  shows "rm_inv (fst (rm_pin_artifact run_id m))"
proof (cases "map_of (rm_artifacts m) run_id")
  case None
  with assms show ?thesis by (simp add: rm_pin_artifact_def)
next
  case (Some a)
  note a = rm_inv_artifact [OF assms(1) Some] not_open [OF assms(2) Some]
  have u: "rm_used_bytes m \<le> rm_global_cap_bytes m" using assms(1) by (simp add: rm_inv_def)
  show ?thesis
  proof (cases "ra_replay_state a = PRESENT \<and> rm_pinned_bytes m + ra_total_bytes a \<le> rm_pin_quota_bytes m")
    case True
    with Some a u show ?thesis
      by (intro rm_inv_put [OF assms(1), where k = run_id and b = "a\<lparr> ra_replay_state := PINNED \<rparr>"])
        (simp_all add: rm_pin_artifact_def limits_def artifact_ok_def charge_def pinned_def)
  next
    case False
    with Some assms show ?thesis by (cases "ra_replay_state a") (auto simp: rm_pin_artifact_def)
  qed
qed

lemma rm_unpin_inv:
  assumes "rm_inv m"
  shows "rm_inv (fst (rm_unpin_artifact run_id m))"
proof (cases "\<exists>a. map_of (rm_artifacts m) run_id = Some a \<and> ra_replay_state a = PINNED")
  case False
  with assms show ?thesis by (auto simp: rm_unpin_artifact_def split: option.split)
next
  case True
  then obtain a where a: "map_of (rm_artifacts m) run_id = Some a" "ra_replay_state a = PINNED" by blast
  note ok = rm_inv_artifact [OF assms a(1)]
  have u: "rm_used_bytes m \<le> rm_global_cap_bytes m" "rm_pinned_bytes m \<le> rm_pin_quota_bytes m"
    using assms by (simp_all add: rm_inv_def)
  from a ok u show ?thesis
    by (intro rm_inv_put [OF assms, where k = run_id and b = "a\<lparr> ra_replay_state := PRESENT \<rparr>"])
      (auto simp: rm_unpin_artifact_def limits_def artifact_ok_def charge_def pinned_def)
qed

lemma rm_evict_frame: "limits (fst (rm_evict_artifact remove run_id m)) = limits m"
  by (auto simp: rm_evict_artifact_def limits_def split: option.split sum.split)

lemma rm_evict_inv:
  assumes "rm_inv m" "\<not> is_open m run_id"
  shows "rm_inv (fst (rm_evict_artifact remove run_id m))"
proof (cases "\<exists>a. map_of (rm_artifacts m) run_id = Some a \<and> ra_replay_state a = PRESENT \<and> is_ok (remove run_id)")
  case False
  with assms show ?thesis by (auto simp: rm_evict_artifact_def split: option.split sum.split)
next
  case True
  then obtain a where a: "map_of (rm_artifacts m) run_id = Some a" "ra_replay_state a = PRESENT"
    and r: "remove run_id = Inr ()" by (cases "remove run_id") auto
  note ok = rm_inv_artifact [OF assms(1) a(1)] not_open [OF assms(2) a(1)]
  have u: "rm_used_bytes m \<le> rm_global_cap_bytes m" "rm_pinned_bytes m \<le> rm_pin_quota_bytes m"
    using assms by (simp_all add: rm_inv_def)
  from a ok u r show ?thesis
    by (intro rm_inv_put [OF assms(1), where k = run_id and b = "a\<lparr> ra_replay_state := EVICTED \<rparr>"])
      (auto simp: rm_evict_artifact_def limits_def artifact_ok_def charge_def pinned_def)
qed

lemma rm_evict_open: "none_open m \<Longrightarrow> none_open (fst (rm_evict_artifact remove run_id m))"
proof -
  assume m: "none_open m"
  have "ra_status b \<noteq> AS_OPEN" if "b \<in> set (dvalues (rm_artifacts (fst (rm_evict_artifact remove run_id m))))" for b
  proof (cases "map_of (rm_artifacts m) run_id")
    case None
    then show ?thesis using that m by (auto simp: rm_evict_artifact_def none_open_def list_all_iff)
  next
    case (Some a)
    have "ra_status a \<noteq> AS_OPEN" using not_open [OF none_open_not_open [OF m] Some] .
    moreover have "b = a\<lparr> ra_replay_state := EVICTED \<rparr> \<or> b \<in> set (dvalues (rm_artifacts m))"
      using that Some dvalues_dput [of run_id "a\<lparr> ra_replay_state := EVICTED \<rparr>" "rm_artifacts m"]
      unfolding rm_evict_artifact_def by (auto simp del: set_map split: if_split_asm sum.split_asm)
    ultimately show ?thesis using m by (auto simp: none_open_def list_all_iff)
  qed
  then show ?thesis by (simp only: none_open_def list_all_iff) blast
qed

lemma evict_each_inv:
  "none_open m \<Longrightarrow> rm_inv m \<Longrightarrow> rm_inv (fst (evict_each remove ids m))"
proof (induction ids arbitrary: m)
  case (Cons i ids)
  have "rm_inv (fst (rm_evict_artifact remove i m))" "none_open (fst (rm_evict_artifact remove i m))"
    using Cons.prems by (simp_all add: rm_evict_inv rm_evict_open none_open_not_open)
  with Cons.IH show ?case by (auto split: prod.split sum.split) (metis fst_conv)+
qed simp

lemma rm_step_inv: "rm_inv m \<Longrightarrow> disciplined sha256 m op \<Longrightarrow> rm_inv (rm_step sha256 m op)"
proof (cases op)
  case (RmEvictOldest remove)
  assume m: "rm_inv m" "disciplined sha256 m op"
  with RmEvictOldest have "rm_inv (fst (rm_evict_artifact remove k m))" for k
    by (simp add: rm_evict_inv none_open_not_open)
  with m(1) RmEvictOldest show ?thesis
    by (auto simp: rm_evict_oldest_unpinned_def split: list.split prod.split sum.split) (metis fst_conv)+
next
  case (RmEvictExpired remove now f i)
  assume "rm_inv m" "disciplined sha256 m op"
  with RmEvictExpired show ?thesis by (simp add: rm_evict_expired_def Let_def evict_each_inv)
qed (simp_all add: rm_reserve_inv rm_finalize_inv rm_pin_inv rm_unpin_inv rm_evict_inv del: disciplined.simps(2))

lemma rm_run_inv: "rm_inv m \<Longrightarrow> disciplined_run sha256 m ops \<Longrightarrow> rm_inv (run_ops (rm_step sha256) m ops)"
  by (induction ops arbitrary: m) (simp_all add: rm_step_inv)

lemma evict_each_limits: "limits (fst (evict_each remove ids m)) = limits m"
proof (induction ids arbitrary: m)
  case (Cons i ids)
  show ?case
    using Cons.IH [of "fst (rm_evict_artifact remove i m)"] rm_evict_frame [of remove i m]
    by (auto split: prod.split sum.split)
qed simp

lemma rm_step_limits: "limits (rm_step sha256 m op) = limits m"
proof (cases op)
  case (RmEvictOldest remove)
  have "limits (fst (rm_evict_oldest_unpinned remove m)) = limits m"
    using rm_evict_frame [of remove _ m]
    by (auto simp: rm_evict_oldest_unpinned_def split: list.split prod.split sum.split) (metis fst_conv)+
  with RmEvictOldest show ?thesis by simp
next
  case (RmFinalize run_id status segments now)
  then show ?thesis
    by (auto simp: rm_finalize_artifact_def limits_def Let_def split: option.split sum.split)
next
  case (RmEvictExpired remove now f i)
  then show ?thesis by (simp add: rm_evict_expired_def Let_def evict_each_limits)
next
  case (RmEvict remove run_id)
  then show ?thesis by (simp add: rm_evict_frame)
qed (auto simp: rm_reserve_artifact_def rm_pin_artifact_def rm_unpin_artifact_def limits_def split: option.split)

lemma rm_run_limits: "limits (run_ops (rm_step sha256) m ops) = limits m"
  by (induction ops arbitrary: m) (simp_all add: rm_step_limits)

section \<open>Properties\<close>


definition demo_segment :: replay_segment where
  "demo_segment = \<lparr> sg_index = 0, sg_size_bytes = 3, sg_sha256 = ''0a'', sg_path = ''s0'' \<rparr>"


text \<open>
  C17: Pinning or evicting a run that is still OPEN breaks the accounts. Such a pin counts
  nothing against the quota, whatever the run grows to, and unpinning it later makes
  \<^verbatim>\<open>pinned_bytes\<close> smaller by its size than before, so that the quota admits that much more; and
  a run evicted while OPEN keeps its size in \<^verbatim>\<open>used_bytes\<close> for good once it is finalized, with no
  artifact left to evict.
\<close>

theorem replay_open_misuse:
  assumes "rm_reserve_artifact run_id t m = (m1, True)" and "rm_pinned_bytes m \<le> rm_pin_quota_bytes m"
    and "remove run_id = Inr ()" and "sum_list (map sg_size_bytes segments) = total_bytes"
    and "total_bytes \<le> rm_max_artifact_bytes m"
  shows "let (m2, p) = rm_pin_artifact run_id m1;
      m3 = fst (rm_finalize_artifact sha256 run_id INCOMPLETE_CRASH segments now m2);
      (d2, e) = rm_evict_artifact remove run_id m1;
      d3 = fst (rm_finalize_artifact sha256 run_id INCOMPLETE_CRASH segments now d2) in
    p = Inr True \<and> map_option ra_replay_state (map_of (rm_artifacts m3) run_id) = Some PINNED \<and>
    map_option ra_total_bytes (map_of (rm_artifacts m3) run_id) = Some total_bytes \<and>
    rm_pinned_bytes m3 = rm_pinned_bytes m \<and>
    rm_pinned_bytes (fst (rm_unpin_artifact run_id m3)) = rm_pinned_bytes m - total_bytes \<and>
    e = Inr True \<and> map_option ra_replay_state (map_of (rm_artifacts d3) run_id) = Some EVICTED \<and>
    rm_used_bytes d3 = rm_used_bytes m + total_bytes"
  using assms
  by (auto simp: rm_reserve_artifact_def rm_pin_artifact_def rm_evict_artifact_def rm_finalize_artifact_def
    rm_unpin_artifact_def Let_def split: if_split_asm)

lemma replay_open_misuse_witness:
  "\<exists>m1. rm_reserve_artifact 1 0 (rm_init 10 5 4 30 7) = (m1, True) \<and>
     (let m3 = fst (rm_finalize_artifact (\<lambda>_. ''00'') 1 INCOMPLETE_CRASH [demo_segment] 5 (fst (rm_pin_artifact 1 m1)))
      in rm_pinned_bytes m3 = 0 \<and> rm_pinned_bytes (fst (rm_unpin_artifact 1 m3)) = -3)"
proof -
  obtain m1 where r: "rm_reserve_artifact 1 0 (rm_init 10 5 4 30 7) = (m1, True)"
    by (simp add: rm_reserve_artifact_def rm_init_def)
  have "sum_list (map sg_size_bytes [demo_segment]) = 3" by (simp add: demo_segment_def)
  from replay_open_misuse [OF r, of "\<lambda>_. Inr ()", OF _ refl this, of "\<lambda>_. ''00''" 5] r show ?thesis
    by (auto simp: rm_init_def split_beta Let_def)
qed

end
