(* ===== verification/WorkerSupervision.thy ===== *)
theory WorkerSupervision
  imports Interfaces
begin

text \<open>
  \<^verbatim>\<open>flight/worker_supervisor.py\<close> with \<^verbatim>\<open>WorkerHeartbeat\<close> of \<^verbatim>\<open>sat_ai/worker_contract.py\<close>: the
  bounded restart policy. The clock is an argument of the operations that read it, and
  \<^verbatim>\<open>start_worker\<close> may raise, so its result is an argument too; \<^verbatim>\<open>stop_worker\<close> is called for its
  effect on the process, which is outside the model, and returns.
\<close>

record restart_policy =
  rp_max_restarts :: int
  rp_backoff_ms :: int
  rp_heartbeat_timeout_ms :: int

record worker_heartbeat =
  wh_worker_version :: string
  wh_last_seen_ns :: int
  wh_state :: string
  wh_sequence :: "int option"

record heartbeat_message =
  hm_worker_version :: string
  hm_sequence :: int
  hm_worker_state :: string

definition wh_touch :: "int \<Rightarrow> heartbeat_message option \<Rightarrow> worker_heartbeat \<Rightarrow> worker_heartbeat res" where
  "wh_touch now_ns message h =
     (case message of
        None \<Rightarrow> Inr (h\<lparr> wh_last_seen_ns := now_ns \<rparr>)
      | Some msg \<Rightarrow>
          if hm_worker_version msg \<noteq> wh_worker_version h
          then Inl (ValueError ''worker heartbeat version mismatch'')
          else if (case wh_sequence h of None \<Rightarrow> False | Some n \<Rightarrow> hm_sequence msg \<le> n)
          then Inl (ValueError ''worker heartbeat sequence did not advance'')
          else Inr (h\<lparr> wh_sequence := Some (hm_sequence msg), wh_state := hm_worker_state msg,
                 wh_last_seen_ns := now_ns \<rparr>))"

definition wh_is_alive :: "int \<Rightarrow> int \<Rightarrow> worker_heartbeat \<Rightarrow> bool res" where
  "wh_is_alive now_ns timeout_ms h =
     (if timeout_ms \<le> 0 then Inl (ValueError ''heartbeat timeout must be positive'')
      else Inr (wh_last_seen_ns h > 0 \<and> now_ns - wh_last_seen_ns h \<le> timeout_ms * 1000000))"

record 'w supervisor =
  sv_policy :: restart_policy
  sv_worker :: "'w option"
  sv_restart_count :: int
  sv_heartbeat :: worker_heartbeat
  sv_state :: string

definition sv_init :: "restart_policy \<Rightarrow> 'w supervisor" where
  "sv_init policy =
     \<lparr> sv_policy = policy, sv_worker = None, sv_restart_count = 0,
       sv_heartbeat = \<lparr> wh_worker_version = ''sat-ai-worker-v1'', wh_last_seen_ns = 0,
         wh_state = ''STARTING'', wh_sequence = None \<rparr>,
       sv_state = ''STOPPED'' \<rparr>"

definition sv_touch :: "int \<Rightarrow> 'w supervisor \<Rightarrow> 'w supervisor" where
  "sv_touch now_ns v =
     (case wh_touch now_ns None (sv_heartbeat v) of Inl _ \<Rightarrow> v | Inr h \<Rightarrow> v\<lparr> sv_heartbeat := h \<rparr>)"

definition sv_start :: "'w res \<Rightarrow> int \<Rightarrow> 'w supervisor \<Rightarrow> 'w supervisor \<times> unit res" where
  "sv_start started now_ns v =
     (case started of
        Inl e \<Rightarrow> (v, Inl e)
      | Inr w \<Rightarrow> ((sv_touch now_ns (v\<lparr> sv_worker := Some w \<rparr>))\<lparr> sv_state := ''READY'' \<rparr>, Inr ()))"

definition sv_alive :: "int \<Rightarrow> 'w supervisor \<Rightarrow> bool res" where
  "sv_alive now_ns v = wh_is_alive now_ns (rp_heartbeat_timeout_ms (sv_policy v)) (sv_heartbeat v)"

text \<open>The two readings of the clock: when touching, and when testing.\<close>

definition sv_heartbeat_tick :: "int \<Rightarrow> int \<Rightarrow> 'w supervisor \<Rightarrow> 'w supervisor \<times> unit res" where
  "sv_heartbeat_tick touched_ns now_ns v =
     (let v = sv_touch touched_ns v in
      if sv_state v = ''READY'' then
        case sv_alive now_ns v of
          Inl e \<Rightarrow> (v, Inl e)
        | Inr alive \<Rightarrow> (if \<not> alive then v\<lparr> sv_state := ''WORKER_LOST'' \<rparr> else v, Inr ())
      else (v, Inr ()))"

definition sv_check_liveness :: "int \<Rightarrow> 'w supervisor \<Rightarrow> 'w supervisor \<times> bool res" where
  "sv_check_liveness now_ns v =
     (case sv_alive now_ns v of
        Inl e \<Rightarrow> (v, Inl e)
      | Inr alive \<Rightarrow>
          (if \<not> alive \<and> sv_state v = ''READY'' then v\<lparr> sv_state := ''WORKER_LOST'' \<rparr> else v, Inr alive))"

definition sv_restart :: "'w res \<Rightarrow> int \<Rightarrow> 'w supervisor \<Rightarrow> 'w supervisor \<times> bool res" where
  "sv_restart started now_ns v =
     (if sv_restart_count v \<ge> rp_max_restarts (sv_policy v)
      then (v\<lparr> sv_state := ''FAULT'' \<rparr>, Inr False)
      else
        let v = v\<lparr> sv_restart_count := sv_restart_count v + 1 \<rparr> in
        if rp_backoff_ms (sv_policy v) < 0
        then (v, Inl (ValueError ''sleep length must be non-negative''))
        else case sv_start started now_ns v of
          (v, Inl e) \<Rightarrow> (v, Inl e)
        | (v, Inr _) \<Rightarrow> (v\<lparr> sv_state := ''RESTARTED'' \<rparr>, Inr True))"

definition sv_stop :: "'w supervisor \<Rightarrow> 'w supervisor" where
  "sv_stop v = v\<lparr> sv_worker := None, sv_state := ''STOPPED'' \<rparr>"

datatype 'w supervisor_op =
    SvStart "'w res" int
  | SvTick int int
  | SvCheck int
  | SvRestart "'w res" int
  | SvStop

fun sv_step :: "'w supervisor \<Rightarrow> 'w supervisor_op \<Rightarrow> 'w supervisor" where
  "sv_step v (SvStart w t) = fst (sv_start w t v)"
| "sv_step v (SvTick t u) = fst (sv_heartbeat_tick t u v)"
| "sv_step v (SvCheck t) = fst (sv_check_liveness t v)"
| "sv_step v (SvRestart w t) = fst (sv_restart w t v)"
| "sv_step v SvStop = sv_stop v"

section \<open>Lemmas\<close>

lemma sv_touch_frame [simp]:
  "sv_policy (sv_touch t v) = sv_policy v"
  "sv_restart_count (sv_touch t v) = sv_restart_count v"
  "sv_state (sv_touch t v) = sv_state v"
  "sv_worker (sv_touch t v) = sv_worker v"
  "sv_heartbeat (sv_touch t v) = (sv_heartbeat v)\<lparr> wh_last_seen_ns := t \<rparr>"
  by (simp_all add: sv_touch_def wh_touch_def)

lemma sv_start_frame [simp]:
  "sv_policy (fst (sv_start w t v)) = sv_policy v"
  "sv_restart_count (fst (sv_start w t v)) = sv_restart_count v"
  by (simp_all add: sv_start_def split: sum.split)

lemma sv_tick_frame [simp]:
  "sv_policy (fst (sv_heartbeat_tick t u v)) = sv_policy v"
  "sv_restart_count (fst (sv_heartbeat_tick t u v)) = sv_restart_count v"
  by (simp_all add: sv_heartbeat_tick_def Let_def split: sum.split)

lemma sv_check_frame [simp]:
  "sv_policy (fst (sv_check_liveness u v)) = sv_policy v"
  "sv_restart_count (fst (sv_check_liveness u v)) = sv_restart_count v"
  by (simp_all add: sv_check_liveness_def split: sum.split)

lemma sv_restart_frame [simp]:
  "sv_policy (fst (sv_restart w t v)) = sv_policy v"
  "sv_restart_count (fst (sv_restart w t v)) =
     (if sv_restart_count v \<ge> rp_max_restarts (sv_policy v) then sv_restart_count v else sv_restart_count v + 1)"
  by (auto simp: sv_restart_def sv_start_def Let_def split: sum.split)

definition sv_inv :: "restart_policy \<Rightarrow> 'w supervisor \<Rightarrow> bool" where
  "sv_inv policy v \<longleftrightarrow> sv_policy v = policy \<and> 0 \<le> sv_restart_count v \<and>
     sv_restart_count v \<le> max 0 (rp_max_restarts policy)"

lemma sv_step_inv: "sv_inv policy v \<Longrightarrow> sv_inv policy (sv_step v op)"
  by (cases op) (auto simp: sv_inv_def sv_stop_def)

interpretation sv: op_system sv_step "sv_inv policy" for policy
  by unfold_locales (rule sv_step_inv)

fun monitors :: "'w supervisor_op \<Rightarrow> bool" where
  "monitors (SvTick _ _) = True"
| "monitors (SvCheck _) = True"
| "monitors _ = False"

lemma sv_monitor_restarted:
  "monitors op \<Longrightarrow> sv_state v = ''RESTARTED'' \<Longrightarrow> sv_state (sv_step v op) = ''RESTARTED''"
  by (cases op) (simp_all add: sv_heartbeat_tick_def sv_check_liveness_def Let_def split: sum.split)

lemma sv_monitor_run:
  "list_all monitors ops \<Longrightarrow> sv_state v = ''RESTARTED'' \<Longrightarrow> sv_state (run_ops sv_step v ops) = ''RESTARTED''"
  by (induction ops arbitrary: v) (simp_all add: sv_monitor_restarted)

section \<open>Property\<close>


definition demo_policy :: restart_policy where
  "demo_policy = \<lparr> rp_max_restarts = 3, rp_backoff_ms = 250, rp_heartbeat_timeout_ms = 2000 \<rparr>"

definition demo_supervisor :: "nat supervisor" where
  "demo_supervisor = run_ops sv_step (sv_init demo_policy) [SvStart (Inr 1) 5]"


end
