(* ===== verification/Spec2Isabelle.thy ===== *)
theory Spec2Isabelle
  imports Canonical CanonicalValues Ccsds CfdpChecksum ContactSchedule ControlMessages Crc16
    FaultModel FileDownlink FileEpoch FilePackets FileReassembly JsonText LinkFiles
    LinkProperties LinkSimulator Messages MissionProfile MissionScheduler MissionStates
    MissionUdpAdapter PyText QueueManager RangeSets ReplayManager Schemas SessionManager
    StorageGuard TcFrame Transport VirtualClock WorkerSupervision
begin

text \<open>
  Verification of the mission protocol, the flight communication path and the link simulator of
  cube_nano.

  A spacecraft (\<^verbatim>\<open>src/flight\<close>) and a ground system exchange commands, telemetry and files over a
  simulated link (\<^verbatim>\<open>src/link_sim\<close>); both sides share one wire contract (\<^verbatim>\<open>src/protocol\<close>). A product
  leaves the spacecraft as follows: the file downlink coordinator cuts it into F Prime file
  packets, puts each into a CCSDS Space Packet inside a TM frame, and hands the frame to the
  communication scheduler; the UDP adapter takes scheduled frames to the link and reports each
  completion back once both callbacks have arrived. The link asks the contact schedule, the fault
  model and the session and file epoch managers what becomes of a frame, and the queue manager
  and the virtual clock when.

  Parts and their theories (Python names are kept; a prefix names the class):

  \<^item> \<open>Prelude\<close>: results (\<open>pyerr + 'a\<close>, an exception is a branch), dicts, big-endian bytes, and the
    fold of operations over a state. \<open>Interfaces\<close>: the locales, each interpreted on the model:
    codecs and strict codecs (decoding is exactly the inverse of encoding), components driven
    by operations with an invariant, quantities no operation decreases, and facts no operation
    takes back.
  \<^item> \<open>JsonText\<close>, \<open>ControlMessages\<close>: \<^verbatim>\<open>json.loads\<close> on the texts the canonical encoder writes, and the
    link control and session binding messages of \<^verbatim>\<open>link_sim/control.py\<close> and \<^verbatim>\<open>messages.py\<close> on top of it.
  \<^item> \<open>PyText\<close>: the part of Python's \<^verbatim>\<open>str\<close> the codecs use (UTF-8, UTF-16, code points).
  \<^item> \<open>Canonical\<close>, \<open>CanonicalValues\<close>: \<^verbatim>\<open>protocol/canonical.py\<close>; checked integers, U64 codecs,
    canonical JSON, JCS and deterministic CBOR.
  \<^item> \<open>Crc16\<close>, \<open>Ccsds\<close>, \<open>TcFrame\<close>: \<^verbatim>\<open>protocol/ccsds.py\<close>; the CRC with its burst-detection theory,
    Space Packets, TM frames and TC Type-BD frames.
  \<^item> \<open>FilePackets\<close>, \<open>CfdpChecksum\<close>: \<^verbatim>\<open>protocol/file_packet.py\<close> and the streaming integrity reader of
    \<^verbatim>\<open>flight/file_downlink.py\<close>.
  \<^item> \<open>Messages\<close>, \<open>Schemas\<close>, \<open>MissionProfile\<close>: \<^verbatim>\<open>protocol/messages.py\<close>, \<^verbatim>\<open>schemas.py\<close>, \<^verbatim>\<open>profile.py\<close>
    and \<^verbatim>\<open>slo.py\<close>.
  \<^item> \<open>MissionStates\<close>, \<open>WorkerSupervision\<close>, \<open>MissionScheduler\<close>, \<open>MissionUdpAdapter\<close>, \<open>FileDownlink\<close>:
    \<^verbatim>\<open>flight/state_machine.py\<close>, \<^verbatim>\<open>worker_supervisor.py\<close>, \<^verbatim>\<open>mission_com_scheduler.py\<close>,
    \<^verbatim>\<open>mission_udp_adapter.py\<close> and \<^verbatim>\<open>file_downlink.py\<close>.
  \<^item> \<open>QueueManager\<close>, \<open>SessionManager\<close>, \<open>FileEpoch\<close>, \<open>ContactSchedule\<close>, \<open>VirtualClock\<close>, \<open>FaultModel\<close>:
    the modules of the same names under \<^verbatim>\<open>link_sim\<close>; \<open>Transport\<close>, \<open>ReplayManager\<close>:
    \<^verbatim>\<open>transport.py\<close> and \<^verbatim>\<open>replay_manager.py\<close>.
  \<^item> \<open>LinkSimulator\<close>: \<^verbatim>\<open>link_simulator.py\<close>, which composes the managers, the clock and the fault model;
    \<open>LinkProperties\<close> holds its invariant and what it delivers, \<open>LinkFiles\<close> what its checkpoint
    guarantees across a restart.

  What the lemmas show. Codecs: the decoder accepts exactly the encoder's outputs and inverts it,
  with the deviations stated (the TC overlap, unsorted CBOR maps); the CRC rejects every
  corruption within two adjacent bytes. Managers: an invariant kept by every operation, and from
  it, over every sequence of operations, the contract of the component (fencing of old sessions
  and attempts, FIFO conservation, exact ownership and completion of scheduled frames, legal
  histories). Time: the clock executes in order and its loop returns.

  Conventions. A Python int is an \<open>int\<close>; where a width matters it is checked by the code and so by
  the model, and the CRC and the checksum work on words. A method is a function from the state to
  the new state and a result; a method that raises after a change returns the changed state with
  the error. Locks are not modelled: each method runs under the lock of its object, so its steps
  are atomic; a call that waits is two steps. Clock readings, randomness, SHA-256, file system
  readings, callbacks and network senders are arguments. Error messages keep their constant part.

  Fuel and bounds. Loops over data recurse on the data; \<open>cbor_value\<close> recurses on a depth, which
  \<open>cbor_decode\<close> takes to be more than the number of bytes (each nested value takes a byte, so it
  is enough); \<open>vc_run_until\<close> and \<open>fd_drain\<close> are partial functions into \<open>option\<close>, with the
  theorems that they return.

  Not modelled: the HTTP idempotency normalisation of \<^verbatim>\<open>schemas.py\<close> (regular expressions and
  calendar parsing), reading profiles from YAML, the socket glue around the link
  (\<^verbatim>\<open>mission_link.py\<close>, \<^verbatim>\<open>__main__.py\<close>), sockets and processes, the SQLite
  journal and ledgers, the HTTP and web ground system, and the inference, training and
  preprocessing code, which is numeric array code over external libraries.
\<close>

end
